(* ===== verification/Prelude.thy ===== *)
theory Prelude
  imports Main
begin

text \<open>
  Shared material: the 64-bit integers of Go with their wrap-around and its truncating
  division, the functions of Go's \<open>strings\<close> package that the code uses (on byte
  strings, so \<open>char list\<close>), and a few facts about lists and sums that several
  components need.
\<close>

section \<open>Collections of facts\<close>

named_theorems i64_simps \<open>facts that remove the wrap-around of a value known to be in range\<close>
named_theorems str_simps \<open>facts about the string functions\<close>

section \<open>Machine integers\<close>

text \<open>
  Go's \<open>int64\<close> (and \<open>int\<close>, 64 bits wide on every platform the image is built for)
  is an \<open>int\<close> in the range below; an arithmetic result is brought back to the
  range by \<open>i64\<close>, two's complement wrap-around.
\<close>

definition i64 :: "int \<Rightarrow> int" where
  "i64 x = (x + 2 ^ 63) mod 2 ^ 64 - 2 ^ 63"

definition in_i64 :: "int \<Rightarrow> bool" where
  "in_i64 x \<longleftrightarrow> - (2 ^ 63) \<le> x \<and> x < 2 ^ 63"

lemma i64_id [i64_simps]: "in_i64 x \<Longrightarrow> i64 x = x"
  by (simp add: i64_def in_i64_def)

lemma in_i64_i64 [simp]: "in_i64 (i64 x)"
  by (simp add: i64_def in_i64_def)

lemma i64_i64 [simp]: "i64 (i64 x) = i64 x"
  by (rule i64_id) simp

lemma i64_nonneg: "0 \<le> x \<Longrightarrow> x < 2 ^ 63 \<Longrightarrow> i64 x = x"
  by (rule i64_id) (simp add: in_i64_def)

lemma i64_0 [simp]: "i64 0 = 0"
  by (simp add: i64_def)

lemma i64_diff_multiple: "\<exists>k. i64 x = x + k * 2 ^ 64"
proof -
  have "i64 x = x - 2 ^ 64 * ((x + 2 ^ 63) div 2 ^ 64)"
    unfolding i64_def by (simp add: minus_mult_div_eq_mod [symmetric] algebra_simps)
  then show ?thesis
    by (intro exI [of _ "- ((x + 2 ^ 63) div 2 ^ 64)"]) simp
qed

text \<open>Go's integer division truncates towards zero.\<close>

definition go_quot :: "int \<Rightarrow> int \<Rightarrow> int" where
  "go_quot a b = sgn a * sgn b * (\<bar>a\<bar> div \<bar>b\<bar>)"

definition go_rem :: "int \<Rightarrow> int \<Rightarrow> int" where
  "go_rem a b = a - b * go_quot a b"

lemma go_quot_nonneg [simp]: "0 \<le> a \<Longrightarrow> 0 < b \<Longrightarrow> go_quot a b = a div b"
  by (cases "a = 0") (simp_all add: go_quot_def)

lemma go_rem_nonneg [simp]: "0 \<le> a \<Longrightarrow> 0 < b \<Longrightarrow> go_rem a b = a mod b"
  by (simp add: go_rem_def minus_mult_div_eq_mod)

section \<open>Results\<close>

text \<open>A call that returns a value or an error: \<open>Inl\<close> carries the error.\<close>

definition bind_res :: "'e + 'a \<Rightarrow> ('a \<Rightarrow> 'e + 'b) \<Rightarrow> 'e + 'b" where
  "bind_res m f = (case m of Inl e \<Rightarrow> Inl e | Inr x \<Rightarrow> f x)"

lemma bind_res_simps [simp]:
  "bind_res (Inl e) f = Inl e"
  "bind_res (Inr x) f = f x"
  by (simp_all add: bind_res_def)

lemma bind_res_Inr_iff: "bind_res m f = Inr y \<longleftrightarrow> (\<exists>x. m = Inr x \<and> f x = Inr y)"
  by (cases m) simp_all

section \<open>Strings\<close>

text \<open>
  A Go string is a sequence of bytes, here a \<open>char list\<close>. Lower-casing and trimming
  act on the ASCII characters; the code uses them on host names, identifiers and
  messages, and bytes above 127 are left alone.
\<close>

definition has_prefix :: "string \<Rightarrow> string \<Rightarrow> bool" where
  "has_prefix s p \<longleftrightarrow> take (length p) s = p"

definition has_suffix :: "string \<Rightarrow> string \<Rightarrow> bool" where
  "has_suffix s p \<longleftrightarrow> length p \<le> length s \<and> drop (length s - length p) s = p"

text \<open>\<open>strings.Index\<close>: the first position at which \<open>p\<close> occurs.\<close>

fun str_index :: "string \<Rightarrow> string \<Rightarrow> nat option" where
  "str_index s p =
     (if has_prefix s p then Some 0
      else case s of [] \<Rightarrow> None | _ # s' \<Rightarrow> map_option Suc (str_index s' p))"

declare str_index.simps [simp del]

definition str_contains :: "string \<Rightarrow> string \<Rightarrow> bool" where
  "str_contains s p \<longleftrightarrow> str_index s p \<noteq> None"

definition ascii_lower :: "char \<Rightarrow> char" where
  "ascii_lower c =
     (if 65 \<le> (of_char c :: nat) \<and> (of_char c :: nat) \<le> 90 then char_of ((of_char c :: nat) + 32) else c)"

definition to_lower :: "string \<Rightarrow> string" where
  "to_lower s = map ascii_lower s"

definition is_space :: "char \<Rightarrow> bool" where
  "is_space c \<longleftrightarrow> (of_char c :: nat) \<in> {9, 10, 11, 12, 13, 32}"

definition trim_left :: "(char \<Rightarrow> bool) \<Rightarrow> string \<Rightarrow> string" where
  "trim_left p s = dropWhile p s"

definition trim_right :: "(char \<Rightarrow> bool) \<Rightarrow> string \<Rightarrow> string" where
  "trim_right p s = rev (dropWhile p (rev s))"

definition trim_space :: "string \<Rightarrow> string" where
  "trim_space s = trim_right is_space (trim_left is_space s)"

fun str_join :: "string \<Rightarrow> string list \<Rightarrow> string" where
  "str_join sep [] = []"
| "str_join sep [x] = x"
| "str_join sep (x # y # xs) = x @ sep @ str_join sep (y # xs)"

text \<open>\<open>strings.Split\<close> at a one-byte separator.\<close>

fun str_split :: "char \<Rightarrow> string \<Rightarrow> string list" where
  "str_split c [] = [[]]"
| "str_split c (x # xs) =
     (if x = c then [] # str_split c xs
      else case str_split c xs of [] \<Rightarrow> [[x]] | y # ys \<Rightarrow> (x # y) # ys)"

lemma has_prefix_append [str_simps]: "has_prefix (p @ s) p"
  by (simp add: has_prefix_def)

lemma has_prefix_iff: "has_prefix s p \<longleftrightarrow> (\<exists>t. s = p @ t)"
  by (metis append_take_drop_id append_eq_conv_conj has_prefix_def)

lemma has_suffix_iff: "has_suffix s p \<longleftrightarrow> (\<exists>t. s = t @ p)"
proof
  assume "has_suffix s p"
  then have "s = take (length s - length p) s @ p"
    by (metis append_take_drop_id has_suffix_def)
  then show "\<exists>t. s = t @ p" by blast
next
  assume "\<exists>t. s = t @ p"
  then show "has_suffix s p" by (auto simp: has_suffix_def)
qed

lemma str_index_Some:
  "str_index s p = Some i \<Longrightarrow> \<exists>t. s = take i s @ p @ t \<and> i \<le> length s"
proof (induction s arbitrary: i)
  case Nil
  then show ?case
    by (subst (asm) str_index.simps) (auto simp: has_prefix_iff split: if_splits)
next
  case (Cons c s)
  show ?case
  proof (cases "has_prefix (c # s) p")
    case True
    with Cons.prems show ?thesis
      by (subst (asm) str_index.simps) (auto simp: has_prefix_iff)
  next
    case False
    with Cons.prems obtain j where j: "str_index s p = Some j" "i = Suc j"
      by (subst (asm) str_index.simps) auto
    with Cons.IH [OF j(1)] show ?thesis by auto
  qed
qed

lemma str_index_None: "str_index s p = None \<Longrightarrow> \<nexists>u t. s = u @ p @ t"
proof (induction s)
  case Nil
  then show ?case
    by (subst (asm) str_index.simps) (auto simp: has_prefix_def split: if_splits)
next
  case (Cons c s)
  from Cons.prems have np: "\<not> has_prefix (c # s) p" and "str_index s p = None"
    by (subst (asm) str_index.simps; auto split: if_splits)+
  with Cons.IH have ih: "\<nexists>u t. s = u @ p @ t" by blast
  show ?case
  proof
    assume "\<exists>u t. c # s = u @ p @ t"
    then obtain u t where "c # s = u @ p @ t" by blast
    with np ih show False by (cases u) (auto simp: has_prefix_iff)
  qed
qed

lemma str_contains_iff: "str_contains s p \<longleftrightarrow> (\<exists>u t. s = u @ p @ t)"
proof
  assume "str_contains s p"
  then obtain i where "str_index s p = Some i"
    by (auto simp: str_contains_def)
  then show "\<exists>u t. s = u @ p @ t" using str_index_Some by blast
next
  assume "\<exists>u t. s = u @ p @ t"
  then show "str_contains s p" using str_index_None [of s p] by (auto simp: str_contains_def)
qed

section \<open>Decimal text\<close>

text \<open>\<open>strconv.FormatInt(_, 10)\<close> and the \<open>%d\<close> verb.\<close>

definition digit :: "nat \<Rightarrow> char" where
  "digit n = char_of (48 + n)"

lemma digits:
  "digit 0 = CHR ''0''" "digit (Suc 0) = CHR ''1''" "digit 2 = CHR ''2''" "digit 3 = CHR ''3''" "digit 4 = CHR ''4''"
  "digit 5 = CHR ''5''" "digit 6 = CHR ''6''" "digit 7 = CHR ''7''" "digit 8 = CHR ''8''" "digit 9 = CHR ''9''"
  by code_simp+

fun show_nat :: "nat \<Rightarrow> string" where
  "show_nat n = (if n < 10 then [digit n] else show_nat (n div 10) @ [digit (n mod 10)])"

declare show_nat.simps [simp del]

definition show_int :: "int \<Rightarrow> string" where
  "show_int x = (if x < 0 then ''-'' @ show_nat (nat (- x)) else show_nat (nat x))"

text \<open>The \<open>%0wd\<close> verb: zeros between the sign and the digits, up to the width.\<close>

definition show_int_pad :: "nat \<Rightarrow> int \<Rightarrow> string" where
  "show_int_pad w x =
     (if x < 0
      then ''-'' @ replicate (w - 1 - length (show_nat (nat (- x)))) CHR ''0'' @ show_nat (nat (- x))
      else replicate (w - length (show_nat (nat x))) CHR ''0'' @ show_nat (nat x))"

definition is_digit :: "char \<Rightarrow> bool" where
  "is_digit c \<longleftrightarrow> 48 \<le> (of_char c :: nat) \<and> (of_char c :: nat) \<le> 57"

definition read_nat :: "string \<Rightarrow> nat" where
  "read_nat s = foldl (\<lambda>n c. 10 * n + (of_char c - 48)) 0 s"

lemma of_char_digit: "n < 10 \<Longrightarrow> (of_char (digit n) :: nat) = 48 + n"
  by (simp add: digit_def)

lemma is_digit_digit: "n < 10 \<Longrightarrow> is_digit (digit n)"
  by (simp add: is_digit_def of_char_digit)

lemma show_nat_digits: "list_all is_digit (show_nat n)"
proof (induction n rule: show_nat.induct)
  case (1 n)
  then show ?case
    by (subst show_nat.simps) (auto simp: is_digit_digit)
qed

lemma show_nat_nonempty [simp]: "show_nat n \<noteq> []"
  by (subst show_nat.simps) simp

lemma read_nat_snoc: "read_nat (s @ [c]) = 10 * read_nat s + (of_char c - 48)"
  by (simp add: read_nat_def)

lemma read_show_nat [simp]: "read_nat (show_nat n) = n"
proof (induction n rule: show_nat.induct)
  case (1 n)
  show ?case
  proof (cases "n < 10")
    case True
    then show ?thesis
      by (subst show_nat.simps) (simp add: read_nat_def of_char_digit)
  next
    case False
    with 1 show ?thesis
      by (subst show_nat.simps) (simp add: read_nat_snoc of_char_digit)
  qed
qed

lemma show_nat_inject [simp]: "show_nat m = show_nat n \<longleftrightarrow> m = n"
  by (metis read_show_nat)

lemma digit_not_minus: "is_digit c \<Longrightarrow> c \<noteq> CHR ''-''"
  by (auto simp: is_digit_def)

lemma show_nat_not_minus: "show_nat n \<noteq> CHR ''-'' # s"
  using show_nat_digits [of n] digit_not_minus by (cases "show_nat n") auto

lemma show_int_inject [simp]: "show_int x = show_int y \<longleftrightarrow> x = y"
  using show_nat_not_minus [of "nat x" "show_nat (nat (- y))"]
    show_nat_not_minus [of "nat y" "show_nat (nat (- x))"]
  by (auto simp: show_int_def)

lemma show_int_chars: "c \<in> set (show_int x) \<Longrightarrow> is_digit c \<or> c = CHR ''-''"
  using show_nat_digits [of "nat x"] show_nat_digits [of "nat (- x)"]
  by (auto simp: show_int_def list_all_iff split: if_splits)

text \<open>
  \<open>strconv.ParseInt(_, 10, 64)\<close>: an optional sign and at least one digit, in range.
\<close>

definition parse_int :: "string \<Rightarrow> int option" where
  "parse_int s =
     (let (neg, ds) = (case s of [] \<Rightarrow> (False, [])
            | c # cs \<Rightarrow> if c = CHR ''-'' then (True, cs) else if c = CHR ''+'' then (False, cs)
                       else (False, s));
          n = (if neg then - int (read_nat ds) else int (read_nat ds))
      in if ds \<noteq> [] \<and> list_all is_digit ds \<and> in_i64 n then Some n else None)"

text \<open>The \<open>%d\<close> verb of \<open>fmt.Sscanf\<close>: the number and what follows it.\<close>

definition scan_int :: "string \<Rightarrow> (int \<times> string) option" where
  "scan_int s =
     (let t = dropWhile (\<lambda>c. c = CHR '' '') s;
          (sign, u) = (case t of c # cs \<Rightarrow> if c = CHR ''-'' then (''-'', cs) else if c = CHR ''+'' then ([], cs) else ([], t)
                                | [] \<Rightarrow> ([], []));
          ds = takeWhile is_digit u
      in if ds = [] then None else map_option (\<lambda>i. (i, dropWhile is_digit u)) (parse_int (sign @ ds)))"

lemma parse_show_int [simp]: "in_i64 x \<Longrightarrow> parse_int (show_int x) = Some x"
proof -
  have *: "parse_int (show_nat n) = Some (int n)" if "in_i64 (int n)" for n
  proof -
    obtain c cs where s: "show_nat n = c # cs" by (cases "show_nat n") auto
    with show_nat_digits [of n] have "is_digit c" by simp
    then have "c \<noteq> CHR ''-''" "c \<noteq> CHR ''+''" by (auto simp: is_digit_def)
    with s that show_nat_digits [of n] read_show_nat [of n] show ?thesis
      by (simp add: parse_int_def)
  qed
  assume "in_i64 x"
  with * [of "nat x"] show ?thesis
    using show_nat_digits [of "nat (- x)"]
    by (cases "x < 0") (simp_all add: show_int_def parse_int_def)
qed

section \<open>Lists\<close>

lemma sorted_wrt_insert_key:
  "sorted (map f xs) \<longleftrightarrow> sorted_wrt (\<lambda>x y. f x \<le> f y) xs"
  by (simp add: sorted_map)

lemma sum_list_filter_le:
  fixes f :: "'a \<Rightarrow> int"
  assumes "\<And>x. x \<in> set xs \<Longrightarrow> 0 \<le> f x"
  shows "sum_list (map f (filter P xs)) \<le> sum_list (map f xs)"
  using assms by (induction xs) (auto simp: add_increasing)

end
