(* ===== verification/Intervals.thy ===== *)
theory Intervals
  imports Prelude
begin

text \<open>
  The interval arithmetic of \<open>internal/availability/interval.go\<close> over the
  \<open>Interval\<close> of \<open>internal/model/report.go\<close>: merging, intersecting and subtracting
  half-open ranges of Unix seconds, their total length, and the rounded ratios. The
  specification is the set of seconds a list of intervals covers.
\<close>

section \<open>Intervals and the set of seconds they cover\<close>

record interval =
  iv_from :: int
  iv_to :: int

abbreviation Iv :: "int \<Rightarrow> int \<Rightarrow> interval" where
  "Iv f t \<equiv> \<lparr>iv_from = f, iv_to = t\<rparr>"

text \<open>The order \<open>Merge\<close> sorts by: the start, then the end.\<close>

instantiation interval_ext :: (linorder) linorder
begin

definition less_eq_interval_ext :: "'a interval_scheme \<Rightarrow> 'a interval_scheme \<Rightarrow> bool" where
  "less_eq_interval_ext a b \<longleftrightarrow>
     iv_from a < iv_from b \<or> iv_from a = iv_from b \<and>
       (iv_to a < iv_to b \<or> iv_to a = iv_to b \<and> interval.more a \<le> interval.more b)"

definition less_interval_ext :: "'a interval_scheme \<Rightarrow> 'a interval_scheme \<Rightarrow> bool" where
  "less_interval_ext a b \<longleftrightarrow> a \<le> b \<and> \<not> b \<le> a"

instance
proof
  fix x y z :: "'a interval_scheme"
  show "(x < y) = (x \<le> y \<and> \<not> y \<le> x)" by (simp add: less_interval_ext_def)
  show "x \<le> x" by (simp add: less_eq_interval_ext_def)
  show "x \<le> z" if "x \<le> y" "y \<le> z" using that by (auto simp: less_eq_interval_ext_def)
  show "x = y" if "x \<le> y" "y \<le> x" using that
    by (auto simp: less_eq_interval_ext_def intro: interval.equality)
  show "x \<le> y \<or> y \<le> x" by (auto simp: less_eq_interval_ext_def)
qed

end

text \<open>\<open>Interval.Seconds\<close>.\<close>

definition seconds :: "interval \<Rightarrow> int" where
  "seconds iv = (if iv_to iv \<le> iv_from iv then 0 else i64 (iv_to iv - iv_from iv))"

definition instants :: "interval list \<Rightarrow> int set" where
  "instants xs = (\<Union>iv \<in> set xs. {iv_from iv ..< iv_to iv})"

lemma instants_simps [simp]:
  "instants [] = {}"
  "instants (iv # xs) = {iv_from iv ..< iv_to iv} \<union> instants xs"
  "instants (xs @ ys) = instants xs \<union> instants ys"
  by (auto simp: instants_def)

lemma instants_iff: "t \<in> instants xs \<longleftrightarrow> (\<exists>iv \<in> set xs. iv_from iv \<le> t \<and> t < iv_to iv)"
  by (auto simp: instants_def)

lemma finite_instants [simp]: "finite (instants xs)"
  by (simp add: instants_def)

text \<open>A normalised list: non-empty intervals, in order, with a gap between any two.\<close>

definition normal :: "interval list \<Rightarrow> bool" where
  "normal xs \<longleftrightarrow>
     sorted_wrt (\<lambda>a b. iv_to a < iv_from b) xs \<and> (\<forall>iv \<in> set xs. iv_from iv < iv_to iv)"

lemma normal_simps [simp]:
  "normal []"
  "normal (iv # xs) \<longleftrightarrow>
     iv_from iv < iv_to iv \<and> (\<forall>jv \<in> set xs. iv_to iv < iv_from jv) \<and> normal xs"
  by (auto simp: normal_def)

section \<open>Merge\<close>

text \<open>
  The loop of \<open>Merge\<close> over the sorted intervals: \<open>last\<close> is the interval being
  extended, the last element of the output so far.
\<close>

fun coalesce :: "interval \<Rightarrow> interval list \<Rightarrow> interval list" where
  "coalesce lst [] = [lst]"
| "coalesce lst (iv # rest) =
     (if iv_from iv \<le> iv_to lst
      then coalesce (if iv_to iv > iv_to lst then lst\<lparr>iv_to := iv_to iv\<rparr> else lst) rest
      else lst # coalesce iv rest)"

definition merge :: "interval list \<Rightarrow> interval list" where
  "merge xs = (case sort (filter (\<lambda>iv. iv_to iv > iv_from iv) xs) of
     [] \<Rightarrow> [] | iv # rest \<Rightarrow> coalesce iv rest)"

lemma coalesce_correct:
  assumes "iv_from lst < iv_to lst" "\<forall>iv \<in> set rest. iv_from iv < iv_to iv"
    "sorted (map iv_from (lst # rest))"
  shows "normal (coalesce lst rest) \<and>
    instants (coalesce lst rest) = instants (lst # rest) \<and>
    (\<forall>jv \<in> set (coalesce lst rest). iv_from lst \<le> iv_from jv)"
  using assms
proof (induction lst rest rule: coalesce.induct)
  case (1 lst)
  then show ?case by simp
next
  case (2 lst iv rest)
  show ?case
  proof (cases "iv_from iv \<le> iv_to lst")
    case True
    define lst' where "lst' = (if iv_to iv > iv_to lst then lst\<lparr>iv_to := iv_to iv\<rparr> else lst)"
    have lst': "iv_from lst' = iv_from lst" "iv_from lst' < iv_to lst'"
        "sorted (map iv_from (lst' # rest))"
      using "2.prems" by (auto simp: lst'_def)
    have cover: "{iv_from lst ..< iv_to lst'} =
        {iv_from lst ..< iv_to lst} \<union> {iv_from iv ..< iv_to iv}"
      using "2.prems" True by (auto simp: lst'_def)
    have step: "coalesce lst (iv # rest) = coalesce lst' rest"
      using True by (simp add: lst'_def)
    from "2.IH"(1) [OF True] lst' "2.prems"(2) show ?thesis
      unfolding step lst'_def [symmetric] by (simp add: cover Un_assoc)
  next
    case False
    with "2.IH"(2) [OF False] "2.prems" show ?thesis by fastforce
  qed
qed

lemma sorted_interval_from: "sorted xs \<Longrightarrow> sorted (map iv_from xs)" for xs :: "interval list"
  by (induction xs) (auto simp: less_eq_interval_ext_def)

lemma merge_correct: "normal (merge xs) \<and> instants (merge xs) = instants xs"
proof -
  define ys where "ys = sort (filter (\<lambda>iv. iv_to iv > iv_from iv) xs)"
  have set: "set ys = {iv \<in> set xs. iv_from iv < iv_to iv}"
    by (auto simp: ys_def)
  have inst: "instants ys = instants xs"
    by (fastforce simp: instants_iff set)
  have srt: "sorted (map iv_from ys)"
    by (rule sorted_interval_from) (simp add: ys_def)
  show ?thesis
  proof (cases ys)
    case Nil
    with inst show ?thesis by (simp add: merge_def ys_def [symmetric])
  next
    case (Cons iv rest)
    then have "iv_from iv < iv_to iv" "\<forall>jv \<in> set rest. iv_from jv < iv_to jv"
      using set by auto
    with coalesce_correct [of iv rest] srt inst Cons show ?thesis
      by (simp add: merge_def ys_def [symmetric])
  qed
qed

lemma normal_merge [simp]: "normal (merge xs)"
  and instants_merge [simp]: "instants (merge xs) = instants xs"
  using merge_correct by auto

text \<open>A normalised list is determined by the seconds it covers.\<close>

lemma normal_head:
  assumes "normal (iv # xs)"
  shows "iv_from iv \<in> instants (iv # xs)" "t \<in> instants (iv # xs) \<Longrightarrow> iv_from iv \<le> t"
    and "iv_to iv \<notin> instants (iv # xs)"
  using assms by (fastforce simp: instants_iff)+

lemma normal_unique: "normal xs \<Longrightarrow> normal ys \<Longrightarrow> instants xs = instants ys \<Longrightarrow> xs = ys"
proof (induction xs arbitrary: ys)
  case Nil
  then show ?case
    by (cases ys) (auto dest: normal_head(1))
next
  case (Cons x xs)
  then obtain y ys' where ys: "ys = y # ys'"
    by (cases ys) (auto dest: normal_head(1))
  have fromeq: "iv_from x = iv_from y"
    using normal_head(1,2) [OF Cons.prems(1)] normal_head(1,2) [of y ys'] Cons.prems(2,3) ys
    by (metis order_antisym)
  have "iv_to x \<le> iv_to y"
  proof (rule ccontr)
    assume "\<not> iv_to x \<le> iv_to y"
    with fromeq Cons.prems(1,2) ys have "iv_to y \<in> instants (x # xs)" by auto
    with normal_head(3) [of y ys'] Cons.prems(2,3) ys show False by metis
  qed
  moreover have "iv_to y \<le> iv_to x"
  proof (rule ccontr)
    assume "\<not> iv_to y \<le> iv_to x"
    with fromeq Cons.prems(1,2) ys have "iv_to x \<in> instants (y # ys')" by auto
    with normal_head(3) [OF Cons.prems(1)] Cons.prems(3) ys show False by metis
  qed
  ultimately have eq: "x = y"
    using fromeq by (auto intro: interval.equality)
  have "instants xs = instants (x # xs) - {iv_from x ..< iv_to x}"
    using Cons.prems(1) by (fastforce simp: instants_iff)
  moreover have "instants ys' = instants (y # ys') - {iv_from y ..< iv_to y}"
    using Cons.prems(2) ys by (fastforce simp: instants_iff)
  ultimately have "instants xs = instants ys'"
    using Cons.prems(3) eq ys by simp
  with Cons.IH [of ys'] Cons.prems(1,2) ys eq show ?case by simp
qed

lemma merge_eqI: "instants xs = instants ys \<Longrightarrow> merge xs = merge ys"
  by (rule normal_unique) simp_all

lemma merge_normal_id: "normal xs \<Longrightarrow> merge xs = xs"
  by (rule normal_unique) simp_all

section \<open>Intersect\<close>

text \<open>The two-pointer loop of \<open>Intersect\<close>: the list whose head ends first advances.\<close>

fun intersect_loop :: "interval list \<Rightarrow> interval list \<Rightarrow> interval list" where
  "intersect_loop [] bs = []"
| "intersect_loop (a # as) [] = []"
| "intersect_loop (a # as) (b # bs) =
     (let f = max (iv_from a) (iv_from b);
          t = min (iv_to a) (iv_to b);
          rest = (if iv_to a < iv_to b then intersect_loop as (b # bs)
                  else intersect_loop (a # as) bs)
      in if t > f then Iv f t # rest else rest)"

definition intersect :: "interval list \<Rightarrow> interval list \<Rightarrow> interval list" where
  "intersect a b = intersect_loop (merge a) (merge b)"

lemma intersect_loop_instants:
  "normal as \<Longrightarrow> normal bs \<Longrightarrow> instants (intersect_loop as bs) = instants as \<inter> instants bs"
proof (induction as bs rule: intersect_loop.induct)
  case (3 a as b bs)
  show ?case
  proof (cases "iv_to a < iv_to b")
    case True
    have "{iv_from a ..< iv_to a} \<inter> instants bs = {}"
      using "3.prems"(2) True by (fastforce simp: instants_iff)
    with "3.IH"(1) "3.prems" True show ?thesis
      by (auto simp: Let_def Int_Un_distrib Int_Un_distrib2)
  next
    case False
    have "{iv_from b ..< iv_to b} \<inter> instants as = {}"
      using "3.prems"(1) False by (fastforce simp: instants_iff)
    with "3.IH"(2) "3.prems" False show ?thesis
      by (auto simp: Let_def Int_Un_distrib Int_Un_distrib2)
  qed
qed simp_all

lemma intersect_loop_lower:
  "jv \<in> set (intersect_loop as bs) \<Longrightarrow>
   (\<exists>a \<in> set as. iv_from a \<le> iv_from jv) \<and> (\<exists>b \<in> set bs. iv_from b \<le> iv_from jv)"
  by (induction as bs rule: intersect_loop.induct) (fastforce simp: Let_def split: if_splits)+

lemma intersect_loop_normal:
  "normal as \<Longrightarrow> normal bs \<Longrightarrow> normal (intersect_loop as bs)"
proof (induction as bs rule: intersect_loop.induct)
  case (3 a as b bs)
  have lower: "min (iv_to a) (iv_to b) < iv_from jv"
    if "jv \<in> set (if iv_to a < iv_to b then intersect_loop as (b # bs)
                   else intersect_loop (a # as) bs)" for jv
    using that "3.prems" intersect_loop_lower [of jv as "b # bs"]
      intersect_loop_lower [of jv "a # as" bs]
    by (fastforce split: if_splits)
  show ?case
    using "3.IH" "3.prems" lower by (auto simp: Let_def)
qed simp_all

lemma normal_intersect [simp]: "normal (intersect a b)"
  by (simp add: intersect_def intersect_loop_normal)

lemma instants_intersect [simp]: "instants (intersect a b) = instants a \<inter> instants b"
  by (simp add: intersect_def intersect_loop_instants)

section \<open>Subtract\<close>

text \<open>
  The inner loop of \<open>Subtract\<close> for one interval of the base: \<open>cur\<close> is what is left
  of it. Breaking out with \<open>cur.From = cur.To\<close> leaves nothing to append.
\<close>

fun subtract_one :: "interval \<Rightarrow> interval list \<Rightarrow> interval list" where
  "subtract_one cur [] = (if iv_to cur > iv_from cur then [cur] else [])"
| "subtract_one cur (c # cs) =
     (if iv_to c \<le> iv_from cur then subtract_one cur cs
      else if iv_from c \<ge> iv_to cur then (if iv_to cur > iv_from cur then [cur] else [])
      else (if iv_from c > iv_from cur
            then [Iv (iv_from cur) (min (iv_from c) (iv_to cur))] else []) @
           (if iv_to c \<ge> iv_to cur then []
            else subtract_one (cur\<lparr>iv_from := iv_to c\<rparr>) cs))"

definition subtract :: "interval list \<Rightarrow> interval list \<Rightarrow> interval list" where
  "subtract base cuts =
     merge (concat (map (\<lambda>b. subtract_one b (merge cuts)) (merge base)))"

lemma subtract_one_instants:
  "normal cs \<Longrightarrow>
   instants (subtract_one cur cs) = {iv_from cur ..< iv_to cur} - instants cs"
proof (induction cur cs rule: subtract_one.induct)
  case (2 cur c cs)
  have later: "t < iv_from d" if "t < iv_to c" "d \<in> set cs" for t d
    using that "2.prems" by fastforce
  consider (before) "iv_to c \<le> iv_from cur"
    | (after) "iv_from cur < iv_to c" "iv_to cur \<le> iv_from c"
    | (over) "iv_from cur < iv_to c" "iv_from c < iv_to cur" by linarith
  then show ?case
  proof cases
    case before
    with "2.IH"(1) "2.prems" show ?thesis by auto
  next
    case after
    have "{iv_from cur ..< iv_to cur} \<inter> instants (c # cs) = {}"
      using after "2.prems" by (fastforce simp: instants_iff)
    with after show ?thesis by auto
  next
    case over
    have cs: "{iv_from cur ..< iv_to c} \<inter> instants cs = {}"
      using "2.prems" by (fastforce simp: instants_iff)
    show ?thesis
    proof (cases "iv_to c \<ge> iv_to cur")
      case True
      with cs over "2.prems" show ?thesis by (auto simp: min_def disjoint_iff)
    next
      case False
      have "instants (subtract_one (cur\<lparr>iv_from := iv_to c\<rparr>) cs) =
          {iv_to c ..< iv_to cur} - instants cs"
        using "2.IH"(2) over False "2.prems" by simp
      with cs over False "2.prems" show ?thesis by (auto simp: min_def disjoint_iff)
    qed
  qed
qed auto

lemma instants_concat: "instants (concat xss) = (\<Union>xs \<in> set xss. instants xs)"
  by (auto simp: instants_def)

lemma normal_subtract [simp]: "normal (subtract a b)"
  by (simp add: subtract_def)

lemma instants_subtract [simp]: "instants (subtract a b) = instants a - instants b"
proof -
  have "instants (subtract a b) = (\<Union>iv \<in> set (merge a). {iv_from iv ..< iv_to iv} - instants b)"
    by (simp add: subtract_def instants_concat subtract_one_instants)
  also have "\<dots> = instants (merge a) - instants b"
    by (auto simp: instants_def)
  finally show ?thesis by simp
qed

section \<open>Total and Clip\<close>

text \<open>\<open>Total\<close>: the running sum over the merged intervals, an \<open>int64\<close>.\<close>

definition total :: "interval list \<Rightarrow> int" where
  "total xs = foldl (\<lambda>sum iv. i64 (sum + seconds iv)) 0 (merge xs)"

definition clip :: "interval list \<Rightarrow> int \<Rightarrow> int \<Rightarrow> interval list" where
  "clip xs f t = intersect xs [Iv f t]"

lemma normal_clip [simp]: "normal (clip xs f t)"
  by (simp add: clip_def)

lemma instants_clip [simp]: "instants (clip xs f t) = instants xs \<inter> {f ..< t}"
  by (simp add: clip_def)

lemma normal_card_Cons:
  assumes "normal (iv # xs)"
  shows "int (card (instants (iv # xs))) = (iv_to iv - iv_from iv) + int (card (instants xs))"
proof -
  have "{iv_from iv ..< iv_to iv} \<inter> instants xs = {}"
    using assms by (fastforce simp: instants_iff)
  with assms show ?thesis by (simp add: card_Un_disjoint)
qed

lemma total_loop:
  assumes "normal xs" "0 \<le> s" "s + int (card (instants xs)) < 2 ^ 63"
  shows "foldl (\<lambda>sum iv. i64 (sum + seconds iv)) s xs = s + int (card (instants xs))"
  using assms
proof (induction xs arbitrary: s)
  case (Cons iv xs)
  have card: "int (card (instants (iv # xs))) = (iv_to iv - iv_from iv) + int (card (instants xs))"
    by (rule normal_card_Cons [OF Cons.prems(1)])
  have "seconds iv = iv_to iv - iv_from iv"
    using Cons.prems card by (simp add: seconds_def i64_nonneg)
  then have step: "i64 (s + seconds iv) = s + (iv_to iv - iv_from iv)"
    using Cons.prems card by (simp add: i64_nonneg)
  show ?case
    using Cons.IH [of "s + (iv_to iv - iv_from iv)"] Cons.prems card step
    by (simp del: instants_simps)
qed simp

lemma total_card:
  assumes "int (card (instants xs)) < 2 ^ 63"
  shows "total xs = int (card (instants xs))"
  using total_loop [of "merge xs" 0] assms by (simp add: total_def)

text \<open>
  No sum of the code reaches the range: the seconds of a set of intervals that lies in a
  window are at most the window's length.
\<close>

lemma card_instants_window:
  "instants xs \<subseteq> {f ..< t} \<Longrightarrow> int (card (instants xs)) \<le> max 0 (t - f)"
  using card_mono [of "{f ..< t}" "instants xs"] by auto

section \<open>Ratios in parts per million\<close>

definition PPM :: int where
  "PPM = 1000000"

text \<open>
  \<open>Ratio\<close>: the products are \<open>int64\<close> products, so they wrap when the numerator
  passes \<open>2\<^sup>6\<^sup>3 / (2 * PPM)\<close>.
\<close>

definition ratio :: "int \<Rightarrow> int \<Rightarrow> int" where
  "ratio numerator denominator =
     (if denominator \<le> 0 then PPM
      else if numerator \<le> 0 then 0
      else if numerator \<ge> denominator then PPM
      else go_quot (i64 (numerator * PPM * 2 + denominator)) (i64 (denominator * 2)))"

definition availability :: "int \<Rightarrow> int \<Rightarrow> int" where
  "availability ast downtime =
     (if ast \<le> 0 then PPM
      else let up = i64 (ast - downtime); up' = (if up < 0 then 0 else up) in ratio up' ast)"

text \<open>The largest denominator for which no product of \<open>Ratio\<close> can wrap.\<close>

definition ratio_limit :: int where
  "ratio_limit = 4611681000000"

lemma ratio_exact:
  assumes "0 < n" "n < d" "d \<le> ratio_limit"
  shows "ratio n d = (n * PPM * 2 + d) div (d * 2)"
proof -
  have "n * PPM * 2 + d < 2 ^ 63" "d * 2 < 2 ^ 63"
    using assms by (simp_all add: PPM_def ratio_limit_def)
  with assms show ?thesis
    by (simp add: ratio_def i64_nonneg PPM_def)
qed

lemma div_nearest:
  fixes a d :: int
  assumes "0 < d"
  shows "\<bar>2 * d * ((a * 2 + d) div (d * 2)) - 2 * a\<bar> \<le> d"
proof -
  have "(d * 2) * ((a * 2 + d) div (d * 2)) + (a * 2 + d) mod (d * 2) = a * 2 + d"
    by (rule mult_div_mod_eq)
  moreover have "0 \<le> (a * 2 + d) mod (d * 2)" "(a * 2 + d) mod (d * 2) < d * 2"
    using assms by simp_all
  ultimately show ?thesis by (simp add: algebra_simps)
qed

lemma ratio_bounds:
  assumes "d \<le> ratio_limit"
  shows "0 \<le> ratio n d" "ratio n d \<le> PPM"
proof -
  have "0 \<le> ratio n d \<and> ratio n d \<le> PPM"
  proof (cases "0 < n \<and> n < d")
    case True
    define q where "q = (n * PPM * 2 + d) div (d * 2)"
    have "q \<le> PPM"
    proof (rule ccontr)
      assume "\<not> q \<le> PPM"
      then have "(2 * d) * (PPM + 1) \<le> (2 * d) * q"
        using True by (intro mult_left_mono) auto
      moreover have "\<bar>2 * d * q - 2 * (n * PPM)\<bar> \<le> d"
        using div_nearest [of d "n * PPM"] True by (simp add: q_def)
      moreover have "n * PPM < d * PPM"
        using True by (simp add: PPM_def)
      ultimately show False using True by (simp add: algebra_simps)
    qed
    moreover have "0 \<le> q"
      using True by (simp add: q_def PPM_def pos_imp_zdiv_nonneg_iff)
    moreover have "ratio n d = q"
      using True assms by (simp only: q_def ratio_exact)
    ultimately show ?thesis by simp
  next
    case False
    then show ?thesis by (auto simp: ratio_def PPM_def)
  qed
  then show "0 \<le> ratio n d" "ratio n d \<le> PPM" by auto
qed

lemma availability_eq:
  "0 < ast \<Longrightarrow> 0 \<le> downtime \<Longrightarrow> downtime \<le> ast \<Longrightarrow> ast < 2 ^ 63 \<Longrightarrow>
   availability ast downtime = ratio (ast - downtime) ast"
  by (simp add: availability_def i64_nonneg)

section \<open>The interface the report uses\<close>

text \<open>
  What the report arithmetic relies on: operations that act on the seconds covered as
  set operations, and a measure that counts them. The facts below it are the budget
  identities of the report (scheduled = net + excluded, net = observed + gaps).
\<close>

locale second_algebra =
  fixes secs :: "'i list \<Rightarrow> int set"
    and isect :: "'i list \<Rightarrow> 'i list \<Rightarrow> 'i list"
    and diffc :: "'i list \<Rightarrow> 'i list \<Rightarrow> 'i list"
    and measure_of :: "'i list \<Rightarrow> int"
  assumes finite_secs: "finite (secs xs)"
    and secs_isect: "secs (isect xs ys) = secs xs \<inter> secs ys"
    and secs_diffc: "secs (diffc xs ys) = secs xs - secs ys"
    and measure_card: "int (card (secs xs)) < 2 ^ 63 \<Longrightarrow> measure_of xs = int (card (secs xs))"
begin

lemma card_le: "secs xs \<subseteq> secs ys \<Longrightarrow> card (secs xs) \<le> card (secs ys)"
  by (simp add: card_mono finite_secs)

lemma measure_small:
  assumes "secs xs \<subseteq> secs ys" "int (card (secs ys)) < 2 ^ 63"
  shows "measure_of xs = int (card (secs xs))"
  using assms card_le [OF assms(1)] by (intro measure_card) linarith

lemma measure_mono:
  assumes "secs xs \<subseteq> secs ys" "int (card (secs ys)) < 2 ^ 63"
  shows "measure_of xs \<le> measure_of ys"
  using measure_small [OF assms] measure_card [OF assms(2)] card_le [OF assms(1)] by simp

lemma measure_nonneg:
  "secs xs \<subseteq> secs ys \<Longrightarrow> int (card (secs ys)) < 2 ^ 63 \<Longrightarrow> 0 \<le> measure_of xs"
  using measure_small by simp

lemma measure_split:
  assumes "int (card (secs xs)) < 2 ^ 63"
  shows "measure_of (diffc xs ys) + measure_of (isect xs ys) = measure_of xs"
proof -
  have "card (secs xs) = card (secs xs - secs ys) + card (secs xs \<inter> secs ys)"
    by (metis Int_Diff_disjoint Int_Diff_Un add.commute card_Un_disjoint finite_secs
        finite_Diff finite_Int)
  then show ?thesis
    using assms measure_small [of "diffc xs ys" xs] measure_small [of "isect xs ys" xs]
      measure_card [of xs]
    by (simp add: secs_diffc secs_isect)
qed

lemma measure_split_sub:
  assumes "secs ys \<subseteq> secs xs" "int (card (secs xs)) < 2 ^ 63"
  shows "measure_of (diffc xs ys) + measure_of ys = measure_of xs"
proof -
  have "measure_of (isect xs ys) = measure_of ys"
    using assms measure_small [of "isect xs ys" xs] measure_small [OF assms]
    by (simp add: secs_isect Int_absorb1)
  with measure_split [OF assms(2), of ys] show ?thesis by simp
qed

end

interpretation report_time: second_algebra instants intersect subtract total
  by unfold_locales (simp_all add: total_card)

section \<open>Properties\<close>

text \<open>
  \<open>Merge\<close> returns the one normalised list (in order, non-empty, no two
  touching) that covers exactly the seconds of its argument.
\<close>

lemma merge_canonical: "merge xs = ys \<longleftrightarrow> normal ys \<and> instants ys = instants xs"
  by (auto intro: normal_unique)

text \<open>
  Claim C31. \<open>Intersect\<close>, \<open>Subtract\<close> and \<open>Clip\<close> are the set operations on
  seconds, and each returns the normalised list of its result.
\<close>

theorem interval_operations_refine_sets:
  "(intersect a b = ys \<longleftrightarrow> normal ys \<and> instants ys = instants a \<inter> instants b) \<and>
   (subtract a b = ys \<longleftrightarrow> normal ys \<and> instants ys = instants a - instants b) \<and>
   (clip a f t = ys \<longleftrightarrow> normal ys \<and> instants ys = instants a \<inter> {f ..< t})"
proof -
  have iff: "xs = ys \<longleftrightarrow> normal ys \<and> instants ys = instants xs" if "normal xs" for xs
    using that by (auto intro: normal_unique)
  show ?thesis
    using iff [of "intersect a b"] iff [of "subtract a b"] iff [of "clip a f t"] by simp
qed

lemma ratio_close:
  assumes "0 < d" "d \<le> ratio_limit" "0 \<le> n" "n \<le> d"
  shows "\<bar>2 * d * ratio n d - 2 * (n * PPM)\<bar> \<le> d"
proof (cases "0 < n \<and> n < d")
  case True
  then show ?thesis
    using div_nearest [of d "n * PPM"] assms by (simp only: ratio_exact)
next
  case False
  with assms show ?thesis by (auto simp: ratio_def)
qed

text \<open>
  Within the range in which no product wraps, \<open>Ratio\<close> is the exact share
  in parts per million rounded to the nearest integer: it is never more than half a part
  away from the true quotient, and never outside zero to one million.
\<close>

lemma ratio_nearest:
  assumes "0 < d" "d \<le> ratio_limit" "0 \<le> n" "n \<le> d"
  shows "\<bar>2 * d * ratio n d - 2 * (n * PPM)\<bar> \<le> d \<and> 0 \<le> ratio n d \<and> ratio n d \<le> PPM"
  using ratio_close [OF assms] ratio_bounds [OF assms(2)] by simp

text \<open>
  Beyond that range the \<open>int64\<close> products of \<open>Ratio\<close> wrap: five
  units out of six, at \<open>10\<^sup>12\<close> seconds a unit, come out as a negative share. The
  user-weighted totals multiply seconds by a weight, so a weight of a few million users
  over a month reaches it.
\<close>

lemma ratio_wraps: "ratio 5000000000000 6000000000000 = - 703894"
  by (simp add: ratio_def i64_def PPM_def go_quot_def)

end
