(* ===== verification/Compute.thy ===== *)
theory Compute
  imports Intervals "HOL-Library.Multiset" "HOL-Library.Product_Lexorder" "HOL-Library.List_Lexorder" "HOL-Library.Char_ord"
begin

text \<open>
  The report calculation of \<open>internal/availability/compute.go\<close>: folding a monitor's
  buckets into a series, rolling a component's monitors up, and the totals, ratios and
  objectives computed from them. Records are the structs of \<open>internal/model\<close>.
\<close>

section \<open>The data the calculation reads\<close>

abbreviation VerdictUp :: string where "VerdictUp \<equiv> ''up''"
abbreviation VerdictDegraded :: string where "VerdictDegraded \<equiv> ''degraded''"
abbreviation VerdictDown :: string where "VerdictDown \<equiv> ''down''"
abbreviation VerdictError :: string where "VerdictError \<equiv> ''error''"

abbreviation RollupAll :: string where "RollupAll \<equiv> ''all''"
abbreviation RollupAny :: string where "RollupAny \<equiv> ''any''"
abbreviation RollupMajority :: string where "RollupMajority \<equiv> ''majority''"

text \<open>\<open>model.Bucket\<close>: a folded interval of readings for one monitor.\<close>

record bucket =
  b_monitor :: string
  b_component :: string
  b_service :: string
  b_start :: int
  b_width :: int
  b_up :: int
  b_degraded :: int
  b_down :: int
  b_errors :: int
  b_maint :: int
  b_p50 :: int
  b_p95 :: int
  b_max :: int
  b_verdict :: string

record component_input =
  c_id :: string
  c_name :: string
  c_weight :: int
  c_rollup :: string
  c_buckets :: "bucket list"
  c_monitors :: "string list"

section \<open>One monitor's series\<close>

record segment =
  s_from :: int
  s_to :: int
  s_observed :: bool
  s_down :: bool

definition bucket_end :: "bucket \<Rightarrow> int" where
  "bucket_end b = i64 (b_start b + b_width b)"

definition bucket_observed :: "bucket \<Rightarrow> bool" where
  "bucket_observed b \<longleftrightarrow> i64 (b_up b + b_degraded b + b_down b) > 0"

definition bucket_down :: "bucket \<Rightarrow> bool" where
  "bucket_down b \<longleftrightarrow> b_verdict b = VerdictDown"

definition ordered_buckets :: "bucket list \<Rightarrow> bucket list" where
  "ordered_buckets bs = sort_key (\<lambda>b. (b_width b, b_start b)) bs"

text \<open>The loop of \<open>monitorSegments\<close>, with the seconds already spoken for.\<close>

fun segment_loop :: "interval list \<Rightarrow> bucket list \<Rightarrow> segment list" where
  "segment_loop covered [] = []"
| "segment_loop covered (b # bs) =
     (if b_width b \<le> 0 then segment_loop covered bs
      else let whole = [Iv (b_start b) (bucket_end b)]
           in map (\<lambda>iv. \<lparr>s_from = iv_from iv, s_to = iv_to iv,
                         s_observed = bucket_observed b, s_down = bucket_down b\<rparr>)
                (subtract whole covered) @
              segment_loop (merge (covered @ whole)) bs)"

definition monitor_segments :: "bucket list \<Rightarrow> segment list" where
  "monitor_segments bs = segment_loop [] (ordered_buckets bs)"

section \<open>A component's series\<close>

text \<open>
  The monitors whose buckets are present. The code groups them in a map and ranges over
  it, in no particular order; the order is an argument here, and the result is shown not
  to depend on it.
\<close>

definition monitor_ids :: "bucket list \<Rightarrow> string list" where
  "monitor_ids bs = remdups (map b_monitor bs)"

definition buckets_of :: "bucket list \<Rightarrow> string \<Rightarrow> bucket list" where
  "buckets_of bs m = filter (\<lambda>b. b_monitor b = m) bs"

definition all_segments :: "string list \<Rightarrow> bucket list \<Rightarrow> segment list" where
  "all_segments order bs = concat (map (\<lambda>m. monitor_segments (buckets_of bs m)) order)"

definition bounds_of :: "segment list \<Rightarrow> int list" where
  "bounds_of segs = sort (remdups (concat (map (\<lambda>s. [s_from s, s_to s]) segs)))"

text \<open>The rollup rule of the sweep, over the monitors that were observed.\<close>

definition rollup_bad :: "string \<Rightarrow> nat \<Rightarrow> nat \<Rightarrow> bool" where
  "rollup_bad rollup is_down seen =
     (let r = (if rollup = [] then RollupAny else rollup)
      in if r = RollupAll then is_down = seen
         else if r = RollupMajority then is_down * 2 > seen
         else is_down > 0)"

definition spanning :: "segment list \<Rightarrow> int \<Rightarrow> int \<Rightarrow> segment list" where
  "spanning segs f t = filter (\<lambda>s. \<not> (s_from s > f \<or> s_to s < t \<or> \<not> s_observed s)) segs"

definition sweep_seen :: "segment list \<Rightarrow> int \<times> int \<Rightarrow> bool" where
  "sweep_seen segs ft \<longleftrightarrow>
     (case ft of (f, t) \<Rightarrow> \<not> t \<le> f \<and> length (spanning segs f t) \<noteq> 0)"

definition sweep_bad :: "string \<Rightarrow> segment list \<Rightarrow> int \<times> int \<Rightarrow> bool" where
  "sweep_bad rollup segs ft \<longleftrightarrow>
     (case ft of (f, t) \<Rightarrow>
        rollup_bad rollup (length (filter s_down (spanning segs f t))) (length (spanning segs f t)))"

definition component_series_in ::
  "string list \<Rightarrow> component_input \<Rightarrow> interval list \<times> interval list" where
  "component_series_in order c =
     (let segs = all_segments order (c_buckets c);
          bounds = bounds_of segs;
          observed = filter (sweep_seen segs) (zip bounds (tl bounds));
          down = filter (sweep_bad (c_rollup c) segs) observed;
          ivs = map (\<lambda>(f, t). Iv f t)
      in if segs = [] then ([], []) else (merge (ivs down), merge (ivs observed)))"

definition component_series :: "component_input \<Rightarrow> interval list \<times> interval list" where
  "component_series c = component_series_in (monitor_ids (c_buckets c)) c"

section \<open>What the series mean, second by second\<close>

text \<open>
  The bucket that speaks for a second: the first one that covers it in the order of
  width and start, so the finest.
\<close>

definition covers :: "int \<Rightarrow> bucket \<Rightarrow> bool" where
  "covers t b \<longleftrightarrow> 0 < b_width b \<and> b_start b \<le> t \<and> t < bucket_end b"

definition speaker :: "bucket list \<Rightarrow> int \<Rightarrow> bucket option" where
  "speaker bs t = find (covers t) (ordered_buckets bs)"

definition readings_at :: "segment list \<Rightarrow> int \<Rightarrow> (bool \<times> bool) list" where
  "readings_at segs t =
     map (\<lambda>s. (s_observed s, s_down s)) (filter (\<lambda>s. s_from s \<le> t \<and> t < s_to s) segs)"

lemma readings_at_simps [simp]:
  "readings_at [] t = []"
  "readings_at (xs @ ys) t = readings_at xs t @ readings_at ys t"
  by (simp_all add: readings_at_def)

lemma readings_at_concat: "readings_at (concat xss) t = concat (map (\<lambda>xs. readings_at xs t) xss)"
  by (induction xss) simp_all

lemma filter_at_normal:
  "normal xs \<Longrightarrow> length (filter (\<lambda>iv. iv_from iv \<le> t \<and> t < iv_to iv) xs) =
     (if t \<in> instants xs then 1 else 0)"
proof (induction xs)
  case (Cons iv xs)
  have "filter (\<lambda>jv. iv_from jv \<le> t \<and> t < iv_to jv) xs = []" if "t < iv_to iv"
    using Cons.prems that by (fastforce simp: filter_empty_conv)
  with Cons show ?case by (auto simp: instants_iff)
qed simp

lemma readings_at_block:
  assumes "normal xs"
  shows "readings_at (map (\<lambda>iv. \<lparr>s_from = iv_from iv, s_to = iv_to iv,
             s_observed = ob, s_down = dn\<rparr>) xs) t =
           (if t \<in> instants xs then [(ob, dn)] else [])"
proof -
  have "readings_at (map (\<lambda>iv. \<lparr>s_from = iv_from iv, s_to = iv_to iv,
             s_observed = ob, s_down = dn\<rparr>) xs) t =
        replicate (length (filter (\<lambda>iv. iv_from iv \<le> t \<and> t < iv_to iv) xs)) (ob, dn)"
    by (induction xs) (auto simp: readings_at_def)
  then show ?thesis by (simp add: filter_at_normal [OF assms])
qed

lemma segment_loop_readings:
  "readings_at (segment_loop covered bs) t =
     (if t \<in> instants covered then []
      else case find (covers t) bs of None \<Rightarrow> []
           | Some b \<Rightarrow> [(bucket_observed b, bucket_down b)])"
proof (induction covered bs rule: segment_loop.induct)
  case (2 covered b bs)
  show ?case
  proof (cases "b_width b \<le> 0")
    case True
    then have "\<not> covers t b" by (simp add: covers_def)
    with True "2.IH"(1) show ?thesis by simp
  next
    case False
    then have "t \<in> instants [Iv (b_start b) (bucket_end b)] \<longleftrightarrow> covers t b"
      by (auto simp: covers_def)
    with False "2.IH"(2) show ?thesis
      by (auto simp: Let_def readings_at_block)
  qed
qed simp

lemma monitor_segments_readings:
  "readings_at (monitor_segments bs) t =
     (case speaker bs t of None \<Rightarrow> [] | Some b \<Rightarrow> [(bucket_observed b, bucket_down b)])"
  by (simp add: monitor_segments_def segment_loop_readings speaker_def)

section \<open>The sweep over the boundaries\<close>

text \<open>Neighbouring boundaries cut the time line: a second lies in one slot only.\<close>

lemma zip_tl_step:
  assumes "sorted xs" "distinct xs" "(f, t) \<in> set (zip xs (tl xs))" "p \<in> set xs"
  shows "f < t \<and> (p \<le> f \<or> t \<le> p)"
  using assms
proof (induction xs arbitrary: p)
  case (Cons x xs)
  show ?case
  proof (cases xs)
    case (Cons y ys)
    with Cons.prems(3) have "(f, t) = (x, y) \<or> (f, t) \<in> set (zip xs (tl xs))" by auto
    then show ?thesis
    proof
      assume "(f, t) = (x, y)"
      with Cons Cons.prems(1,2,4) show ?thesis by auto
    next
      assume ft: "(f, t) \<in> set (zip xs (tl xs))"
      then have "f \<in> set xs" "t \<in> set xs"
        by (auto dest: set_zip_leftD set_zip_rightD simp: Cons)
      then have "x \<le> f" using Cons.prems(1) by simp
      moreover have "f < t \<and> (p' \<le> f \<or> t \<le> p')" if "p' \<in> set xs" for p'
        using Cons.IH [OF _ _ ft] that Cons.prems(1,2) by simp
      ultimately show ?thesis
        using Cons.prems(4) \<open>f \<in> set xs\<close> by auto
    qed
  qed (use Cons.prems in simp)
qed simp

lemma zip_tl_cover:
  assumes "sorted xs" "p \<in> set xs" "q \<in> set xs" "p \<le> x" "x < q"
  shows "\<exists>(f, t) \<in> set (zip xs (tl xs)). f \<le> x \<and> x < t"
  using assms
proof (induction xs arbitrary: p)
  case (Cons a xs)
  show ?case
  proof (cases xs)
    case Nil
    with Cons.prems show ?thesis by auto
  next
    case (Cons b ys)
    show ?thesis
    proof (cases "x < b")
      case True
      with Cons.prems Cons show ?thesis by fastforce
    next
      case False
      with Cons.prems Cons have "q \<in> set xs" "b \<in> set xs" "b \<le> x" by auto
      with Cons.IH [of b] Cons.prems obtain f t where
        "(f, t) \<in> set (zip xs (tl xs))" "f \<le> x" "x < t" by auto
      with Cons show ?thesis by (auto intro!: bexI [of _ "(f, t)"])
    qed
  qed
qed simp

lemma set_bounds_of: "set (bounds_of segs) = s_from ` set segs \<union> s_to ` set segs"
  by (auto simp: bounds_of_def)

lemma spanning_slot:
  assumes "(f, t) \<in> set (zip (bounds_of segs) (tl (bounds_of segs)))" "f \<le> x" "x < t"
  shows "map (\<lambda>s. (s_observed s, s_down s)) (spanning segs f t) = filter fst (readings_at segs x)"
proof -
  have slot: "f < t \<and> (p \<le> f \<or> t \<le> p)" if "p \<in> set (bounds_of segs)" for p
    using that assms(1) by (intro zip_tl_step [of "bounds_of segs"]) (simp_all add: bounds_of_def)
  have "(\<not> (s_from s > f \<or> s_to s < t \<or> \<not> s_observed s)) \<longleftrightarrow>
        (s_from s \<le> x \<and> x < s_to s) \<and> s_observed s" if "s \<in> set segs" for s
    using slot [of "s_from s"] slot [of "s_to s"] that assms(2,3) by (auto simp: set_bounds_of)
  then have "spanning segs f t = filter s_observed (filter (\<lambda>s. s_from s \<le> x \<and> x < s_to s) segs)"
    unfolding spanning_def filter_filter by (intro filter_cong) auto
  then show ?thesis
    by (simp add: readings_at_def filter_map comp_def)
qed

text \<open>The verdict of the rollup rule on the readings that speak for one second.\<close>

definition seen_at :: "(bool \<times> bool) list \<Rightarrow> bool" where
  "seen_at rs \<longleftrightarrow> filter fst rs \<noteq> []"

definition bad_at :: "string \<Rightarrow> (bool \<times> bool) list \<Rightarrow> bool" where
  "bad_at rollup rs \<longleftrightarrow> seen_at rs \<and>
     rollup_bad rollup (length (filter snd (filter fst rs))) (length (filter fst rs))"

lemma slot_meaning:
  assumes "(f, t) \<in> set (zip (bounds_of segs) (tl (bounds_of segs)))" "f \<le> x" "x < t"
  shows "sweep_seen segs (f, t) \<longleftrightarrow> seen_at (readings_at segs x)"
    and "sweep_seen segs (f, t) \<and> sweep_bad r segs (f, t) \<longleftrightarrow> bad_at r (readings_at segs x)"
proof -
  have eq: "map (\<lambda>s. (s_observed s, s_down s)) (spanning segs f t) = filter fst (readings_at segs x)"
    by (rule spanning_slot [OF assms])
  have len: "length (spanning segs f t) = length (filter fst (readings_at segs x))"
    using arg_cong [OF eq, of length] by simp
  have "length (filter s_down (spanning segs f t)) =
        length (filter snd (map (\<lambda>s. (s_observed s, s_down s)) (spanning segs f t)))"
    by (simp add: filter_map comp_def)
  then have dn: "length (filter s_down (spanning segs f t)) =
      length (filter snd (filter fst (readings_at segs x)))"
    by (simp add: eq)
  show seen: "sweep_seen segs (f, t) \<longleftrightarrow> seen_at (readings_at segs x)"
    using assms len by (auto simp: sweep_seen_def seen_at_def)
  show "sweep_seen segs (f, t) \<and> sweep_bad r segs (f, t) \<longleftrightarrow> bad_at r (readings_at segs x)"
    unfolding seen by (simp add: sweep_bad_def bad_at_def len dn)
qed

lemma reading_slot:
  assumes "readings_at segs x \<noteq> []"
  obtains f t where "(f, t) \<in> set (zip (bounds_of segs) (tl (bounds_of segs)))" "f \<le> x" "x < t"
proof -
  from assms obtain s where "s \<in> set segs" "s_from s \<le> x" "x < s_to s"
    by (auto simp: readings_at_def filter_empty_conv)
  then have "\<exists>(f, t) \<in> set (zip (bounds_of segs) (tl (bounds_of segs))). f \<le> x \<and> x < t"
    by (intro zip_tl_cover [of _ "s_from s" "s_to s"]) (auto simp: set_bounds_of, simp add: bounds_of_def)
  with that show ?thesis by auto
qed

lemma slots_instants:
  assumes "\<And>f t. (f, t) \<in> set (zip (bounds_of segs) (tl (bounds_of segs))) \<Longrightarrow>
             f \<le> x \<Longrightarrow> x < t \<Longrightarrow> P (f, t) \<longleftrightarrow> Q"
    and "Q \<Longrightarrow> readings_at segs x \<noteq> []"
  shows "x \<in> instants (map (\<lambda>(f, t). Iv f t)
           (filter P (zip (bounds_of segs) (tl (bounds_of segs))))) \<longleftrightarrow> Q"
proof
  assume "x \<in> instants (map (\<lambda>(f, t). Iv f t)
           (filter P (zip (bounds_of segs) (tl (bounds_of segs)))))"
  then show Q using assms(1) by (auto simp: instants_iff)
next
  assume Q
  with assms(2) obtain f t where
    ft: "(f, t) \<in> set (zip (bounds_of segs) (tl (bounds_of segs)))" "f \<le> x" "x < t"
    by (auto elim: reading_slot)
  with assms(1) \<open>Q\<close> show "x \<in> instants (map (\<lambda>(f, t). Iv f t)
           (filter P (zip (bounds_of segs) (tl (bounds_of segs)))))"
    unfolding instants_iff by (intro bexI [of _ "Iv f t"]) force+
qed

text \<open>
  The readings that speak for a second, one for each monitor with a bucket there, and the
  two series as sets of seconds.
\<close>

definition component_readings :: "string list \<Rightarrow> bucket list \<Rightarrow> int \<Rightarrow> (bool \<times> bool) list" where
  "component_readings order bs t =
     map (\<lambda>b. (bucket_observed b, bucket_down b))
       (List.map_filter (\<lambda>m. speaker (buckets_of bs m) t) order)"

lemma all_segments_readings:
  "readings_at (all_segments order bs) t = component_readings order bs t"
  by (induction order)
    (auto simp: all_segments_def component_readings_def readings_at_concat
      monitor_segments_readings List.map_filter_simps split: option.splits)

lemma component_series_in_points:
  "x \<in> instants (snd (component_series_in order c)) \<longleftrightarrow>
     seen_at (component_readings order (c_buckets c) x)"
  "x \<in> instants (fst (component_series_in order c)) \<longleftrightarrow>
     bad_at (c_rollup c) (component_readings order (c_buckets c) x)"
proof -
  define segs where "segs = all_segments order (c_buckets c)"
  have rd: "readings_at segs x = component_readings order (c_buckets c) x"
    by (simp add: segs_def all_segments_readings)
  have none: "readings_at segs x = []" if "segs = []"
    using that by simp
  have "x \<in> instants (map (\<lambda>(f, t). Iv f t)
      (filter (sweep_seen segs) (zip (bounds_of segs) (tl (bounds_of segs))))) \<longleftrightarrow>
      seen_at (readings_at segs x)"
    by (rule slots_instants) (auto simp: slot_meaning(1) seen_at_def)
  then show "x \<in> instants (snd (component_series_in order c)) \<longleftrightarrow>
     seen_at (component_readings order (c_buckets c) x)"
    using none by (auto simp: component_series_in_def Let_def segs_def [symmetric] rd [symmetric] seen_at_def)
  have "x \<in> instants (map (\<lambda>(f, t). Iv f t)
      (filter (\<lambda>ft. sweep_seen segs ft \<and> sweep_bad (c_rollup c) segs ft)
        (zip (bounds_of segs) (tl (bounds_of segs))))) \<longleftrightarrow>
      bad_at (c_rollup c) (readings_at segs x)"
    by (rule slots_instants) (auto simp: slot_meaning(2) bad_at_def seen_at_def)
  then show "x \<in> instants (fst (component_series_in order c)) \<longleftrightarrow>
     bad_at (c_rollup c) (component_readings order (c_buckets c) x)"
    using none
    by (auto simp: component_series_in_def Let_def segs_def [symmetric] rd [symmetric] bad_at_def
        seen_at_def conj_commute)
qed

text \<open>The order in which the monitors are visited does not matter.\<close>

lemma mset_map_filter_eq:
  assumes "mset xs = mset ys"
  shows "mset (List.map_filter f xs) = mset (List.map_filter f ys)"
  using assms by (simp add: List.map_filter_def)

lemma at_mset:
  assumes "mset rs = mset rs'"
  shows "seen_at rs = seen_at rs'" "bad_at r rs = bad_at r rs'"
proof -
  have len: "length (filter P rs) = length (filter P rs')" for P
    by (metis assms mset_filter size_mset)
  show seen: "seen_at rs = seen_at rs'"
    unfolding seen_at_def length_0_conv [symmetric] len by simp
  show "bad_at r rs = bad_at r rs'"
    unfolding bad_at_def seen filter_filter len by simp
qed

lemma normal_component_series_in:
  "normal (fst (component_series_in order c))" "normal (snd (component_series_in order c))"
  by (simp_all add: component_series_in_def Let_def)

lemma component_series_order:
  assumes "mset order = mset order'"
  shows "component_series_in order c = component_series_in order' c"
proof -
  have rd: "mset (component_readings order (c_buckets c) x) =
      mset (component_readings order' (c_buckets c) x)" for x
    unfolding component_readings_def mset_map by (simp add: mset_map_filter_eq [OF assms])
  have "fst (component_series_in order c) = fst (component_series_in order' c)"
    by (rule normal_unique)
      (auto simp: normal_component_series_in component_series_in_points at_mset [OF rd])
  moreover have "snd (component_series_in order c) = snd (component_series_in order' c)"
    by (rule normal_unique)
      (auto simp: normal_component_series_in component_series_in_points at_mset [OF rd])
  ultimately show ?thesis by (rule prod_eqI)
qed

text \<open>A component is down, or seen, at a second.\<close>

definition comp_down_at :: "component_input \<Rightarrow> int \<Rightarrow> bool" where
  "comp_down_at c t \<longleftrightarrow>
     bad_at (c_rollup c) (component_readings (monitor_ids (c_buckets c)) (c_buckets c) t)"

definition comp_seen_at :: "component_input \<Rightarrow> int \<Rightarrow> bool" where
  "comp_seen_at c t \<longleftrightarrow>
     seen_at (component_readings (monitor_ids (c_buckets c)) (c_buckets c) t)"

lemma component_series_points:
  "instants (fst (component_series c)) = {t. comp_down_at c t}"
  "instants (snd (component_series c)) = {t. comp_seen_at c t}"
  by (auto simp: component_series_def component_series_in_points comp_down_at_def comp_seen_at_def)

lemma comp_down_seen: "comp_down_at c t \<Longrightarrow> comp_seen_at c t"
  by (simp add: comp_down_at_def comp_seen_at_def bad_at_def)

section \<open>The report's records\<close>

record period =
  p_label :: string
  p_from :: int
  p_to :: int
  p_timezone :: string

record exclusion =
  x_window :: string
  x_class :: string
  x_title :: string
  x_declared :: int
  x_lead :: int
  x_from :: int
  x_to :: int
  x_seconds :: int
  x_applied :: bool
  x_reason :: string
  x_txid :: string

record credit_band =
  cb_below :: int
  cb_percent :: int

record objective =
  o_id :: string
  o_name :: string
  o_metric :: string
  o_target :: int
  o_window :: string
  o_budget :: int
  o_credits :: "credit_band list"

record objective_result =
  r_id :: string
  r_name :: string
  r_metric :: string
  r_window :: string
  r_target :: int
  r_achieved :: int
  r_result :: string
  r_reason :: string
  r_credit :: int

record input =
  in_period :: period
  in_scheduled :: "interval list"
  in_exclusions :: "exclusion list"
  in_components :: "component_input list"
  in_floor :: int
  in_objectives :: "objective list"

record component_result =
  cr_id :: string
  cr_name :: string
  cr_weight :: int
  cr_downtime :: int
  cr_availability :: int
  cr_coverage :: int
  cr_outages :: int

record outage =
  ou_component :: string
  ou_from :: int
  ou_to :: int
  ou_seconds :: int

record gap =
  g_from :: int
  g_to :: int
  g_seconds :: int

record ast_summary =
  a_scheduled :: int
  a_excluded :: int
  a_net :: int
  a_intervals :: "interval list"

record downtime_summary =
  d_seconds :: int
  d_outages :: int
  d_mtbf :: int
  d_mtrs :: int
  d_longest :: int

record results =
  rs_availability :: int
  rs_user_availability :: int
  rs_coverage :: int
  rs_potential_user :: int
  rs_user_outage :: int
  rs_observed :: int

record report_output =
  out_ast :: ast_summary
  out_downtime :: downtime_summary
  out_results :: results
  out_components :: "component_result list"
  out_outages :: "outage list"
  out_exclusions :: "exclusion list"
  out_gaps :: "gap list"
  out_objectives :: "objective_result list"

section \<open>The calculation\<close>

text \<open>\<open>FormatPPM\<close>.\<close>

definition format_ppm :: "int \<Rightarrow> string" where
  "format_ppm ppm =
     show_int (go_quot ppm 10000) @ ''.'' @ show_int_pad 3 (go_quot (go_rem ppm 10000) 10) @ ''%''"

text \<open>The loop over the exclusions: what leaves agreed service time, what is shown.\<close>

fun exclusion_loop :: "interval list \<Rightarrow> exclusion list \<Rightarrow> interval list \<times> exclusion list" where
  "exclusion_loop scheduled [] = ([], [])"
| "exclusion_loop scheduled (ex # exs) =
     (let clipped = intersect [Iv (x_from ex) (x_to ex)] scheduled;
          secs = total clipped;
          (applied, shown) = exclusion_loop scheduled exs
      in if secs = 0 then (applied, shown)
         else ((if x_applied ex then clipped @ applied else applied),
               ex\<lparr>x_seconds := secs\<rparr> # shown))"

definition down_in :: "interval list \<Rightarrow> component_input \<Rightarrow> interval list" where
  "down_in net c = intersect (fst (component_series c)) net"

definition observed_in :: "interval list \<Rightarrow> component_input \<Rightarrow> interval list" where
  "observed_in net c = intersect (snd (component_series c)) net"

definition component_result_of :: "interval list \<Rightarrow> int \<Rightarrow> component_input \<Rightarrow> component_result" where
  "component_result_of net net_secs c =
     (let downtime = total (down_in net c)
      in \<lparr>cr_id = c_id c, cr_name = c_name c, cr_weight = c_weight c,
          cr_downtime = downtime,
          cr_availability = availability net_secs downtime,
          cr_coverage = ratio (total (observed_in net c)) net_secs,
          cr_outages = int (length (merge (down_in net c)))\<rparr>)"

definition outages_of :: "interval list \<Rightarrow> component_input \<Rightarrow> outage list" where
  "outages_of net c =
     map (\<lambda>iv. \<lparr>ou_component = c_id c, ou_from = iv_from iv, ou_to = iv_to iv,
                ou_seconds = seconds iv\<rparr>) (merge (down_in net c))"

definition latency_within_budget :: "component_input list \<Rightarrow> int \<Rightarrow> int" where
  "latency_within_budget components budget =
     (if budget \<le> 0 then PPM
      else let read = filter (\<lambda>b. i64 (b_up b + b_degraded b) \<noteq> 0) (concat (map c_buckets components))
           in ratio (int (length (filter (\<lambda>b. b_p95 b \<le> budget) read))) (int (length read)))"

definition credit :: "credit_band list \<Rightarrow> int \<Rightarrow> int" where
  "credit bands achieved =
     foldl (\<lambda>best b. if achieved < cb_below b \<and> cb_percent b > best then cb_percent b else best) 0 bands"

abbreviation ObjectiveMet :: string where "ObjectiveMet \<equiv> ''met''"
abbreviation ObjectiveBreached :: string where "ObjectiveBreached \<equiv> ''breached''"
abbreviation ObjectiveIndeterminate :: string where "ObjectiveIndeterminate \<equiv> ''indeterminate''"

text \<open>The metric of an objective, \<open>None\<close> for a metric the switch does not know.\<close>

definition achieved_of :: "component_input list \<Rightarrow> results \<Rightarrow> objective \<Rightarrow> int option" where
  "achieved_of components res ob =
     (if o_metric ob = ''availability'' then Some (rs_availability res)
      else if o_metric ob = ''user_availability'' then Some (rs_user_availability res)
      else if o_metric ob = ''latency_p95'' then Some (latency_within_budget components (o_budget ob))
      else None)"

definition evaluate_one :: "input \<Rightarrow> int \<Rightarrow> results \<Rightarrow> objective \<Rightarrow> objective_result" where
  "evaluate_one inp net res ob =
     (let r = \<lparr>r_id = o_id ob, r_name = o_name ob, r_metric = o_metric ob, r_window = o_window ob,
               r_target = o_target ob, r_achieved = 0, r_result = [], r_reason = [], r_credit = 0\<rparr>
      in case achieved_of (in_components inp) res ob of
           None \<Rightarrow> r\<lparr>r_result := ObjectiveIndeterminate, r_reason := ''unknown metric '' @ o_metric ob\<rparr>
         | Some achieved \<Rightarrow>
             let r = r\<lparr>r_achieved := achieved\<rparr> in
             if net = 0 then
               r\<lparr>r_result := ObjectiveIndeterminate,
                 r_reason := ''the period contained no agreed service time''\<rparr>
             else if in_floor inp > 0 \<and> rs_coverage res < in_floor inp then
               r\<lparr>r_result := ObjectiveIndeterminate,
                 r_reason := ''monitoring coverage was '' @ format_ppm (rs_coverage res) @
                   '', below the '' @ format_ppm (in_floor inp) @ '' floor for this service''\<rparr>
             else if achieved \<ge> o_target ob then r\<lparr>r_result := ObjectiveMet\<rparr>
             else r\<lparr>r_result := ObjectiveBreached, r_credit := credit (o_credits ob) achieved\<rparr>)"

definition downtime_summary_of :: "interval list \<Rightarrow> int \<Rightarrow> downtime_summary" where
  "downtime_summary_of down_merged net_secs =
     (let secs = total down_merged;
          n = int (length down_merged);
          longest = foldl (\<lambda>best iv. if seconds iv > best then seconds iv else best) 0 down_merged;
          uptime = i64 (net_secs - secs);
          uptime' = (if uptime < 0 then 0 else uptime)
      in \<lparr>d_seconds = secs, d_outages = n,
          d_mtbf = (if n > 0 then go_quot uptime' n else 0),
          d_mtrs = (if n > 0 then go_quot secs n else 0),
          d_longest = longest\<rparr>)"

definition user_seconds :: "(component_result \<Rightarrow> int) \<Rightarrow> component_result list \<Rightarrow> int" where
  "user_seconds f crs = foldl (\<lambda>acc cr. i64 (acc + i64 (cr_weight cr * f cr))) 0 crs"

definition results_of :: "int \<Rightarrow> int \<Rightarrow> int \<Rightarrow> component_result list \<Rightarrow> results" where
  "results_of net_secs down_secs observed crs =
     (let potential = user_seconds (\<lambda>_. net_secs) crs;
          outage = user_seconds cr_downtime crs;
          av = availability net_secs down_secs
      in \<lparr>rs_availability = av,
          rs_user_availability =
            (if potential > 0 then ratio (i64 (potential - outage)) potential else av),
          rs_coverage = ratio observed net_secs,
          rs_potential_user = potential, rs_user_outage = outage, rs_observed = observed\<rparr>)"

text \<open>\<open>Compute\<close>.\<close>

definition net_of :: "input \<Rightarrow> interval list" where
  "net_of inp =
     (let scheduled = clip (in_scheduled inp) (p_from (in_period inp)) (p_to (in_period inp))
      in subtract scheduled (fst (exclusion_loop scheduled (in_exclusions inp))))"

definition compute :: "input \<Rightarrow> report_output" where
  "compute inp =
     (let scheduled = clip (in_scheduled inp) (p_from (in_period inp)) (p_to (in_period inp));
          (applied, shown) = exclusion_loop scheduled (in_exclusions inp);
          net = subtract scheduled applied;
          net_secs = total net;
          crs = map (component_result_of net net_secs) (in_components inp);
          outages = concat (map (outages_of net) (in_components inp));
          down_merged = merge (concat (map (down_in net) (in_components inp)));
          observed_merged = merge (concat (map (observed_in net) (in_components inp)));
          down = downtime_summary_of down_merged net_secs;
          res = results_of net_secs (d_seconds down) (total observed_merged) crs
      in \<lparr>out_ast = \<lparr>a_scheduled = total scheduled, a_excluded = total applied,
                     a_net = net_secs, a_intervals = scheduled\<rparr>,
          out_downtime = down,
          out_results = res,
          out_components = crs,
          out_outages = sort_key (\<lambda>ou. (ou_from ou, ou_component ou)) outages,
          out_exclusions = shown,
          out_gaps = map (\<lambda>iv. \<lparr>g_from = iv_from iv, g_to = iv_to iv, g_seconds = seconds iv\<rparr>)
                       (subtract net observed_merged),
          out_objectives = map (evaluate_one inp net_secs res) (in_objectives inp)\<rparr>)"

section \<open>The report as sets of seconds\<close>

text \<open>
  The specification: which seconds are agreed, excluded, down and seen, stated on the
  input alone.
\<close>

definition agreed_secs :: "input \<Rightarrow> int set" where
  "agreed_secs inp =
     {t \<in> instants (in_scheduled inp). p_from (in_period inp) \<le> t \<and> t < p_to (in_period inp)}"

definition excluded_secs :: "input \<Rightarrow> int set" where
  "excluded_secs inp =
     {t \<in> agreed_secs inp. \<exists>ex \<in> set (in_exclusions inp). x_applied ex \<and> x_from ex \<le> t \<and> t < x_to ex}"

definition net_secs :: "input \<Rightarrow> int set" where
  "net_secs inp = agreed_secs inp - excluded_secs inp"

definition down_secs :: "input \<Rightarrow> int set" where
  "down_secs inp = {t \<in> net_secs inp. \<exists>c \<in> set (in_components inp). comp_down_at c t}"

definition seen_secs :: "input \<Rightarrow> int set" where
  "seen_secs inp = {t \<in> net_secs inp. \<exists>c \<in> set (in_components inp). comp_seen_at c t}"

text \<open>The period is one whose products fit, about 146,000 years.\<close>

definition period_fits :: "input \<Rightarrow> bool" where
  "period_fits inp \<longleftrightarrow> p_to (in_period inp) - p_from (in_period inp) \<le> ratio_limit"

abbreviation sched_of :: "input \<Rightarrow> interval list" where
  "sched_of inp \<equiv> clip (in_scheduled inp) (p_from (in_period inp)) (p_to (in_period inp))"

lemma agreed_sched: "instants (sched_of inp) = agreed_secs inp"
  by (auto simp: agreed_secs_def)

lemma card_agreed:
  assumes "period_fits inp"
  shows "int (card (agreed_secs inp)) \<le> ratio_limit"
proof -
  have "int (card (instants (sched_of inp))) \<le>
      max 0 (p_to (in_period inp) - p_from (in_period inp))"
    by (rule card_instants_window) auto
  with assms show ?thesis
    by (simp only: agreed_sched) (auto simp: period_fits_def ratio_limit_def)
qed

lemma card_sub_agreed:
  assumes "period_fits inp" "X \<subseteq> agreed_secs inp"
  shows "int (card X) \<le> ratio_limit"
proof -
  have "finite (agreed_secs inp)"
    unfolding agreed_sched [symmetric] by simp
  then have "card X \<le> card (agreed_secs inp)"
    using assms(2) by (rule card_mono)
  with card_agreed [OF assms(1)] show ?thesis by simp
qed

lemma total_sub_agreed:
  assumes "period_fits inp" "instants xs \<subseteq> agreed_secs inp"
  shows "total xs = int (card (instants xs))"
  using card_sub_agreed [OF assms] by (intro total_card) (simp add: ratio_limit_def)

lemma exclusion_loop_instants:
  assumes "int (card (instants sched)) < 2 ^ 63"
  shows "instants (fst (exclusion_loop sched exs)) =
    {t \<in> instants sched. \<exists>ex \<in> set exs. x_applied ex \<and> x_from ex \<le> t \<and> t < x_to ex}"
proof (induction exs)
  case (Cons ex exs)
  define clipped where "clipped = intersect [Iv (x_from ex) (x_to ex)] sched"
  have inst: "instants clipped = {t \<in> instants sched. x_from ex \<le> t \<and> t < x_to ex}"
    by (auto simp: clipped_def)
  have "card (instants clipped) \<le> card (instants sched)"
    using inst by (intro card_mono) auto
  then have tot: "total clipped = int (card (instants clipped))"
    using assms by (intro total_card) linarith
  have "total clipped = 0 \<longleftrightarrow> instants clipped = {}"
    unfolding tot by simp
  with Cons inst show ?case
    by (auto simp: Let_def clipped_def [symmetric] split: prod.split)
qed simp

lemma excluded_loop:
  assumes "period_fits inp"
  shows "instants (fst (exclusion_loop (sched_of inp) (in_exclusions inp))) = excluded_secs inp"
proof -
  have "int (card (instants (sched_of inp))) < 2 ^ 63"
    using card_agreed [OF assms] by (simp only: agreed_sched) (simp add: ratio_limit_def)
  then show ?thesis
    by (simp only: exclusion_loop_instants) (auto simp: excluded_secs_def agreed_secs_def)
qed

lemma net_instants:
  assumes "period_fits inp"
  shows "instants (net_of inp) = net_secs inp"
  by (simp add: net_of_def Let_def excluded_loop [OF assms] net_secs_def agreed_sched
      del: instants_clip)

lemma secs_chain:
  "excluded_secs inp \<subseteq> agreed_secs inp" "net_secs inp \<subseteq> agreed_secs inp"
  "down_secs inp \<subseteq> seen_secs inp" "seen_secs inp \<subseteq> net_secs inp"
  unfolding excluded_secs_def net_secs_def down_secs_def seen_secs_def
  by (blast intro: comp_down_seen)+

lemma instants_down_in: "instants (down_in net c) = {t \<in> instants net. comp_down_at c t}"
  and instants_observed_in: "instants (observed_in net c) = {t \<in> instants net. comp_seen_at c t}"
  by (auto simp: down_in_def observed_in_def component_series_points)

lemma instants_down_all:
  "instants (concat (map (down_in net) cs)) = {t \<in> instants net. \<exists>c \<in> set cs. comp_down_at c t}"
  "instants (concat (map (observed_in net) cs)) = {t \<in> instants net. \<exists>c \<in> set cs. comp_seen_at c t}"
  by (auto simp: instants_concat instants_down_in instants_observed_in)

text \<open>The fields of the output in terms of the named parts.\<close>

lemma compute_fields:
  "out_ast (compute inp) =
     \<lparr>a_scheduled = total (sched_of inp),
      a_excluded = total (fst (exclusion_loop (sched_of inp) (in_exclusions inp))),
      a_net = total (net_of inp), a_intervals = sched_of inp\<rparr>"
  "out_downtime (compute inp) =
     downtime_summary_of (merge (concat (map (down_in (net_of inp)) (in_components inp)))) (total (net_of inp))"
  "out_components (compute inp) =
     map (component_result_of (net_of inp) (total (net_of inp))) (in_components inp)"
  "out_results (compute inp) =
     results_of (total (net_of inp)) (d_seconds (out_downtime (compute inp)))
       (total (merge (concat (map (observed_in (net_of inp)) (in_components inp)))))
       (out_components (compute inp))"
  "out_gaps (compute inp) =
     map (\<lambda>iv. \<lparr>g_from = iv_from iv, g_to = iv_to iv, g_seconds = seconds iv\<rparr>)
       (subtract (net_of inp) (merge (concat (map (observed_in (net_of inp)) (in_components inp)))))"
  "out_objectives (compute inp) =
     map (evaluate_one inp (total (net_of inp)) (out_results (compute inp))) (in_objectives inp)"
  by (simp_all add: compute_def net_of_def Let_def split: prod.split)

lemma compute_totals:
  assumes "period_fits inp"
  shows "a_scheduled (out_ast (compute inp)) = int (card (agreed_secs inp))"
    and "a_excluded (out_ast (compute inp)) = int (card (excluded_secs inp))"
    and "a_net (out_ast (compute inp)) = int (card (net_secs inp))"
    and "total (net_of inp) = int (card (net_secs inp))"
    and "d_seconds (out_downtime (compute inp)) = int (card (down_secs inp))"
    and "rs_observed (out_results (compute inp)) = int (card (seen_secs inp))"
proof -
  note tot = total_sub_agreed [OF assms]
  show "a_scheduled (out_ast (compute inp)) = int (card (agreed_secs inp))"
    using tot [of "sched_of inp"] by (simp add: compute_fields agreed_sched del: instants_clip)
  show "a_excluded (out_ast (compute inp)) = int (card (excluded_secs inp))"
    using tot [of "fst (exclusion_loop (sched_of inp) (in_exclusions inp))"] secs_chain(1)
    by (simp add: compute_fields excluded_loop [OF assms])
  show net: "total (net_of inp) = int (card (net_secs inp))"
    using tot [of "net_of inp"] secs_chain(2) by (simp add: net_instants [OF assms])
  then show "a_net (out_ast (compute inp)) = int (card (net_secs inp))"
    by (simp add: compute_fields)
  have down: "instants (merge (concat (map (down_in (net_of inp)) (in_components inp)))) = down_secs inp"
    by (auto simp: instants_down_all net_instants [OF assms] down_secs_def)
  have seen: "instants (merge (concat (map (observed_in (net_of inp)) (in_components inp)))) = seen_secs inp"
    by (auto simp: instants_down_all net_instants [OF assms] seen_secs_def)
  show "d_seconds (out_downtime (compute inp)) = int (card (down_secs inp))"
    using tot [of "merge (concat (map (down_in (net_of inp)) (in_components inp)))"] secs_chain
    unfolding compute_fields(2) downtime_summary_of_def Let_def downtime_summary.simps down by blast
  show "rs_observed (out_results (compute inp)) = int (card (seen_secs inp))"
    using tot [of "merge (concat (map (observed_in (net_of inp)) (in_components inp)))"] secs_chain
    unfolding compute_fields(4) results_of_def Let_def results.simps seen by blast
qed

section \<open>Properties\<close>

text \<open>
  Claim C10. A component's series mean what the rollup rule says, second by second and in
  whatever order its monitors are visited: a second is observed when some monitor's
  finest bucket covering it carries readings, and down when the rule over those monitors'
  verdicts says so; both lists are normalised.
\<close>

theorem component_series_meaning:
  assumes "mset order = mset (monitor_ids (c_buckets c))"
  shows "instants (fst (component_series_in order c)) = {t. comp_down_at c t} \<and>
    instants (snd (component_series_in order c)) = {t. comp_seen_at c t} \<and>
    normal (fst (component_series_in order c)) \<and> normal (snd (component_series_in order c))"
  using component_series_order [OF assms] component_series_points [of c]
  by (simp add: normal_component_series_in component_series_def)

definition sample_bucket :: "string \<Rightarrow> int \<Rightarrow> int \<Rightarrow> int \<Rightarrow> int \<Rightarrow> string \<Rightarrow> bucket" where
  "sample_bucket m s w up dn v =
     \<lparr>b_monitor = m, b_component = ''api'', b_service = ''shop'', b_start = s, b_width = w,
      b_up = up, b_degraded = 0, b_down = dn, b_errors = 0, b_maint = 0, b_p50 = 20,
      b_p95 = 40, b_max = 60, b_verdict = v\<rparr>"

definition sample_component :: component_input where
  "sample_component =
     \<lparr>c_id = ''api'', c_name = ''API'', c_weight = 2, c_rollup = RollupAny,
      c_buckets = [sample_bucket ''m1'' 0 3600 60 0 VerdictUp,
                   sample_bucket ''m2'' 0 60 0 1 VerdictDown,
                   sample_bucket ''m2'' 0 3600 59 1 VerdictUp],
      c_monitors = [''m1'', ''m2'']\<rparr>"

theorem component_series_meaning_witness:
  "instants (fst (component_series_in [''m2'', ''m1''] sample_component)) =
     {t. comp_down_at sample_component t}"
proof -
  have "mset [''m2'', ''m1''] = mset (monitor_ids (c_buckets sample_component))"
    by (simp add: sample_component_def sample_bucket_def monitor_ids_def add_mset_commute)
  from component_series_meaning [OF this] show ?thesis by simp
qed

text \<open>
  Claim C9. The service-time budget of a report is exact: scheduled, excluded, net,
  downtime and observed time are the numbers of seconds the period agrees, excludes,
  leaves, finds down and has readings for, each second counted once however many
  exclusions or components cover it, and net time is scheduled time less excluded time.
\<close>

theorem report_budget:
  assumes "period_fits inp"
  shows "a_scheduled (out_ast (compute inp)) = int (card (agreed_secs inp)) \<and>
    a_excluded (out_ast (compute inp)) = int (card (excluded_secs inp)) \<and>
    a_net (out_ast (compute inp)) = int (card (net_secs inp)) \<and>
    d_seconds (out_downtime (compute inp)) = int (card (down_secs inp)) \<and>
    rs_observed (out_results (compute inp)) = int (card (seen_secs inp)) \<and>
    a_net (out_ast (compute inp)) + a_excluded (out_ast (compute inp)) =
      a_scheduled (out_ast (compute inp))"
proof -
  have fin: "finite (agreed_secs inp)"
    unfolding agreed_sched [symmetric] by simp
  have "card (net_secs inp) + card (excluded_secs inp) = card (agreed_secs inp)"
    using fin secs_chain(1) [of inp]
    by (simp add: net_secs_def card_Diff_subset finite_subset card_mono)
  with compute_totals [OF assms] show ?thesis by simp
qed

definition sample_input :: input where
  "sample_input =
     \<lparr>in_period = \<lparr>p_label = ''2026-01'', p_from = 0, p_to = 3600, p_timezone = ''UTC''\<rparr>,
      in_scheduled = [Iv 0 7200],
      in_exclusions =
        [\<lparr>x_window = ''w1'', x_class = ''planned'', x_title = [], x_declared = 0, x_lead = 0,
          x_from = 600, x_to = 1200, x_seconds = 0, x_applied = True, x_reason = [], x_txid = []\<rparr>],
      in_components = [sample_component],
      in_floor = 500000,
      in_objectives =
        [\<lparr>o_id = ''o1'', o_name = [], o_metric = ''availability'', o_target = 999000,
          o_window = ''month'', o_budget = 0,
          o_credits = [\<lparr>cb_below = 999000, cb_percent = 10\<rparr>, \<lparr>cb_below = 980000, cb_percent = 25\<rparr>]\<rparr>]\<rparr>"

theorem report_budget_witness:
  "a_net (out_ast (compute sample_input)) + a_excluded (out_ast (compute sample_input)) =
     a_scheduled (out_ast (compute sample_input)) \<and>
   a_excluded (out_ast (compute sample_input)) = 600"
proof -
  have "period_fits sample_input"
    by (simp add: sample_input_def period_fits_def ratio_limit_def)
  from report_budget [OF this]
  have "a_net (out_ast (compute sample_input)) + a_excluded (out_ast (compute sample_input)) =
     a_scheduled (out_ast (compute sample_input))"
    and ex: "a_excluded (out_ast (compute sample_input)) = int (card (excluded_secs sample_input))"
    by auto
  moreover have "excluded_secs sample_input = {600 ..< 1200}"
    by (auto simp: sample_input_def excluded_secs_def agreed_secs_def)
  ultimately show ?thesis by simp
qed

lemma sum_seconds_normal:
  "normal xs \<Longrightarrow> int (card (instants xs)) < 2 ^ 63 \<Longrightarrow>
   sum_list (map seconds xs) = int (card (instants xs))"
proof (induction xs)
  case (Cons iv xs)
  have card: "int (card (instants (iv # xs))) = (iv_to iv - iv_from iv) + int (card (instants xs))"
    by (rule normal_card_Cons [OF Cons.prems(1)])
  then have "seconds iv = iv_to iv - iv_from iv"
    using Cons.prems by (simp add: seconds_def i64_nonneg)
  with Cons card show ?case by simp
qed simp

lemma map_Iv_id [simp]: "map (\<lambda>iv. Iv (iv_from iv) (iv_to iv)) xs = xs"
  by (induction xs) simp_all

lemma card_small:
  assumes "period_fits inp" "X \<subseteq> agreed_secs inp"
  shows "int (card X) < 2 ^ 63"
  using card_sub_agreed [OF assms] by (simp add: ratio_limit_def)

text \<open>
  The gaps of a report are exactly the net seconds no component was observed
  in, as a normalised list, and observed time and the gaps' lengths add up to net time:
  a reader of the report can account for every second.
\<close>

lemma report_gaps_account_for_net:
  assumes "period_fits inp"
  shows "instants (map (\<lambda>g. Iv (g_from g) (g_to g)) (out_gaps (compute inp))) =
      net_secs inp - seen_secs inp \<and>
    normal (map (\<lambda>g. Iv (g_from g) (g_to g)) (out_gaps (compute inp))) \<and>
    rs_observed (out_results (compute inp)) + sum_list (map g_seconds (out_gaps (compute inp))) =
      a_net (out_ast (compute inp))"
proof -
  define seen where "seen = merge (concat (map (observed_in (net_of inp)) (in_components inp)))"
  define gaps where "gaps = subtract (net_of inp) seen"
  have inst: "instants gaps = net_secs inp - seen_secs inp"
    by (auto simp: gaps_def seen_def instants_down_all net_instants [OF assms] seen_secs_def)
  have ivs: "map (\<lambda>g. Iv (g_from g) (g_to g)) (out_gaps (compute inp)) = gaps"
    by (simp add: compute_fields gaps_def seen_def comp_def)
  have fin: "finite (net_secs inp)"
    using net_instants [OF assms] by (metis finite_instants)
  have "sum_list (map g_seconds (out_gaps (compute inp))) = sum_list (map seconds gaps)"
    by (simp add: compute_fields gaps_def seen_def comp_def)
  also have "\<dots> = int (card (instants gaps))"
  proof (rule sum_seconds_normal)
    show "normal gaps" by (simp add: gaps_def)
    show "int (card (instants gaps)) < 2 ^ 63"
      using secs_chain(2) by (intro card_small [OF assms]) (auto simp: inst)
  qed
  also have "\<dots> = int (card (net_secs inp)) - int (card (seen_secs inp))"
    using secs_chain(4) [of inp] fin
    by (simp add: inst card_Diff_subset finite_subset [of "seen_secs inp"] card_mono of_nat_diff)
  finally show ?thesis
    using inst ivs compute_totals [OF assms] by (simp add: gaps_def)
qed

lemma secs_cards:
  assumes "period_fits inp"
  shows "card (down_secs inp) \<le> card (seen_secs inp)" "card (seen_secs inp) \<le> card (net_secs inp)"
    "int (card (net_secs inp)) \<le> ratio_limit"
proof -
  have "finite (net_secs inp)"
    using net_instants [OF assms] by (metis finite_instants)
  then show "card (down_secs inp) \<le> card (seen_secs inp)" "card (seen_secs inp) \<le> card (net_secs inp)"
    using secs_chain(3,4) finite_subset by (metis card_mono)+
  show "int (card (net_secs inp)) \<le> ratio_limit"
    by (rule card_sub_agreed [OF assms secs_chain(2)])
qed

text \<open>
  Claim C25. The headline figures are right to the nearest part per million and lie
  between zero and one: availability is the share of net seconds that are not down and
  coverage the share that has readings.
\<close>

theorem report_figures_nearest:
  assumes "period_fits inp" "net_secs inp \<noteq> {}"
  defines "n \<equiv> int (card (net_secs inp))"
  shows "\<bar>2 * n * rs_availability (out_results (compute inp)) -
        2 * ((n - int (card (down_secs inp))) * PPM)\<bar> \<le> n \<and>
    \<bar>2 * n * rs_coverage (out_results (compute inp)) - 2 * (int (card (seen_secs inp)) * PPM)\<bar> \<le> n \<and>
    {rs_availability (out_results (compute inp)), rs_coverage (out_results (compute inp))} \<subseteq> {0 .. PPM}"
proof -
  note tot = compute_totals [OF assms(1)]
  have fin: "finite (net_secs inp)"
    using net_instants [OF assms(1)] by (metis finite_instants)
  then have n: "0 < n" "n \<le> ratio_limit"
    using assms(2) secs_cards(3) [OF assms(1)] by (auto simp: n_def card_gt_0_iff)
  have "n < 2 ^ 63"
    using n(2) by (simp add: ratio_limit_def)
  have av: "rs_availability (out_results (compute inp)) = ratio (n - int (card (down_secs inp))) n"
    using n secs_cards [OF assms(1)] \<open>n < 2 ^ 63\<close>
    by (simp add: compute_fields(4) results_of_def Let_def tot(4,5) n_def availability_eq)
  have "total (merge (concat (map (observed_in (net_of inp)) (in_components inp)))) =
      int (card (seen_secs inp))"
    using tot(6) by (simp add: compute_fields(4) results_of_def Let_def)
  then have cov: "rs_coverage (out_results (compute inp)) = ratio (int (card (seen_secs inp))) n"
    by (simp add: compute_fields(4) results_of_def Let_def tot(4) n_def)
  have le: "int (card (seen_secs inp)) \<le> n" "int (card (down_secs inp)) \<le> n"
    using secs_cards [OF assms(1)] by (simp_all add: n_def)
  have "\<bar>2 * n * ratio (n - int (card (down_secs inp))) n -
        2 * ((n - int (card (down_secs inp))) * PPM)\<bar> \<le> n"
    using n le by (intro ratio_close) auto
  moreover have "\<bar>2 * n * ratio (int (card (seen_secs inp))) n - 2 * (int (card (seen_secs inp)) * PPM)\<bar> \<le> n"
    using n le by (intro ratio_close) auto
  ultimately show ?thesis
    unfolding av cov using ratio_bounds [OF n(2)] by simp
qed

theorem report_figures_nearest_witness:
  "rs_availability (out_results (compute sample_input)) \<in> {0 .. PPM}"
proof -
  have p: "period_fits sample_input"
    by (simp add: sample_input_def period_fits_def ratio_limit_def)
  have "0 \<in> net_secs sample_input"
    by (simp add: sample_input_def net_secs_def agreed_secs_def excluded_secs_def)
  then have "net_secs sample_input \<noteq> {}" by blast
  from report_figures_nearest [OF p this] show ?thesis by simp
qed

text \<open>The credit loop: the largest percentage among the bands the figure fell below.\<close>

lemma Max_insert_step:
  fixes f :: "'a \<Rightarrow> int"
  assumes "finite S"
  shows "Max (insert x (f ` insert b S)) = Max (insert (max x (f b)) (f ` S))"
  using assms by (cases "S = {}") (auto simp: max.assoc max.left_commute)

lemma credit_max:
  "credit bands achieved = Max (insert 0 (cb_percent ` {b \<in> set bands. achieved < cb_below b}))"
proof -
  have "foldl (\<lambda>best b. if achieved < cb_below b \<and> cb_percent b > best then cb_percent b else best) x bands =
      Max (insert x (cb_percent ` {b \<in> set bands. achieved < cb_below b}))" for x
  proof (induction bands arbitrary: x)
    case (Cons b bands)
    define S where "S = {c \<in> set bands. achieved < cb_below c}"
    have "finite S" by (simp add: S_def)
    have split: "{c \<in> set (b # bands). achieved < cb_below c} =
        (if achieved < cb_below b then insert b S else S)" by (auto simp: S_def)
    show ?case
      unfolding foldl_Cons Cons.IH split S_def [symmetric]
      by (auto simp: Max_insert_step [OF \<open>finite S\<close>] max_def simp del: image_insert)
  qed simp
  then show ?thesis by (simp add: credit_def)
qed

text \<open>
  An objective is reported met exactly when its metric is one the service knows,
  the period had agreed service time, coverage reached the service's floor and the metric
  reached its target; it is breached exactly when only the last of these fails, and the
  credit then is the largest percentage among the bands the figure fell below (zero when
  there is none). Every other case is indeterminate and carries no credit.
\<close>

lemma objective_verdicts:
  "let r = evaluate_one inp net res ob;
       judged = achieved_of (in_components inp) res ob \<noteq> None \<and> net \<noteq> 0 \<and>
         \<not> (in_floor inp > 0 \<and> rs_coverage res < in_floor inp);
       reached = the (achieved_of (in_components inp) res ob)
   in (r_result r = ObjectiveMet \<longleftrightarrow> judged \<and> o_target ob \<le> reached) \<and>
      (r_result r = ObjectiveBreached \<longleftrightarrow> judged \<and> reached < o_target ob) \<and>
      (r_result r = ObjectiveIndeterminate \<longleftrightarrow> \<not> judged) \<and>
      r_credit r =
        (if judged \<and> reached < o_target ob
         then Max (insert 0 (cb_percent ` {b \<in> set (o_credits ob). reached < cb_below b})) else 0)"
  by (auto simp: evaluate_one_def Let_def credit_max split: option.split)

lemma component_figures:
  assumes "period_fits inp" "c \<in> set (in_components inp)"
  shows "total (down_in (net_of inp) c) = int (card {t \<in> net_secs inp. comp_down_at c t})"
    and "total (observed_in (net_of inp) c) = int (card {t \<in> net_secs inp. comp_seen_at c t})"
proof -
  note tot = total_sub_agreed [OF assms(1)]
  show "total (down_in (net_of inp) c) = int (card {t \<in> net_secs inp. comp_down_at c t})"
    using tot [of "down_in (net_of inp) c"] secs_chain(2) [of inp]
    by (auto simp: instants_down_in net_instants [OF assms(1)])
  show "total (observed_in (net_of inp) c) = int (card {t \<in> net_secs inp. comp_seen_at c t})"
    using tot [of "observed_in (net_of inp) c"] secs_chain(2) [of inp]
    by (auto simp: instants_observed_in net_instants [OF assms(1)])
qed

text \<open>
  Every component of the input has its line in the report, in order, with its
  own downtime (the net seconds it is down), which is at most the service's downtime;
  and its outages listed are exactly those seconds.
\<close>

lemma component_lines:
  assumes "period_fits inp"
  shows "map cr_id (out_components (compute inp)) = map c_id (in_components inp) \<and>
    map cr_downtime (out_components (compute inp)) =
      map (\<lambda>c. int (card {t \<in> net_secs inp. comp_down_at c t})) (in_components inp) \<and>
    (\<forall>c \<in> set (in_components inp).
      int (card {t \<in> net_secs inp. comp_down_at c t}) \<le> d_seconds (out_downtime (compute inp)) \<and>
      instants (map (\<lambda>ou. Iv (ou_from ou) (ou_to ou)) (outages_of (net_of inp) c)) =
        {t \<in> net_secs inp. comp_down_at c t})"
proof -
  have fin: "finite (down_secs inp)"
    using secs_chain(3,4) [of inp] net_instants [OF assms] by (metis finite_instants finite_subset)
  have le: "card {t \<in> net_secs inp. comp_down_at c t} \<le> card (down_secs inp)"
    if "c \<in> set (in_components inp)" for c
    using that by (intro card_mono fin) (auto simp: down_secs_def)
  have "map (\<lambda>ou. Iv (ou_from ou) (ou_to ou)) (outages_of (net_of inp) c) =
      merge (down_in (net_of inp) c)" for c
    by (simp add: outages_of_def comp_def)
  then have outs: "instants (map (\<lambda>ou. Iv (ou_from ou) (ou_to ou)) (outages_of (net_of inp) c)) =
      {t \<in> net_secs inp. comp_down_at c t}" for c
    by (simp add: instants_down_in net_instants [OF assms])
  have down: "map cr_downtime (out_components (compute inp)) =
      map (\<lambda>c. int (card {t \<in> net_secs inp. comp_down_at c t})) (in_components inp)"
    using component_figures(1) [OF assms]
    by (auto simp: compute_fields(3) component_result_of_def Let_def)
  have ids: "map cr_id (out_components (compute inp)) = map c_id (in_components inp)"
    by (simp add: compute_fields(3) component_result_of_def Let_def)
  show ?thesis
    using ids down le outs compute_totals(5) [OF assms] by simp
qed

lemma longest_max:
  "foldl (\<lambda>best iv. if seconds iv > best then seconds iv else best) x xs =
     Max (insert x (seconds ` set xs))"
proof (induction xs arbitrary: x)
  case (Cons iv xs)
  show ?case
    unfolding foldl_Cons Cons.IH list.set
    by (subst Max_insert_step) (auto simp: max_def)
qed simp

lemma secs_sum:
  assumes "\<And>iv. iv \<in> set xs \<Longrightarrow> 0 \<le> seconds iv" "iv \<in> set xs"
  shows "seconds iv \<le> sum_list (map seconds xs)"
proof -
  obtain ys zs where xs: "xs = ys @ iv # zs" using assms(2) by (auto simp: in_set_conv_decomp)
  have "0 \<le> sum_list (map seconds ys)" "0 \<le> sum_list (map seconds zs)"
    using assms(1) by (auto simp: xs intro!: sum_list_nonneg)
  then show ?thesis by (simp add: xs)
qed

text \<open>
  The outage statistics are consistent with the downtime they summarise: the
  longest outage is no longer than the downtime, the mean time to restore and the mean
  time between failures times the number of outages stay within the downtime and the
  uptime, and without an outage every figure is zero.
\<close>

lemma downtime_statistics:
  assumes "period_fits inp"
  shows "let d = out_downtime (compute inp); n = a_net (out_ast (compute inp)) in
    0 \<le> d_longest d \<and> d_longest d \<le> d_seconds d \<and>
    0 \<le> d_mtrs d \<and> d_outages d * d_mtrs d \<le> d_seconds d \<and>
    0 \<le> d_mtbf d \<and> d_outages d * d_mtbf d \<le> n - d_seconds d \<and>
    (d_outages d = 0 \<longleftrightarrow> d_seconds d = 0)"
proof -
  define xs where "xs = merge (concat (map (down_in (net_of inp)) (in_components inp)))"
  define k where "k = int (length xs)"
  define D where "D = int (card (down_secs inp))"
  define N where "N = int (card (net_secs inp))"
  have inst: "instants xs = down_secs inp"
    by (auto simp: xs_def instants_down_all net_instants [OF assms] down_secs_def)
  have nrm: "normal xs" by (simp add: xs_def)
  have DN: "0 \<le> D" "D \<le> N" "N \<le> ratio_limit"
    using secs_cards [OF assms] by (simp_all add: D_def N_def)
  have small: "int (card (instants xs)) < 2 ^ 63"
    using DN by (simp add: inst D_def ratio_limit_def)
  have tot: "total xs = D" using total_card [OF small] by (simp add: inst D_def)
  have sum: "sum_list (map seconds xs) = D"
    using sum_seconds_normal [OF nrm small] by (simp add: inst D_def)
  have pos: "0 \<le> seconds iv" if "iv \<in> set xs" for iv
  proof -
    have "{iv_from iv ..< iv_to iv} \<subseteq> instants xs" using that by (auto simp: instants_iff)
    then have "card {iv_from iv ..< iv_to iv} \<le> card (instants xs)" by (intro card_mono) auto
    then have "iv_to iv - iv_from iv < 2 ^ 63" using small by simp
    then show ?thesis by (simp add: seconds_def i64_nonneg)
  qed
  have empty: "k = 0 \<longleftrightarrow> D = 0"
  proof (cases xs)
    case (Cons iv ys)
    then have "iv_from iv \<in> down_secs inp" using inst normal_head(1) [of iv ys] nrm by simp
    moreover have "finite (down_secs inp)" by (metis inst finite_instants)
    ultimately have "0 < card (down_secs inp)" by (auto simp: card_gt_0_iff)
    with Cons show ?thesis by (simp add: k_def D_def)
  qed (use inst in \<open>simp add: k_def D_def\<close>)
  have up: "i64 (N - D) = N - D" using DN by (simp add: i64_nonneg ratio_limit_def)
  have quot: "0 < k \<Longrightarrow> 0 \<le> a \<Longrightarrow> 0 \<le> go_quot a k \<and> k * go_quot a k \<le> a" for a
    by (simp add: pos_imp_zdiv_nonneg_iff minus_mod_eq_mult_div [symmetric])
  have "out_downtime (compute inp) =
      \<lparr>d_seconds = D, d_outages = k, d_mtbf = (if k > 0 then go_quot (N - D) k else 0),
       d_mtrs = (if k > 0 then go_quot D k else 0), d_longest = Max (insert 0 (seconds ` set xs))\<rparr>"
    using DN by (simp add: compute_fields(2) xs_def [symmetric] downtime_summary_of_def Let_def tot
        compute_totals(4) [OF assms] N_def [symmetric] up longest_max k_def)
  moreover have "0 \<le> Max (insert 0 (seconds ` set xs))" "Max (insert 0 (seconds ` set xs)) \<le> D"
    using secs_sum [of xs] pos sum DN by auto
  ultimately show ?thesis
    using quot [of D] quot [of "N - D"] DN empty compute_totals(3) [OF assms]
    by (auto simp: Let_def N_def k_def)
qed

end
