(* ===== verification/Canon.thy ===== *)
theory Canon
  imports Complex_Main Prelude "HOL-Library.Multiset" "HOL-Library.List_Lexorder" "HOL-Library.Char_ord"
begin

text \<open>
  Canonical JSON (\<open>internal/canon/canon.go\<close>), the byte form that is hashed into
  transaction ids and signed in checkpoints, and the preimage of a transaction id
  (\<open>TxID\<close> in \<open>internal/model/envelope.go\<close>). The encoding does not depend on the
  order of object members, and it determines the value it encodes.
\<close>

section \<open>JSON values\<close>

text \<open>
  What \<open>encoding/json\<close> decodes with \<open>UseNumber\<close>: a number is its text, an object is
  a map, here its members in some order. A string is its bytes in UTF-8.
\<close>

datatype json =
    JNull
  | JBool bool
  | JStr string
  | JNum string
  | JArr "json list"
  | JObj "(string \<times> json) list"

section \<open>Writing\<close>

text \<open>
  \<open>writeString\<close>. The three bytes of U+FFFD, the replacement character, are written as
  an escape; every other byte above 31 stands for itself.
\<close>

definition hex_digit :: "nat \<Rightarrow> char" where
  "hex_digit n = ''0123456789abcdef'' ! n"

definition escape_char :: "char \<Rightarrow> string" where
  "escape_char c =
     (if c = CHR 34 then [CHR 92, CHR 34]
      else if c = CHR 92 then [CHR 92, CHR 92]
      else if c = CHR 8 then [CHR 92, CHR ''b'']
      else if c = CHR 12 then [CHR 92, CHR ''f'']
      else if c = CHR 10 then [CHR 92, CHR ''n'']
      else if c = CHR 13 then [CHR 92, CHR ''r'']
      else if c = CHR 9 then [CHR 92, CHR ''t'']
      else let n = (of_char c :: nat) in
        if n < 32
        then [CHR 92, CHR ''u'', CHR ''0'', CHR ''0'', hex_digit (n div 16), hex_digit (n mod 16)]
        else [c])"

fun escape_bytes :: "string \<Rightarrow> string" where
  "escape_bytes [] = []"
| "escape_bytes (c # s) =
     (if c = CHR 0xEF \<and> take 2 s = [CHR 0xBF, CHR 0xBD]
      then [CHR 92, CHR ''u'', CHR ''f'', CHR ''f'', CHR ''f'', CHR ''d''] @ escape_bytes (drop 2 s)
      else escape_char c @ escape_bytes s)"

definition write_string :: "string \<Rightarrow> string" where
  "write_string s = CHR 34 # escape_bytes s @ [CHR 34]"

text \<open>
  \<open>writeNumber\<close>: an integer that fits keeps its decimal form; any other number is
  parsed and printed by \<open>strconv\<close>'s floats, the parameter \<open>fmt\<close> (\<open>None\<close> for
  the texts it refuses and for infinities).
\<close>

definition write_number :: "(string \<Rightarrow> string option) \<Rightarrow> string \<Rightarrow> string option" where
  "write_number fmt n =
     (case parse_int n of Some i \<Rightarrow> Some (show_int i) | None \<Rightarrow> fmt n)"

fun write_json :: "(string \<Rightarrow> string option) \<Rightarrow> json \<Rightarrow> string option" where
  "write_json fmt JNull = Some ''null''"
| "write_json fmt (JBool b) = Some (if b then ''true'' else ''false'')"
| "write_json fmt (JStr s) = Some (write_string s)"
| "write_json fmt (JNum n) = write_number fmt n"
| "write_json fmt (JArr es) =
     map_option (\<lambda>ts. ''['' @ str_join '','' ts @ '']'') (those (map (write_json fmt) es))"
| "write_json fmt (JObj kvs) =
     map_option (\<lambda>ts. ''{'' @ str_join '','' ts @ ''}'')
       (those (map (\<lambda>(k, w). map_option (\<lambda>t. write_string k @ '':'' @ t) w)
         (sort_key fst (map (\<lambda>(k, v). (k, write_json fmt v)) kvs))))"

section \<open>Strings can be read back\<close>

text \<open>The reader of a string's bytes, up to its closing quote.\<close>

definition unhex :: "char \<Rightarrow> nat" where
  "unhex c = (let n = of_char c in if n < 58 then n - 48 else n - 87)"

fun unescape :: "string \<Rightarrow> (string \<times> string) option" where
  "unescape [] = None"
| "unescape (c # s) =
     (if c = CHR 34 then Some ([], s)
      else if c = CHR 92 then
        (case s of
           [] \<Rightarrow> None
         | d # s1 \<Rightarrow>
             if d = CHR ''u'' then
               (case drop 2 s1 of
                  h # l # _ \<Rightarrow>
                    (if h = CHR ''f'' then
                       map_option (map_prod (append [CHR 0xEF, CHR 0xBF, CHR 0xBD]) id) (unescape (drop 4 s1))
                     else map_option (map_prod (Cons (char_of (16 * unhex h + unhex l))) id)
                            (unescape (drop 4 s1)))
                | _ \<Rightarrow> None)
             else map_option (map_prod (Cons
                 (if d = CHR ''b'' then CHR 8 else if d = CHR ''f'' then CHR 12
                  else if d = CHR ''n'' then CHR 10 else if d = CHR ''r'' then CHR 13
                  else if d = CHR ''t'' then CHR 9 else d)) id) (unescape s1))
      else map_option (map_prod (Cons c) id) (unescape s))"

lemma unescape_control:
  assumes "n < 32"
  shows "unescape ([CHR 92, CHR ''u'', CHR ''0'', CHR ''0'', hex_digit (n div 16), hex_digit (n mod 16)] @ r) =
    map_option (map_prod (Cons (char_of n)) id) (unescape r)"
proof -
  have hi: "hex_digit (n div 16) \<noteq> CHR ''f''" "unhex (hex_digit (n div 16)) = n div 16"
  proof -
    have "n div 16 = 0 \<or> n div 16 = 1" using assms by auto
    then show "hex_digit (n div 16) \<noteq> CHR ''f''" "unhex (hex_digit (n div 16)) = n div 16"
      by (auto simp: hex_digit_def unhex_def)
  qed
  have "\<forall>m \<in> set [0..<16]. unhex (hex_digit m) = m" by code_simp
  then have "unhex (hex_digit (n mod 16)) = n mod 16" by simp
  then have "16 * unhex (hex_digit (n div 16)) + unhex (hex_digit (n mod 16)) = n"
    using hi(2) by simp
  with hi(1) show ?thesis by simp
qed

lemma unescape_char:
  "unescape (escape_char c @ r) = map_option (map_prod (Cons c) id) (unescape r)"
proof -
  define n where "n = (of_char c :: nat)"
  have c: "c = char_of n" by (simp add: n_def)
  consider "c \<in> {CHR 34, CHR 92, CHR 8, CHR 12, CHR 10, CHR 13, CHR 9}"
    | "c \<notin> {CHR 34, CHR 92, CHR 8, CHR 12, CHR 10, CHR 13, CHR 9}" "n < 32"
    | "c \<notin> {CHR 34, CHR 92, CHR 8, CHR 12, CHR 10, CHR 13, CHR 9}" "\<not> n < 32" by blast
  then show ?thesis
  proof cases
    case 1
    then show ?thesis by (auto simp: escape_char_def)
  next
    case 2
    then have "escape_char c =
        [CHR 92, CHR ''u'', CHR ''0'', CHR ''0'', hex_digit (n div 16), hex_digit (n mod 16)]"
      by (simp add: escape_char_def n_def [symmetric] Let_def)
    then show ?thesis using unescape_control [OF 2(2), of r] c by simp
  next
    case 3
    then show ?thesis by (simp add: escape_char_def n_def [symmetric] Let_def)
  qed
qed

lemma unescape_escape: "unescape (escape_bytes s @ CHR 34 # r) = Some (s, r)"
proof (induction s rule: escape_bytes.induct)
  case (2 c s)
  show ?case
  proof (cases "c = CHR 0xEF \<and> take 2 s = [CHR 0xBF, CHR 0xBD]")
    case True
    then have s: "s = CHR 0xBF # CHR 0xBD # drop 2 s"
      by (metis append_Cons append_Nil append_take_drop_id)
    have "escape_bytes (c # s) = [CHR 92, CHR ''u'', CHR ''f'', CHR ''f'', CHR ''f'', CHR ''d''] @ escape_bytes (drop 2 s)"
      by (simp only: escape_bytes.simps if_P [OF True])
    moreover have "c # s = [CHR 0xEF, CHR 0xBF, CHR 0xBD] @ drop 2 s"
      using True s by simp
    ultimately show ?thesis using "2.IH"(1) True by simp
  next
    case False
    then have "escape_bytes (c # s) = escape_char c @ escape_bytes s"
      by (simp only: escape_bytes.simps if_False)
    with "2.IH"(2) False show ?thesis by (simp add: unescape_char)
  qed
qed simp

lemma write_string_inject:
  assumes "write_string s @ r = write_string s' @ r'"
  shows "s = s' \<and> r = r'"
proof -
  have "escape_bytes s @ CHR 34 # r = escape_bytes s' @ CHR 34 # r'"
    using assms by (simp add: write_string_def)
  then have "Some (s, r) = Some (s', r')"
    by (metis unescape_escape)
  then show ?thesis by simp
qed

section \<open>The encoding determines the value\<close>

text \<open>
  The values the code hashes: integers that fit, and objects whose members are in key
  order without duplicates, which every Go map can be listed as.
\<close>

fun canonical :: "json \<Rightarrow> bool" where
  "canonical (JNum n) = (case parse_int n of Some i \<Rightarrow> n = show_int i | None \<Rightarrow> False)"
| "canonical (JArr es) = list_all canonical es"
| "canonical (JObj kvs) = (sorted_wrt (<) (map fst kvs) \<and> list_all (\<lambda>(k, v). canonical v) kvs)"
| "canonical _ = True"

text \<open>The text of such a value, without the number printer and the sorting.\<close>

fun json_text :: "json \<Rightarrow> string" where
  "json_text JNull = ''null''"
| "json_text (JBool b) = (if b then ''true'' else ''false'')"
| "json_text (JStr s) = write_string s"
| "json_text (JNum n) = n"
| "json_text (JArr es) = ''['' @ str_join '','' (map json_text es) @ '']''"
| "json_text (JObj kvs) =
     ''{'' @ str_join '','' (map (\<lambda>(k, v). write_string k @ '':'' @ json_text v) kvs) @ ''}''"

lemma those_map_Some: "(\<And>x. x \<in> set xs \<Longrightarrow> f x = Some (g x)) \<Longrightarrow> those (map f xs) = Some (map g xs)"
  by (induction xs) simp_all

lemma sort_key_fst_id: "sorted_wrt (<) (map fst kvs) \<Longrightarrow> sort_key fst kvs = kvs"
  for kvs :: "(string \<times> 'b) list"
  by (intro sort_key_id_if_sorted) (simp add: strict_sorted_imp_sorted)

lemma write_canonical: "canonical v \<Longrightarrow> write_json fmt v = Some (json_text v)"
proof (induction v)
  case (JNum n)
  then show ?case by (simp add: write_number_def split: option.splits)
next
  case (JArr es)
  then have "those (map (write_json fmt) es) = Some (map json_text es)"
    by (intro those_map_Some) (simp add: list_all_iff)
  then show ?case by simp
next
  case (JObj kvs)
  have ws: "map (\<lambda>(k, v). (k, write_json fmt v)) kvs = map (\<lambda>(k, v). (k, Some (json_text v))) kvs"
    using JObj by (intro map_cong) (auto simp: list_all_iff)
  have fsts: "map fst (map (\<lambda>(k, v). (k, Some (json_text v))) kvs) = map fst kvs" by auto
  then have srt: "sort_key fst (map (\<lambda>(k, v). (k, Some (json_text v))) kvs) =
      map (\<lambda>(k, v). (k, Some (json_text v))) kvs"
    using JObj.prems by (intro sort_key_fst_id) (simp only: fsts canonical.simps)
  have "those (map (\<lambda>(k, w). map_option (\<lambda>t. write_string k @ '':'' @ t) w)
      (map (\<lambda>(k, v). (k, Some (json_text v))) kvs)) =
      Some (map (\<lambda>(k, v). write_string k @ '':'' @ json_text v) kvs)"
    unfolding map_map by (intro those_map_Some) auto
  then show ?case by (simp only: write_json.simps ws srt option.map json_text.simps)
qed simp_all

text \<open>What can follow a value inside a document.\<close>

definition stop :: "string \<Rightarrow> bool" where
  "stop r \<longleftrightarrow> r = [] \<or> hd r \<in> {CHR '','', CHR '']'', CHR ''}''}"

lemma stop_simps [simp]: "stop []" "stop (c # r) \<longleftrightarrow> c \<in> {CHR '','', CHR '']'', CHR ''}''}"
  by (auto simp: stop_def)

lemma str_join_Cons: "str_join sep (x # xs) = x @ concat (map (\<lambda>y. sep @ y) xs)"
  by (induction xs arbitrary: x) simp_all

definition reads :: "('a \<Rightarrow> string) \<Rightarrow> 'a \<Rightarrow> 'a \<Rightarrow> bool" where
  "reads g x y \<longleftrightarrow>
     (\<forall>r r'. stop r \<longrightarrow> stop r' \<longrightarrow> g x @ r = g y @ r' \<longrightarrow> x = y \<and> r = r')"

lemma readsD: "reads g x y \<Longrightarrow> g x @ r = g y @ r' \<Longrightarrow> stop r \<Longrightarrow> stop r' \<Longrightarrow> x = y \<and> r = r'"
  by (auto simp: reads_def)

lemma tail_inject:
  assumes "\<And>x y. x \<in> set xs \<Longrightarrow> y \<in> set ys \<Longrightarrow> reads g x y"
    and "cl \<in> {CHR '']'', CHR ''}''}"
    and "concat (map (\<lambda>x. '','' @ g x) xs) @ cl # r = concat (map (\<lambda>x. '','' @ g x) ys) @ cl # r'"
  shows "xs = ys \<and> r = r'"
  using assms
proof (induction xs arbitrary: ys)
  case Nil
  then show ?case by (cases ys) auto
next
  case (Cons x xs)
  from Cons.prems(2,3) obtain y zs where ys: "ys = y # zs" by (cases ys) auto
  let ?t = "\<lambda>xs r. concat (map (\<lambda>x. '','' @ g x) xs) @ cl # r"
  have st: "stop (?t xs r)" for xs r using Cons.prems(2) by (cases xs) auto
  have "g x @ ?t xs r = g y @ ?t zs r'" using Cons.prems(3) ys by simp
  then have "x = y \<and> ?t xs r = ?t zs r'"
    using Cons.prems(1) ys st by (intro readsD [of g x y]) auto
  with Cons.IH [of zs] Cons.prems(1,2) ys show ?case by simp
qed

lemma join_inject:
  assumes "\<And>x y. x \<in> set xs \<Longrightarrow> y \<in> set ys \<Longrightarrow> reads g x y"
    and cl: "cl \<in> {CHR '']'', CHR ''}''}"
    and hd: "\<And>x. x \<in> set xs \<union> set ys \<Longrightarrow> g x \<noteq> [] \<and> hd (g x) \<noteq> cl"
    and eq: "str_join '','' (map g xs) @ cl # r = str_join '','' (map g ys) @ cl # r'"
  shows "xs = ys \<and> r = r'"
proof (cases xs; cases ys)
  fix x xs' y ys'
  assume xs: "xs = x # xs'" and ys: "ys = y # ys'"
  then have "concat (map (\<lambda>x. '','' @ g x) xs) @ cl # r = concat (map (\<lambda>x. '','' @ g x) ys) @ cl # r'"
    using eq by (simp add: str_join_Cons comp_def)
  then show ?thesis using tail_inject [OF assms(1) cl] by blast
next
  fix x xs' assume "xs = x # xs'" "ys = []"
  with eq hd [of x] show ?thesis by (cases "g x") (auto simp: str_join_Cons)
next
  fix y ys' assume "xs = []" "ys = y # ys'"
  with eq hd [of y] show ?thesis by (cases "g y") (auto simp: str_join_Cons)
qed (use eq in simp)

lemma show_int_inject_stop:
  assumes "show_int i @ r = show_int j @ r'" "stop r" "stop r'"
  shows "show_int i = show_int j \<and> r = r'"
proof -
  let ?p = "\<lambda>c. is_digit c \<or> c = CHR ''-''"
  have "takeWhile ?p (show_int i @ r) = show_int i" if "stop r" for i r
  proof -
    have "takeWhile ?p r = []" using that by (cases r) (auto simp: is_digit_def)
    then show ?thesis using show_int_chars [of _ i] by (simp add: takeWhile_append2)
  qed
  then have "show_int i = show_int j" using assms by metis
  with assms(1) show ?thesis by simp
qed

lemma show_int_hd: "show_int i \<noteq> []" "is_digit (hd (show_int i)) \<or> hd (show_int i) = CHR ''-''"
proof -
  show ne: "show_int i \<noteq> []" by (simp add: show_int_def)
  show "is_digit (hd (show_int i)) \<or> hd (show_int i) = CHR ''-''"
    using ne by (intro show_int_chars [of _ i]) simp
qed

lemma canonical_num: "canonical (JNum n) \<Longrightarrow> \<exists>i. n = show_int i"
  by (auto split: option.splits)

lemma json_text_hd:
  assumes "canonical v"
  shows "json_text v \<noteq> []" "hd (json_text v) \<notin> {CHR '']'', CHR ''}'', CHR '',''}"
proof -
  have "json_text v \<noteq> [] \<and> hd (json_text v) \<notin> {CHR '']'', CHR ''}'', CHR '',''}"
  proof (cases v)
    case (JNum n)
    then obtain i where "n = show_int i" using assms canonical_num by blast
    with JNum show_int_hd [of i] show ?thesis by (auto simp: is_digit_def)
  qed (simp_all add: write_string_def)
  then show "json_text v \<noteq> []" "hd (json_text v) \<notin> {CHR '']'', CHR ''}'', CHR '',''}" by auto
qed

text \<open>The first byte tells the constructor.\<close>

definition json_kind :: "json \<Rightarrow> nat" where
  "json_kind v = (case v of JNull \<Rightarrow> 0 | JBool b \<Rightarrow> (if b then 1 else 2) | JStr _ \<Rightarrow> 3 | JNum _ \<Rightarrow> 4
     | JArr _ \<Rightarrow> 5 | JObj _ \<Rightarrow> 6)"

definition kind_of_char :: "char \<Rightarrow> nat" where
  "kind_of_char c =
     (if c = CHR ''n'' then 0 else if c = CHR ''t'' then 1 else if c = CHR ''f'' then 2
      else if c = CHR 34 then 3 else if c = CHR ''['' then 5 else if c = CHR ''{'' then 6 else 4)"

lemma json_kind_char: "canonical v \<Longrightarrow> kind_of_char (hd (json_text v)) = json_kind v"
proof (cases v)
  case (JNum n)
  assume "canonical v"
  then obtain i where "n = show_int i" using JNum canonical_num by blast
  with JNum show_int_hd [of i] show ?thesis by (auto simp: is_digit_def kind_of_char_def json_kind_def)
qed (simp_all add: write_string_def kind_of_char_def json_kind_def)

lemma same_kind:
  assumes "canonical v" "canonical w" "json_text v @ r = json_text w @ r'"
  shows "json_kind v = json_kind w"
  using assms json_text_hd(1) json_kind_char by (metis hd_append2)

lemma readsI:
  assumes "canonical v" "canonical w"
    and "\<And>r r'. json_kind v = json_kind w \<Longrightarrow> stop r \<Longrightarrow> stop r' \<Longrightarrow>
      json_text v @ r = json_text w @ r' \<Longrightarrow> v = w \<and> r = r'"
  shows "reads json_text v w"
  unfolding reads_def using assms same_kind [OF assms(1,2)] by blast

lemma members_read:
  assumes "\<And>v. v \<in> snd ` set kvs \<Longrightarrow> reads json_text v (snd y)" "x \<in> set kvs"
  shows "reads (\<lambda>(k, v). write_string k @ '':'' @ json_text v) x y"
  unfolding reads_def
proof (intro allI impI)
  fix r r' assume st: "stop r" "stop r'"
    and eq: "(case x of (k, v) \<Rightarrow> write_string k @ '':'' @ json_text v) @ r =
             (case y of (k, v) \<Rightarrow> write_string k @ '':'' @ json_text v) @ r'"
  obtain k v l w where xy: "x = (k, v)" "y = (l, w)" by (cases x, cases y)
  have "k = l \<and> '':'' @ json_text v @ r = '':'' @ json_text w @ r'"
    using eq xy by (intro write_string_inject) simp
  moreover have "reads json_text v w" using assms(1) [of v] assms(2) xy by force
  ultimately show "x = y \<and> r = r'" using st xy readsD [of json_text v w r r'] by simp
qed

lemma json_text_reads: "canonical v \<Longrightarrow> canonical w \<Longrightarrow> reads json_text v w"
proof (induction v arbitrary: w)
  case (JNum n)
  show ?case
    unfolding reads_def
  proof (intro allI impI)
    fix r r' assume st: "stop r" "stop r'" and eq: "json_text (JNum n) @ r = json_text w @ r'"
    from same_kind [OF JNum eq] obtain m where w: "w = JNum m"
      by (cases w) (auto simp: json_kind_def split: if_splits)
    with JNum canonical_num obtain i j where "n = show_int i" "m = show_int j" by blast
    with eq st w show "JNum n = w \<and> r = r'" using show_int_inject_stop [of i r j r'] by simp
  qed
next
  case (JStr s)
  show ?case
    by (rule readsI [OF JStr])
      (cases w, auto simp: json_kind_def dest: write_string_inject split: if_splits)
next
  case (JArr es)
  show ?case
    unfolding reads_def
  proof (intro allI impI)
    fix r r' assume eq: "json_text (JArr es) @ r = json_text w @ r'"
    from same_kind [OF JArr.prems eq] obtain fs where w: "w = JArr fs"
      by (cases w) (auto simp: json_kind_def split: if_splits)
    have "es = fs \<and> r = r'"
    proof (rule join_inject)
      show "str_join '','' (map json_text es) @ CHR '']'' # r = str_join '','' (map json_text fs) @ CHR '']'' # r'"
        using eq w by simp
      show "reads json_text x y" if "x \<in> set es" "y \<in> set fs" for x y
        using that JArr w by (auto simp: list_all_iff)
      show "json_text x \<noteq> [] \<and> hd (json_text x) \<noteq> CHR '']''" if "x \<in> set es \<union> set fs" for x
        using that JArr.prems w json_text_hd [of x] by (auto simp: list_all_iff)
    qed simp
    with w show "JArr es = w \<and> r = r'" by simp
  qed
next
  case (JObj kvs)
  show ?case
    unfolding reads_def
  proof (intro allI impI)
    fix r r' assume eq: "json_text (JObj kvs) @ r = json_text w @ r'"
    from same_kind [OF JObj.prems eq] obtain lws where w: "w = JObj lws"
      by (cases w) (auto simp: json_kind_def split: if_splits)
    have "kvs = lws \<and> r = r'"
    proof (rule join_inject)
      let ?g = "\<lambda>(k, v). write_string k @ '':'' @ json_text v"
      show "str_join '','' (map ?g kvs) @ CHR ''}'' # r = str_join '','' (map ?g lws) @ CHR ''}'' # r'"
        using eq w by simp
      show "reads ?g x y" if "x \<in> set kvs" "y \<in> set lws" for x y
      proof (rule members_read)
        have "canonical (snd y)" using that(2) JObj.prems(2) w by (auto simp: list_all_iff)
        then show "reads json_text v (snd y)" if "v \<in> snd ` set kvs" for v
          using that JObj.IH JObj.prems(1) by (auto simp: list_all_iff)
      qed (rule that)
      show "?g x \<noteq> [] \<and> hd (?g x) \<noteq> CHR ''}''" for x
        by (cases x) (simp add: write_string_def)
    qed simp
    with w show "JObj kvs = w \<and> r = r'" by simp
  qed
next
  case JNull
  show ?case
    by (rule readsI [OF JNull]) (cases w, auto simp: json_kind_def split: if_splits)
next
  case (JBool b)
  show ?case
    by (rule readsI [OF JBool]) (cases w, auto simp: json_kind_def split: if_splits)
qed

lemma json_text_inject: "canonical v \<Longrightarrow> canonical w \<Longrightarrow> json_text v = json_text w \<longleftrightarrow> v = w"
  using readsD [OF json_text_reads, of v w "[]" "[]"] by auto

text \<open>The members of an object are written in key order, so their order does not matter.\<close>

lemma sort_key_perm:
  fixes xs :: "(string \<times> 'b) list"
  assumes "mset xs = mset ys" "distinct (map fst xs)"
  shows "sort_key fst xs = sort_key fst ys"
proof (rule map_sorted_distinct_set_unique)
  have "mset (map fst ys) = mset (map fst xs)"
    unfolding mset_map assms(1) ..
  from mset_eq_imp_distinct_iff [OF this] have dys: "distinct (map fst ys)"
    using assms(2) by blast
  have "set xs = set ys" using assms(1) by (rule mset_eq_setD)
  then show "set (sort_key fst xs) = set (sort_key fst ys)" by simp
  show "inj_on fst (set (sort_key fst xs) \<union> set (sort_key fst ys))"
    using assms(2) \<open>set xs = set ys\<close> by (simp add: distinct_map)
  have dist: "distinct (map fst (sort_key fst zs)) = distinct (map fst zs)"
    for zs :: "(string \<times> 'b) list"
    by (rule mset_eq_imp_distinct_iff) (simp only: mset_map mset_sort)
  show "distinct (map fst (sort_key fst xs))" using assms(2) by (simp only: dist)
  show "distinct (map fst (sort_key fst ys))" using dys by (simp only: dist)
qed simp_all

lemma write_obj_perm:
  assumes "mset kvs = mset kvs'" "distinct (map fst kvs)"
  shows "write_json fmt (JObj kvs) = write_json fmt (JObj kvs')"
proof -
  let ?w = "\<lambda>(k, v). (k, write_json fmt v)"
  have "mset (map ?w kvs) = mset (map ?w kvs')" using assms(1) by simp
  moreover have "distinct (map fst (map ?w kvs))" using assms(2) by (simp add: comp_def case_prod_beta)
  ultimately show ?thesis by (simp only: write_json.simps sort_key_perm)
qed

section \<open>Transaction identifiers\<close>

text \<open>\<open>putUint64\<close>: big-endian, filled from the last byte.\<close>

fun put_uint :: "nat \<Rightarrow> nat \<Rightarrow> string" where
  "put_uint 0 v = []"
| "put_uint (Suc i) v = put_uint i (v div 256) @ [char_of (v mod 256)]"

definition hex_encode :: "string \<Rightarrow> string" where
  "hex_encode s = concat (map (\<lambda>c. [hex_digit (of_char c div 16), hex_digit (of_char c mod 16)]) s)"

definition txid_preimage :: "string \<Rightarrow> string \<Rightarrow> string" where
  "txid_preimage envelope write_set =
     ''privasys-monitor/txid/v1'' @ put_uint 8 (length envelope) @ envelope @
       put_uint 8 (length write_set) @ write_set"

text \<open>\<open>TxID\<close>, over the hash function \<open>sha\<close> (SHA-256 of the standard library).\<close>

definition txid_of :: "(string \<Rightarrow> string) \<Rightarrow> string \<Rightarrow> string \<Rightarrow> string" where
  "txid_of sha envelope write_set = hex_encode (sha (txid_preimage envelope write_set))"

lemma length_put_uint [simp]: "length (put_uint k v) = k"
  by (induction k arbitrary: v) simp_all

lemma put_uint_inject: "v < 256 ^ k \<Longrightarrow> w < 256 ^ k \<Longrightarrow> put_uint k v = put_uint k w \<Longrightarrow> v = w"
proof (induction k arbitrary: v w)
  case (Suc k)
  have "v div 256 < 256 ^ k" "w div 256 < 256 ^ k"
    using Suc.prems by (simp_all add: less_mult_imp_div_less)
  moreover have "put_uint k (v div 256) = put_uint k (w div 256)"
    and ch: "(char_of (v mod 256) :: char) = char_of (w mod 256)"
    using Suc.prems(3) by simp_all
  ultimately have "v div 256 = w div 256" using Suc.IH by blast
  moreover have "v mod 256 = w mod 256"
    using arg_cong [OF ch, of "of_char :: char \<Rightarrow> nat"] by simp
  ultimately show ?case by (metis div_mult_mod_eq)
qed simp

lemma hex_digit_inject: "m < 16 \<Longrightarrow> n < 16 \<Longrightarrow> hex_digit m = hex_digit n \<Longrightarrow> m = n"
proof -
  have "\<forall>m \<in> set [0..<16]. unhex (hex_digit m) = m" by code_simp
  then show "m < 16 \<Longrightarrow> n < 16 \<Longrightarrow> hex_digit m = hex_digit n \<Longrightarrow> m = n"
    by (metis atLeastLessThan_iff set_upt zero_le)
qed

lemma hex_encode_inject: "hex_encode s = hex_encode t \<Longrightarrow> s = t"
proof (induction s arbitrary: t)
  case Nil
  then show ?case by (cases t) (simp_all add: hex_encode_def)
next
  case (Cons c s)
  then obtain d t' where t: "t = d # t'" by (cases t) (simp_all add: hex_encode_def)
  have "hex_digit (of_char c div 16) = hex_digit (of_char d div 16)"
    "hex_digit (of_char c mod 16) = hex_digit (of_char d mod 16)" "hex_encode s = hex_encode t'"
    using Cons.prems t by (simp_all add: hex_encode_def)
  moreover have "of_char c < (256 :: nat)" "of_char d < (256 :: nat)"
    by (metis of_char_mod_256 mod_less_divisor zero_less_numeral)+
  then have "of_char c div 16 < (16 :: nat)" "of_char d div 16 < (16 :: nat)"
    by (simp_all add: less_mult_imp_div_less)
  ultimately have "of_char c div 16 = (of_char d div 16 :: nat)" "of_char c mod 16 = (of_char d mod 16 :: nat)"
    and "s = t'"
    using Cons.IH by (auto intro!: hex_digit_inject)
  then have "of_char c = (of_char d :: nat)" by (metis div_mult_mod_eq)
  with \<open>s = t'\<close> t show ?case by simp
qed

lemma txid_preimage_inject:
  assumes "length e < 256 ^ 8" "length e' < 256 ^ 8" "txid_preimage e w = txid_preimage e' w'"
  shows "e = e' \<and> w = w'"
proof -
  have eq: "put_uint 8 (length e) @ e @ put_uint 8 (length w) @ w =
      put_uint 8 (length e') @ e' @ put_uint 8 (length w') @ w'"
    using assms(3) unfolding txid_preimage_def by simp
  then have "put_uint 8 (length e) = put_uint 8 (length e')"
    and rest: "e @ put_uint 8 (length w) @ w = e' @ put_uint 8 (length w') @ w'"
    by (simp_all add: append_eq_append_conv)
  then have "length e = length e'" using put_uint_inject assms(1,2) by blast
  with rest show ?thesis by (simp add: append_eq_append_conv)
qed

section \<open>Properties\<close>

text \<open>
  The canonical encoding is total on the values the code hashes (integers that
  fit, objects with distinct keys in order) and determines them: equal bytes mean equal
  values.
\<close>

lemma canonical_encoding_injective:
  assumes "canonical v" "canonical w"
  shows "write_json fmt v \<noteq> None \<and> (write_json fmt v = write_json fmt w \<longleftrightarrow> v = w)"
  using json_text_inject [OF assms] by (simp add: write_canonical assms)

text \<open>
  Two processes that hold the same members of an object in different orders
  write the same bytes.
\<close>

lemma member_order_irrelevant:
  assumes "mset kvs = mset kvs'" "distinct (map fst kvs)"
  shows "write_json fmt (JObj kvs) = write_json fmt (JObj kvs')"
  using assms by (rule write_obj_perm)

text \<open>
  Claim C33. A transaction id binds the envelope and the write set together: unless the
  hash function collides on the two preimages, equal ids mean equal envelopes and equal
  write sets, so neither can be moved across the boundary between them.
\<close>

theorem txid_binds_envelope_and_write_set:
  assumes "length e < 256 ^ 8" "length e' < 256 ^ 8"
    and "sha (txid_preimage e w) = sha (txid_preimage e' w') \<longrightarrow>
      txid_preimage e w = txid_preimage e' w'"
  shows "txid_of sha e w = txid_of sha e' w' \<longleftrightarrow> e = e' \<and> w = w'"
  using assms txid_preimage_inject [OF assms(1,2)] hex_encode_inject
  unfolding txid_of_def by blast

theorem txid_binds_envelope_and_write_set_witness:
  "txid_of id ''ab'' ''c'' \<noteq> txid_of id ''a'' ''bc''"
  using txid_binds_envelope_and_write_set [of "''ab''" "''a''" id "''c''" "''bc''"] by simp

end
