(* ===== verification/Store.thy ===== *)
theory Store
  imports Canon
begin

text \<open>
  Statement text and result rows (\<open>internal/store/store.go\<close>), and the values of a write
  set (\<open>internal/model/writeset.go\<close>): quoting a value as an SQL literal, what a column
  holds after it, and how a row is read back.
\<close>

section \<open>Values of a write set\<close>

text \<open>
  The Go types an \<open>any\<close> of a write set can have. A float is its exact rational value.
\<close>

datatype val =
    VNil
  | VBool bool
  | VStr string
  | VInt int
  | VInt64 int
  | VUint64 int
  | VFloat rat
  | VNumber string
  | VBytes string
  | VBinary string
  | VMap "(string \<times> val) list"

text \<open>What a column holds.\<close>

datatype sqlv = SNull | SInt int | SFloat rat | SStr string

type_synonym sql_row = "string \<Rightarrow> sqlv"

section \<open>Quoting\<close>

definition quote_char :: "char \<Rightarrow> string" where
  "quote_char c =
     (if c = CHR 0x00 then [CHR 92, CHR ''0'']
      else if c = CHR 39 then [CHR 92, CHR 39]
      else if c = CHR 34 then [CHR 92, CHR 34]
      else if c = CHR 92 then [CHR 92, CHR 92]
      else if c = CHR 10 then [CHR 92, CHR ''n'']
      else if c = CHR 13 then [CHR 92, CHR ''r'']
      else if c = CHR 26 then [CHR 92, CHR ''Z'']
      else [c])"

definition quote :: "string \<Rightarrow> string" where
  "quote s = CHR 39 # concat (map quote_char s) @ [CHR 39]"

definition ident :: "string \<Rightarrow> string" where
  "ident name = CHR 96 # concat (map (\<lambda>c. if c = CHR 96 then [CHR 96, CHR 96] else [c]) name) @ [CHR 96]"

text \<open>
  \<open>Lit\<close>: \<open>None\<close> is the panic on a type it has no literal for. The decimal text of a
  float is \<open>strconv\<close>'s, the parameter \<open>ft\<close>.
\<close>

definition lit :: "(rat \<Rightarrow> string) \<Rightarrow> val \<Rightarrow> string option" where
  "lit ft v =
     (case v of
        VNil \<Rightarrow> Some ''NULL''
      | VBool b \<Rightarrow> Some (if b then ''TRUE'' else ''FALSE'')
      | VStr s \<Rightarrow> Some (quote s)
      | VBytes b \<Rightarrow> Some (if length b = 0 then [CHR 39, CHR 39] else ''X'' @ CHR 39 # hex_encode b @ [CHR 39])
      | VInt i \<Rightarrow> Some (show_int i)
      | VInt64 i \<Rightarrow> Some (show_int i)
      | VUint64 i \<Rightarrow> Some (show_int i)
      | VFloat f \<Rightarrow> Some (ft f)
      | VNumber _ \<Rightarrow> None
      | VBinary _ \<Rightarrow> None
      | VMap _ \<Rightarrow> None)"

text \<open>
  The value the literal denotes; a boolean literal is the integer 0 or 1 in the column.
\<close>

fun lit_value :: "val \<Rightarrow> sqlv option" where
  "lit_value VNil = Some SNull"
| "lit_value (VBool b) = Some (SInt (if b then 1 else 0))"
| "lit_value (VStr s) = Some (SStr s)"
| "lit_value (VBytes b) = Some (SStr b)"
| "lit_value (VInt i) = Some (SInt i)"
| "lit_value (VInt64 i) = Some (SInt i)"
| "lit_value (VUint64 i) = Some (SInt i)"
| "lit_value (VFloat f) = Some (SFloat f)"
| "lit_value _ = None"

lemma lit_value_iff: "lit_value v = None \<longleftrightarrow> lit ft v = None"
  by (cases v) (simp_all add: lit_def)

text \<open>The columns and values of a statement, in column order.\<close>

definition columns_and_values :: "(rat \<Rightarrow> string) \<Rightarrow> (string \<times> val) list \<Rightarrow> (string list \<times> string list) option" where
  "columns_and_values ft values =
     (let names = sort (remdups (map fst values))
      in map_option (\<lambda>ls. (map ident names, ls))
           (those (map (\<lambda>n. lit ft (the (map_of values n))) names)))"

definition insert_sql :: "(rat \<Rightarrow> string) \<Rightarrow> string \<Rightarrow> (string \<times> val) list \<Rightarrow> string option" where
  "insert_sql ft table values =
     map_option (\<lambda>(cols, vals). ''INSERT INTO '' @ ident table @ '' ('' @ str_join '', '' cols @
         '') VALUES ('' @ str_join '', '' vals @ '')'')
       (columns_and_values ft values)"

definition update_sql :: "(rat \<Rightarrow> string) \<Rightarrow> string \<Rightarrow> (string \<times> val) list \<Rightarrow> string \<Rightarrow> string option" where
  "update_sql ft table values wher =
     map_option (\<lambda>(cols, vals). ''UPDATE '' @ ident table @ '' SET '' @
         str_join '', '' (map (\<lambda>(c, v). c @ '' = '' @ v) (zip cols vals)) @ '' WHERE '' @ wher)
       (columns_and_values ft values)"

section \<open>Rows\<close>

text \<open>\<open>AsInt\<close>, with the unsigned wrap and Go's truncation of a float.\<close>

definition as_int :: "sqlv \<Rightarrow> int" where
  "as_int v =
     (case v of SNull \<Rightarrow> 0 | SInt i \<Rightarrow> i64 i
      | SFloat f \<Rightarrow> (if 0 \<le> f then \<lfloor>f\<rfloor> else \<lceil>f\<rceil>)
      | SStr s \<Rightarrow> (case parse_int s of Some i \<Rightarrow> i | None \<Rightarrow> 0))"

definition row_int :: "sql_row \<Rightarrow> string \<Rightarrow> int" where
  "row_int r col = as_int (r col)"

definition row_bool :: "sql_row \<Rightarrow> string \<Rightarrow> bool" where
  "row_bool r col \<longleftrightarrow> as_int (r col) \<noteq> 0"

definition row_str :: "(rat \<Rightarrow> string) \<Rightarrow> sql_row \<Rightarrow> string \<Rightarrow> string" where
  "row_str ft r col =
     (case r col of SStr s \<Rightarrow> s | SNull \<Rightarrow> [] | SInt i \<Rightarrow> show_int i | SFloat f \<Rightarrow> ft f)"

section \<open>A literal is one token\<close>

text \<open>
  How MySQL reads a string literal after its opening quote: a backslash escape, a doubled
  quote, or a byte that stands for itself; the result is the value and the text left.
\<close>

fun sql_string :: "string \<Rightarrow> (string \<times> string) option" where
  "sql_string [] = None"
| "sql_string (c # s) =
     (if c = CHR 39 then
        (case s of
           d # s' \<Rightarrow> if d = CHR 39 then map_option (map_prod (Cons d) id) (sql_string s') else Some ([], s)
         | [] \<Rightarrow> Some ([], []))
      else if c = CHR 92 then
        (case s of
           [] \<Rightarrow> None
         | d # s' \<Rightarrow> map_option (map_prod (Cons
             (if d = CHR ''0'' then CHR 0x00 else if d = CHR ''n'' then CHR 10
              else if d = CHR ''r'' then CHR 13 else if d = CHR ''t'' then CHR 9
              else if d = CHR ''b'' then CHR 8 else if d = CHR ''Z'' then CHR 26 else d)) id) (sql_string s'))
      else map_option (map_prod (Cons c) id) (sql_string s))"

fun sql_ident :: "string \<Rightarrow> (string \<times> string) option" where
  "sql_ident [] = None"
| "sql_ident (c # s) =
     (if c = CHR 96 then
        (case s of
           d # s' \<Rightarrow> if d = CHR 96 then map_option (map_prod (Cons d) id) (sql_ident s') else Some ([], s)
         | [] \<Rightarrow> Some ([], []))
      else map_option (map_prod (Cons c) id) (sql_ident s))"

lemma sql_string_char: "sql_string (quote_char c @ r) = map_option (map_prod (Cons c) id) (sql_string r)"
proof (cases "c \<in> {CHR 0x00, CHR 39, CHR 34, CHR 92, CHR 10, CHR 13, CHR 26}")
  case True
  then show ?thesis by (auto simp: quote_char_def)
next
  case False
  then show ?thesis by (simp add: quote_char_def)
qed

lemma sql_string_quote:
  assumes "r = [] \<or> hd r \<noteq> CHR 39"
  shows "sql_string (concat (map quote_char s) @ CHR 39 # r) = Some (s, r)"
proof (induction s)
  case Nil
  with assms show ?case by (cases r) auto
next
  case (Cons c s)
  then show ?case by (simp add: sql_string_char)
qed

lemma sql_ident_ident:
  assumes "r = [] \<or> hd r \<noteq> CHR 96"
  shows "sql_ident (concat (map (\<lambda>c. if c = CHR 96 then [CHR 96, CHR 96] else [c]) s) @ CHR 96 # r) =
    Some (s, r)"
proof (induction s)
  case Nil
  with assms show ?case by (cases r) auto
next
  case (Cons c s)
  then show ?case by (cases "c = CHR 96") simp_all
qed

text \<open>
  Claim C34. No value can leave its literal: the engine reads a quoted string, and a
  quoted identifier, back as exactly the value that was quoted and continues with the text
  the statement put after it, whatever bytes the value holds.
\<close>

theorem quoted_text_is_one_token:
  assumes "r = [] \<or> hd r \<notin> {CHR 39, CHR 96}"
  shows "(\<exists>t. quote s @ r = CHR 39 # t \<and> sql_string t = Some (s, r)) \<and>
    (\<exists>t. ident s @ r = CHR 96 # t \<and> sql_ident t = Some (s, r))"
proof -
  have "r = [] \<or> hd r \<noteq> CHR 39" "r = [] \<or> hd r \<noteq> CHR 96" using assms by auto
  then show ?thesis
    using sql_string_quote [of r s] sql_ident_ident [of r s] by (simp add: quote_def ident_def)
qed

theorem quoted_text_is_one_token_witness:
  "\<exists>t. quote [CHR 39, CHR 32, CHR ''O'', CHR ''R'', CHR 92] @ '' AND'' = CHR 39 # t \<and>
     sql_string t = Some ([CHR 39, CHR 32, CHR ''O'', CHR ''R'', CHR 92], '' AND'')"
  using quoted_text_is_one_token [of "'' AND''" "[CHR 39, CHR 32, CHR ''O'', CHR ''R'', CHR 92]"]
  by simp

end
