(* ===== verification/Ledger.thy ===== *)
theory Ledger
  imports Store
begin

text \<open>
  Transactions: the commit envelope and its validation (\<open>internal/model/envelope.go\<close>),
  the write set, and \<open>commit\<close>, \<open>apply\<close>, \<open>applyOne\<close> and \<open>substitute\<close> of
  \<open>internal/core/core.go\<close>. The register is its tables, the transactions table and the
  root and version of the ledger underneath.
\<close>

section \<open>Envelopes\<close>

record ref =
  ref_type :: string
  ref_target :: string

record author =
  au_sub :: string
  au_display :: string
  au_role :: string

record envelope =
  env_kind :: string
  env_tenant :: string
  env_service :: string
  env_object_ids :: "string list"
  env_author :: author
  env_timestamp :: int
  env_message :: string
  env_refs :: "ref list"

definition KindRuntimeEvent :: string where "KindRuntimeEvent = ''runtime.event''"

definition system_author :: author where
  "system_author = \<lparr>au_sub = ''system'', au_display = ''Monitor'', au_role = ''system''\<rparr>"

definition MaxSummary :: nat where "MaxSummary = 72"

abbreviation newline :: char where "newline \<equiv> CHR 10"

text \<open>\<open>Summary\<close> and \<open>Body\<close>: the message up to its first line break, and after it.\<close>

definition msg_summary :: "string \<Rightarrow> string" where
  "msg_summary m =
     (case str_index m [newline] of Some i \<Rightarrow> take i m | None \<Rightarrow> m)"

definition msg_body :: "string \<Rightarrow> string" where
  "msg_body m =
     (case str_index m [newline] of
        None \<Rightarrow> []
      | Some i \<Rightarrow> trim_left (\<lambda>c. c = newline) (drop (i + 1) m))"

definition ref_types :: "string list" where
  "ref_types = [''corrects'', ''supersedes'', ''resolves'', ''relates'']"

datatype envelope_error =
    KindRequired
  | TenantRequired
  | SubRequired
  | RoleRequired
  | TimestampRequired
  | MessageRequired
  | SummaryTooLong nat
  | SummaryFullStop
  | UnknownRefType string
  | RefWithoutTarget string

fun validate_refs :: "ref list \<Rightarrow> envelope_error option" where
  "validate_refs [] = None"
| "validate_refs (r # rs) =
     (if ref_type r \<notin> set ref_types then Some (UnknownRefType (ref_type r))
      else if ref_target r = [] then Some (RefWithoutTarget (ref_type r))
      else validate_refs rs)"

text \<open>\<open>Envelope.Validate\<close>: \<open>None\<close> is \<open>nil\<close>.\<close>

definition validate_envelope :: "envelope \<Rightarrow> envelope_error option" where
  "validate_envelope e =
     (if env_kind e = [] then Some KindRequired
      else if env_tenant e = [] \<and> env_kind e \<noteq> KindRuntimeEvent then Some TenantRequired
      else if au_sub (env_author e) = [] then Some SubRequired
      else if au_role (env_author e) = [] then Some RoleRequired
      else if env_timestamp e \<le> 0 then Some TimestampRequired
      else let summary = trim_space (msg_summary (env_message e)) in
        if summary = [] then Some MessageRequired
        else if length summary > MaxSummary then Some (SummaryTooLong (length summary))
        else if has_suffix summary ''.'' then Some SummaryFullStop
        else validate_refs (env_refs e))"

section \<open>Write sets\<close>

type_synonym fields = "(string \<times> val) list"

record write_op =
  w_table :: string
  w_key :: fields
  w_values :: fields
  w_delete :: bool

definition TxIDPlaceholder :: string where "TxIDPlaceholder = ''$txid''"

definition pk_columns :: "string \<Rightarrow> string list option" where
  "pk_columns = map_of
     [(''services'', [''id'']), (''components'', [''id'']), (''monitors'', [''id'']),
      (''monitor_versions'', [''monitor_id'', ''version'']), (''schedules'', [''id'']),
      (''objectives'', [''id'']), (''samples'', [''id'']),
      (''buckets'', [''monitor_id'', ''width_seconds'', ''bucket_start'']),
      (''incidents'', [''id'']), (''incident_updates'', [''id'']),
      (''maintenance_windows'', [''id'']), (''secrets_meta'', [''name'']),
      (''alerts'', [''id'']), (''alert_deliveries'', [''id'']), (''reports'', [''id'']),
      (''runtime_events'', [''id'']), (''states'', [''subject'']),
      (''prune_marks'', [''txid'', ''idx'']), (''registry'', [''k'']),
      (''tx_refs'', [''txid'', ''idx'']), (''clock_readings'', [''id'']),
      (''clock_incidents'', [''id'']), (''clock_actions'', [''id'']),
      (''clock_enclaves'', [''enclave_id'']), (''clock_vault_alerts'', [''enclave_id''])]"

text \<open>
  What the model takes from outside \<open>src/\<close>: the hash and base64 of the standard
  library, its float text and parser, the number printer of \<open>canon\<close>, the error the SQL
  engine gives for a statement (\<open>None\<close>: it accepts it), and the root the ledger has
  after a commit.
\<close>

record outside =
  x_sha :: "string \<Rightarrow> string"
  x_b64 :: "string \<Rightarrow> string"
  x_unb64 :: "string \<Rightarrow> string option"
  x_ftext :: "rat \<Rightarrow> string"
  x_parse_float :: "string \<Rightarrow> rat"
  x_fmt :: "string \<Rightarrow> string option"
  x_engine :: "string \<Rightarrow> string option"
  x_root :: "string \<Rightarrow> string list \<Rightarrow> string"

text \<open>\<open>DecodeBinary\<close> on a decoded JSON object.\<close>

definition decode_binary :: "outside \<Rightarrow> (string \<times> val) list \<Rightarrow> string option" where
  "decode_binary x m =
     (case m of
        [(k, VStr enc)] \<Rightarrow> if k = ''$bytes'' then x_unb64 x enc else None
      | _ \<Rightarrow> None)"

definition substitute :: "outside \<Rightarrow> string \<Rightarrow> val \<Rightarrow> val" where
  "substitute x txid v =
     (case v of
        VStr t \<Rightarrow> if t = TxIDPlaceholder then VStr txid else v
      | VBinary t \<Rightarrow> VBytes t
      | VMap m \<Rightarrow> (case decode_binary x m of Some d \<Rightarrow> VBytes d | None \<Rightarrow> v)
      | VFloat f \<Rightarrow> if f = of_int \<lfloor>f\<rfloor> \<and> in_i64 \<lfloor>f\<rfloor> then VInt64 \<lfloor>f\<rfloor> else v
      | VNumber n \<Rightarrow> (case parse_int n of Some i \<Rightarrow> VInt64 i | None \<Rightarrow> VFloat (x_parse_float x n))
      | VInt i \<Rightarrow> VInt64 i
      | _ \<Rightarrow> v)"

lemma substitute_simps:
  "substitute x txid (VStr s) = VStr (if s = TxIDPlaceholder then txid else s)"
  "substitute x txid (VInt i) = VInt64 i"
  "substitute x txid (VInt64 i) = VInt64 i"
  "substitute x txid (VUint64 i) = VUint64 i"
  "substitute x txid (VBool b) = VBool b"
  "substitute x txid (VBinary s) = VBytes s"
  by (simp_all add: substitute_def)

definition subst_fields :: "outside \<Rightarrow> string \<Rightarrow> fields \<Rightarrow> fields" where
  "subst_fields x txid fs = map (\<lambda>(k, v). (k, substitute x txid v)) fs"

section \<open>Tables\<close>

type_synonym tables = "string \<Rightarrow> sql_row list"

text \<open>
  The rows a statement's \<open>WHERE k1 = v1 AND ...\<close> selects; \<open>= NULL\<close> selects none.
\<close>

definition selects :: "(string \<times> sqlv) list \<Rightarrow> sql_row \<Rightarrow> bool" where
  "selects kvs r \<longleftrightarrow> list_all (\<lambda>(k, v). v \<noteq> SNull \<and> r k = v) kvs"

definition null_row :: sql_row where
  "null_row = (\<lambda>_. SNull)"

definition set_columns :: "(string \<times> sqlv) list \<Rightarrow> sql_row \<Rightarrow> sql_row" where
  "set_columns fs r = (\<lambda>c. case map_of fs c of Some v \<Rightarrow> v | None \<Rightarrow> r c)"

text \<open>The three statements on one table, as SQL defines them.\<close>

definition sql_delete :: "(string \<times> sqlv) list \<Rightarrow> sql_row list \<Rightarrow> sql_row list" where
  "sql_delete wher rows = filter (\<lambda>r. \<not> selects wher r) rows"

definition sql_update ::
  "(string \<times> sqlv) list \<Rightarrow> (string \<times> sqlv) list \<Rightarrow> sql_row list \<Rightarrow> sql_row list" where
  "sql_update fs wher rows = map (\<lambda>r. if selects wher r then set_columns fs r else r) rows"

definition sql_insert :: "(string \<times> sqlv) list \<Rightarrow> sql_row list \<Rightarrow> sql_row list" where
  "sql_insert fs rows = rows @ [set_columns fs null_row]"

section \<open>applyOne\<close>

datatype apply_error =
    KeyColumnMissing string
  | EngineError string
  | NoLiteral

definition lit_fields :: "fields \<Rightarrow> (string \<times> sqlv) list option" where
  "lit_fields fs = those (map (\<lambda>(k, v). map_option (Pair k) (lit_value v)) fs)"

definition where_text :: "outside \<Rightarrow> string list \<Rightarrow> fields \<Rightarrow> string option" where
  "where_text x cols key =
     map_option (str_join '' AND '')
       (those (map (\<lambda>c. map_option (\<lambda>l. ident c @ '' = '' @ l) (lit (x_ftext x) (the (map_of key c)))) cols))"

definition run_sql :: "outside \<Rightarrow> string option \<Rightarrow> tables option \<Rightarrow> apply_error + tables" where
  "run_sql x stmt t' =
     (case (stmt, t') of
        (Some s, Some t'') \<Rightarrow> (case x_engine x s of Some e \<Rightarrow> Inl (EngineError e) | None \<Rightarrow> Inr t'')
      | _ \<Rightarrow> Inl NoLiteral)"

text \<open>
  The key columns of the row: \<open>key\<close> is the entry's key after substitution. A column the
  key does not give is an error; a value \<open>Lit\<close> has no literal for is a panic, which
  unwinds the transaction like an error.
\<close>

definition apply_one :: "outside \<Rightarrow> string \<Rightarrow> tables \<Rightarrow> write_op \<Rightarrow> apply_error + tables" where
  "apply_one x txid t op =
     (let tab = w_table op;
          cols = (case pk_columns tab of Some cs \<Rightarrow> cs | None \<Rightarrow> []);
          key = subst_fields x txid (w_key op)
      in case find (\<lambda>c. map_of key c = None) cols of
           Some c \<Rightarrow> Inl (KeyColumnMissing c)
         | None \<Rightarrow>
             (case (where_text x cols key, lit_fields (map (\<lambda>c. (c, the (map_of key c))) cols)) of
                (Some wtext, Some wher) \<Rightarrow>
                  (if w_delete op then
                     run_sql x (Some (''DELETE FROM '' @ ident tab @ '' WHERE '' @ wtext))
                       (Some (t(tab := sql_delete wher (t tab))))
                   else
                     let values = subst_fields x txid (w_values op);
                         count = ''SELECT COUNT(*) FROM '' @ ident tab @ '' WHERE '' @ wtext
                     in case x_engine x count of
                          Some e \<Rightarrow> Inl (EngineError e)
                        | None \<Rightarrow>
                            if length (filter (selects wher) (t tab)) > 0 then
                              (if values = [] then Inr t
                               else run_sql x (update_sql (x_ftext x) tab values wtext)
                                 (map_option (\<lambda>fs. t(tab := sql_update fs wher (t tab))) (lit_fields values)))
                            else
                              let row = key @ values in
                              run_sql x (insert_sql (x_ftext x) tab row)
                                (map_option (\<lambda>fs. t(tab := sql_insert fs (t tab))) (lit_fields row)))
              | _ \<Rightarrow> Inl NoLiteral))"

section \<open>apply and commit\<close>

datatype commit_error =
    EnvelopeError envelope_error
  | UnknownTable string
  | NoKey string
  | EncodeError
  | RecordError string
  | EntryError nat string apply_error
  | ReferenceError nat apply_error
  | CommitFailed string

fun apply_entries :: "outside \<Rightarrow> string \<Rightarrow> nat \<Rightarrow> tables \<Rightarrow> write_op list \<Rightarrow> commit_error + tables" where
  "apply_entries x txid i t [] = Inr t"
| "apply_entries x txid i t (op # ops) =
     (case apply_one x txid t op of
        Inl e \<Rightarrow> Inl (EntryError i (w_table op) e)
      | Inr t' \<Rightarrow> apply_entries x txid (i + 1) t' ops)"

definition ref_op :: "string \<Rightarrow> nat \<Rightarrow> ref \<Rightarrow> write_op" where
  "ref_op txid i r =
     \<lparr>w_table = ''tx_refs'', w_key = [(''txid'', VStr txid), (''idx'', VUint64 (int i))],
      w_values = [(''ref_type'', VStr (ref_type r)), (''target'', VStr (ref_target r))],
      w_delete = False\<rparr>"

fun apply_refs :: "outside \<Rightarrow> string \<Rightarrow> nat \<Rightarrow> tables \<Rightarrow> ref list \<Rightarrow> commit_error + tables" where
  "apply_refs x txid i t [] = Inr t"
| "apply_refs x txid i t (r # rs) =
     (case apply_one x txid t (ref_op txid i r) of
        Inl e \<Rightarrow> Inl (ReferenceError i e)
      | Inr t' \<Rightarrow> apply_refs x txid (i + 1) t' rs)"

definition apply_all :: "outside \<Rightarrow> string \<Rightarrow> tables \<Rightarrow> envelope \<Rightarrow> write_op list \<Rightarrow> commit_error + tables" where
  "apply_all x txid t env ops =
     bind_res (apply_entries x txid 0 t ops) (\<lambda>t'. apply_refs x txid 0 t' (env_refs env))"

section \<open>Canonical bytes of an envelope and a write set\<close>

text \<open>
  The JSON objects \<open>encoding/json\<close> makes of the structs, fields in declaration order,
  those marked \<open>omitempty\<close> left out when empty.
\<close>

definition json_nat :: "int \<Rightarrow> json" where
  "json_nat i = JNum (show_int i)"

definition omit_empty :: "string \<Rightarrow> json \<Rightarrow> bool \<Rightarrow> (string \<times> json) list" where
  "omit_empty k v absent = (if absent then [] else [(k, v)])"

definition ref_json :: "ref \<Rightarrow> json" where
  "ref_json r = JObj [(''type'', JStr (ref_type r)), (''target'', JStr (ref_target r))]"

definition author_json :: "author \<Rightarrow> json" where
  "author_json a = JObj ([(''sub'', JStr (au_sub a))] @
     omit_empty ''display'' (JStr (au_display a)) (au_display a = []) @
     [(''role'', JStr (au_role a))])"

definition envelope_json :: "envelope \<Rightarrow> json" where
  "envelope_json e = JObj (
     [(''kind'', JStr (env_kind e)), (''tenant'', JStr (env_tenant e))] @
     omit_empty ''service'' (JStr (env_service e)) (env_service e = []) @
     omit_empty ''object_ids'' (JArr (map JStr (env_object_ids e))) (env_object_ids e = []) @
     [(''author'', author_json (env_author e)), (''timestamp'', json_nat (env_timestamp e)),
      (''message'', JStr (env_message e))] @
     omit_empty ''refs'' (JArr (map ref_json (env_refs e))) (env_refs e = []))"

fun val_json :: "outside \<Rightarrow> val \<Rightarrow> json" where
  "val_json x VNil = JNull"
| "val_json x (VBool b) = JBool b"
| "val_json x (VStr s) = JStr s"
| "val_json x (VInt i) = json_nat i"
| "val_json x (VInt64 i) = json_nat i"
| "val_json x (VUint64 i) = json_nat i"
| "val_json x (VFloat f) = JNum (x_ftext x f)"
| "val_json x (VNumber n) = JNum n"
| "val_json x (VBytes b) = JStr (x_b64 x b)"
| "val_json x (VBinary b) = JObj [(''$bytes'', JStr (x_b64 x b))]"
| "val_json x (VMap m) = JObj (map (\<lambda>(k, v). (k, val_json x v)) m)"

definition fields_json :: "outside \<Rightarrow> fields \<Rightarrow> json" where
  "fields_json x fs = JObj (map (\<lambda>(k, v). (k, val_json x v)) fs)"

definition op_json :: "outside \<Rightarrow> write_op \<Rightarrow> json" where
  "op_json x op = JObj (
     [(''table'', JStr (w_table op)), (''key'', fields_json x (w_key op))] @
     omit_empty ''values'' (fields_json x (w_values op)) (w_values op = []) @
     omit_empty ''delete'' (JBool True) (\<not> w_delete op))"

definition marshal_envelope :: "outside \<Rightarrow> envelope \<Rightarrow> string option" where
  "marshal_envelope x e = write_json (x_fmt x) (envelope_json e)"

definition marshal_ops :: "outside \<Rightarrow> write_op list \<Rightarrow> string option" where
  "marshal_ops x ops =
     write_json (x_fmt x) (if ops = [] then JNull else JArr (map (op_json x) ops))"

section \<open>commit\<close>

text \<open>A row of the transactions table, with what \<open>Transaction\<close> reads back from it.\<close>

record tx_row =
  t_txid :: string
  t_envelope :: envelope
  t_write_set :: "write_op list"
  t_summary :: string
  t_object_id :: string
  t_root_before :: string
  t_version_before :: int
  t_version_after :: int

record register =
  reg_tables :: tables
  reg_log :: "tx_row list"
  reg_root :: string
  reg_version :: int

definition clip_str :: "string \<Rightarrow> nat \<Rightarrow> string" where
  "clip_str s n = (if length s \<le> n then s else take n s)"

definition fill_envelope :: "string \<Rightarrow> int \<Rightarrow> envelope \<Rightarrow> envelope" where
  "fill_envelope tenant now env =
     (let e = (if env_tenant env = [] then env\<lparr>env_tenant := tenant\<rparr> else env)
      in if env_timestamp e = 0 then e\<lparr>env_timestamp := now\<rparr> else e)"

fun check_ops :: "write_op list \<Rightarrow> commit_error option" where
  "check_ops [] = None"
| "check_ops (op # ops) =
     (if pk_columns (w_table op) = None then Some (UnknownTable (w_table op))
      else if length (w_key op) = 0 then Some (NoKey (w_table op))
      else check_ops ops)"

definition find_tx :: "string \<Rightarrow> register \<Rightarrow> tx_row option" where
  "find_tx txid reg = find (\<lambda>t. t_txid t = txid) (reg_log reg)"

definition tx_row_of :: "string \<Rightarrow> envelope \<Rightarrow> write_op list \<Rightarrow> register \<Rightarrow> tx_row" where
  "tx_row_of txid env ops reg =
     \<lparr>t_txid = txid, t_envelope = env, t_write_set = ops,
      t_summary = clip_str (msg_summary (env_message env)) 255,
      t_object_id = (case env_object_ids env of [] \<Rightarrow> [] | o1 # _ \<Rightarrow> o1),
      t_root_before = reg_root reg, t_version_before = reg_version reg,
      t_version_after = reg_version reg + 1\<rparr>"

definition tx_values :: "tx_row \<Rightarrow> string \<Rightarrow> string \<Rightarrow> fields" where
  "tx_values row envelope write_set =
     (let env = t_envelope row; au = env_author env in
      [(''txid'', VStr (t_txid row)), (''tenant'', VStr (env_tenant env)),
       (''kind'', VStr (env_kind env)), (''service_id'', VStr (env_service env)),
       (''object_id'', VStr (t_object_id row)), (''author_sub'', VStr (au_sub au)),
       (''author_display'', VStr (au_display au)), (''author_role'', VStr (au_role au)),
       (''summary'', VStr (t_summary row)), (''created_at'', VInt64 (env_timestamp env)),
       (''root_before'', VStr (t_root_before row)), (''version_before'', VUint64 (t_version_before row)),
       (''version_after'', VUint64 (t_version_after row)), (''envelope'', VBytes envelope),
       (''write_set'', VBytes write_set)])"

definition insert_tx_sql :: "outside \<Rightarrow> tx_row \<Rightarrow> string \<Rightarrow> string \<Rightarrow> string" where
  "insert_tx_sql x row envelope write_set =
     the (insert_sql (x_ftext x) ''transactions'' (tx_values row envelope write_set))"

text \<open>
  \<open>commit\<close>. The statements between \<open>BEGIN\<close> and \<open>COMMIT\<close> run on a working copy that
  becomes the register when the engine accepts the commit; every error before that is the
  deferred rollback.
\<close>

definition commit :: "outside \<Rightarrow> string \<Rightarrow> int \<Rightarrow> register \<Rightarrow> envelope \<Rightarrow> write_op list \<Rightarrow>
    (commit_error + tx_row) \<times> register" where
  "commit x tenant now reg env0 ops =
     (let env = fill_envelope tenant now env0 in
      case validate_envelope env of Some e \<Rightarrow> (Inl (EnvelopeError e), reg)
      | None \<Rightarrow>
      (case check_ops ops of Some e \<Rightarrow> (Inl e, reg)
      | None \<Rightarrow>
      (case (marshal_envelope x env, marshal_ops x ops) of
         (Some envelope, Some write_set) \<Rightarrow>
           (let txid = txid_of (x_sha x) envelope write_set in
            case find_tx txid reg of Some old \<Rightarrow> (Inr old, reg)
            | None \<Rightarrow>
            let row = tx_row_of txid env ops reg in
            (case x_engine x ''BEGIN'' of Some e \<Rightarrow> (Inl (RecordError e), reg)
             | None \<Rightarrow>
             (case x_engine x (insert_tx_sql x row envelope write_set) of Some e \<Rightarrow> (Inl (RecordError e), reg)
              | None \<Rightarrow>
              (case apply_all x txid (reg_tables reg) env ops of
                 Inl e \<Rightarrow> (Inl e, reg)
               | Inr t \<Rightarrow>
                 (case x_engine x ''COMMIT'' of Some e \<Rightarrow> (Inl (CommitFailed e), reg)
                  | None \<Rightarrow>
                       (Inr row,
                        reg\<lparr>reg_tables := t, reg_log := reg_log reg @ [row],
                            reg_root := x_root x (reg_root reg) [envelope, write_set],
                            reg_version := reg_version reg + 1\<rparr>))))))
       | _ \<Rightarrow> (Inl EncodeError, reg))))"

lemma commit_cases:
  obtains (refused) e where "commit x tenant now reg env ops = (Inl e, reg)"
  | (retry) envelope write_set old where
      "validate_envelope (fill_envelope tenant now env) = None" "check_ops ops = None"
      "marshal_envelope x (fill_envelope tenant now env) = Some envelope"
      "marshal_ops x ops = Some write_set"
      "find_tx (txid_of (x_sha x) envelope write_set) reg = Some old"
      "commit x tenant now reg env ops = (Inr old, reg)" "old \<in> set (reg_log reg)"
  | (committed) envelope write_set t where
      "validate_envelope (fill_envelope tenant now env) = None" "check_ops ops = None"
      "marshal_envelope x (fill_envelope tenant now env) = Some envelope"
      "marshal_ops x ops = Some write_set"
      "find_tx (txid_of (x_sha x) envelope write_set) reg = None"
      "apply_all x (txid_of (x_sha x) envelope write_set) (reg_tables reg)
         (fill_envelope tenant now env) ops = Inr t"
      "commit x tenant now reg env ops =
         (Inr (tx_row_of (txid_of (x_sha x) envelope write_set) (fill_envelope tenant now env) ops reg),
          reg\<lparr>reg_tables := t,
              reg_log := reg_log reg @
                [tx_row_of (txid_of (x_sha x) envelope write_set) (fill_envelope tenant now env) ops reg],
              reg_root := x_root x (reg_root reg) [envelope, write_set],
              reg_version := reg_version reg + 1\<rparr>)"
proof -
  note defs = commit_def Let_def
  show thesis
  proof (cases "validate_envelope (fill_envelope tenant now env)")
    case (Some e)
    then show ?thesis by (intro refused) (simp add: defs)
  next
    case v: None
    show ?thesis
    proof (cases "check_ops ops")
      case (Some e)
      with v show ?thesis by (intro refused) (simp add: defs)
    next
      case c: None
      show ?thesis
      proof (cases "\<exists>a b. marshal_envelope x (fill_envelope tenant now env) = Some a \<and> marshal_ops x ops = Some b")
        case False
        with v c show ?thesis
          by (intro refused [of EncodeError]) (auto simp: defs split: option.splits)
      next
        case True
        then obtain a b where ab: "marshal_envelope x (fill_envelope tenant now env) = Some a"
            "marshal_ops x ops = Some b" by blast
        note known = v c ab
        show ?thesis
        proof (cases "find_tx (txid_of (x_sha x) a b) reg")
          case (Some old)
          then have "old \<in> set (reg_log reg)" by (auto simp: find_tx_def find_Some_iff)
          with known Some show ?thesis by (intro retry [of a b old]) (simp_all add: defs)
        next
          case None
          note known = known None
          show ?thesis
          proof (cases "x_engine x ''BEGIN'' = None \<and> x_engine x (insert_tx_sql x (tx_row_of (txid_of (x_sha x) a b) (fill_envelope tenant now env) ops reg) a b) = None \<and>
              x_engine x ''COMMIT'' = None \<and>
              (\<exists>t. apply_all x (txid_of (x_sha x) a b) (reg_tables reg) (fill_envelope tenant now env) ops = Inr t)")
            case True
            with known show ?thesis by (elim conjE exE, intro committed) (simp_all add: defs)
          next
            case False
            have "\<exists>e. commit x tenant now reg env ops = (Inl e, reg)"
              using known False by (auto simp: defs split: option.split sum.split)
            then show ?thesis by (elim exE) (rule refused)
          qed
        qed
      qed
    qed
  qed
qed

section \<open>Keyed rows as an interface\<close>

text \<open>
  What the rest of the core relies on when it writes rows by key: a row read back after an
  upsert is the old row overlaid with the new fields, other keys are not touched, and
  overlays combine. Replaying a list of upserts and deletes then changes nothing.
\<close>

locale keyed_store =
  fixes valid_key :: "'k \<Rightarrow> bool"
    and valid_fields :: "'f \<Rightarrow> bool"
    and get :: "'k \<Rightarrow> 's \<Rightarrow> 'r option"
    and put :: "'k \<Rightarrow> 'f \<Rightarrow> 's \<Rightarrow> 's"
    and del :: "'k \<Rightarrow> 's \<Rightarrow> 's"
    and overlay :: "'k \<Rightarrow> 'f \<Rightarrow> 'r option \<Rightarrow> 'r"
    and comb :: "'f \<Rightarrow> 'f \<Rightarrow> 'f"
  assumes get_put: "valid_key k \<Longrightarrow> valid_fields f \<Longrightarrow> get k (put k f s) = Some (overlay k f (get k s))"
    and get_put_other: "valid_key k \<Longrightarrow> valid_key k' \<Longrightarrow> valid_fields f \<Longrightarrow> k \<noteq> k' \<Longrightarrow>
      get k' (put k f s) = get k' s"
    and get_del: "valid_key k \<Longrightarrow> get k (del k s) = None"
    and get_del_other: "valid_key k \<Longrightarrow> valid_key k' \<Longrightarrow> k \<noteq> k' \<Longrightarrow> get k' (del k s) = get k' s"
    and overlay_overlay: "valid_key k \<Longrightarrow> valid_fields f \<Longrightarrow> valid_fields g \<Longrightarrow>
      overlay k g (Some (overlay k f r)) = overlay k (comb f g) r"
    and overlay_idem: "overlay k (comb f f) r = overlay k f r"
    and valid_comb: "valid_fields f \<Longrightarrow> valid_fields g \<Longrightarrow> valid_fields (comb f g)"
begin

definition run1 :: "'k \<times> 'f option \<Rightarrow> 's \<Rightarrow> 's" where
  "run1 op s = (case op of (k, Some f) \<Rightarrow> put k f s | (k, None) \<Rightarrow> del k s)"

definition run :: "('k \<times> 'f option) list \<Rightarrow> 's \<Rightarrow> 's" where
  "run ops s = fold run1 ops s"

definition valid_op :: "'k \<times> 'f option \<Rightarrow> bool" where
  "valid_op op \<longleftrightarrow> valid_key (fst op) \<and> (\<forall>f. snd op = Some f \<longrightarrow> valid_fields f)"

text \<open>What a list of entries does to the row of one key.\<close>

fun effect :: "'k \<Rightarrow> ('k \<times> 'f option) list \<Rightarrow> 'r option \<Rightarrow> 'r option" where
  "effect k [] r = r"
| "effect k ((k', w) # ops) r =
     effect k ops (if k' = k then (case w of Some f \<Rightarrow> Some (overlay k f r) | None \<Rightarrow> None) else r)"

lemma get_run:
  "list_all valid_op ops \<Longrightarrow> valid_key k \<Longrightarrow> get k (run ops s) = effect k ops (get k s)"
proof (induction ops arbitrary: s)
  case (Cons op ops)
  obtain k' o' where op: "op = (k', o')" by (cases op)
  have "get k (run1 op s) =
      (if k' = k then (case o' of Some f \<Rightarrow> Some (overlay k f (get k s)) | None \<Rightarrow> None) else get k s)"
    using Cons.prems op
    by (auto simp: run1_def valid_op_def get_put get_put_other get_del get_del_other split: option.split)
  with Cons op show ?case by (simp add: run_def)
qed (simp add: run_def)

text \<open>Either the entries end in one overlay of the old row, or they forget it.\<close>

lemma effect_shape:
  assumes "valid_key k"
  shows "list_all valid_op ops \<Longrightarrow>
   (\<exists>c. valid_fields c \<and> (\<forall>r. effect k ops r = Some (overlay k c r))) \<or>
   (\<exists>r'. \<forall>r. effect k ops r = r') \<or> (\<forall>r. effect k ops r = r)"
proof (induction ops rule: rev_induct)
  case (snoc op ops)
  obtain k' w where op: "op = (k', w)" by (cases op)
  have app: "effect k (ops @ [op]) r =
      (if k' = k then (case w of Some f \<Rightarrow> Some (overlay k f (effect k ops r)) | None \<Rightarrow> None)
       else effect k ops r)" for r
    by (induction k ops r rule: effect.induct) (simp_all add: op split: option.splits)
  have IH: "(\<exists>c. valid_fields c \<and> (\<forall>r. effect k ops r = Some (overlay k c r))) \<or>
     (\<exists>r'. \<forall>r. effect k ops r = r') \<or> (\<forall>r. effect k ops r = r)"
    using snoc by simp
  show ?case
  proof (cases "k' = k \<and> w \<noteq> None")
    case True
    then obtain f where f: "k' = k" "w = Some f" by auto
    then have vf: "valid_fields f" using snoc.prems op by (simp add: valid_op_def)
    from IH show ?thesis
    proof (elim disjE exE conjE)
      fix c assume "valid_fields c" "\<forall>r. effect k ops r = Some (overlay k c r)"
      then have "\<forall>r. effect k (ops @ [op]) r = Some (overlay k (comb c f) r)"
        using f vf assms by (simp add: app overlay_overlay)
      then show ?thesis using valid_comb [OF \<open>valid_fields c\<close> vf] by blast
    qed (use f vf app in auto)
  qed (use IH app in auto)
qed simp

lemma effect_idem:
  assumes "valid_key k" "list_all valid_op ops"
  shows "effect k ops (effect k ops r) = effect k ops r"
  using effect_shape [OF assms] assms(1) by (auto simp: overlay_overlay overlay_idem)

lemma twice_is_once:
  assumes "list_all valid_op ops" "valid_key k"
  shows "get k (run ops (run ops s)) = get k (run ops s)"
  by (simp add: get_run [OF assms] effect_idem [OF assms(2,1)])

end

text \<open>The rows of one table, keyed by its primary key columns.\<close>

type_synonym key = "(string \<times> sqlv) list"

definition valid_key :: "string list \<Rightarrow> key \<Rightarrow> bool" where
  "valid_key cols k \<longleftrightarrow> map fst k = cols \<and> distinct cols \<and> SNull \<notin> snd ` set k"

definition valid_fields :: "string list \<Rightarrow> (string \<times> sqlv) list \<Rightarrow> bool" where
  "valid_fields cols fs \<longleftrightarrow> (\<forall>c \<in> set cols. c \<notin> fst ` set fs)"

definition row_at :: "key \<Rightarrow> sql_row list \<Rightarrow> sql_row option" where
  "row_at k rows = find (selects k) rows"

definition upsert :: "key \<Rightarrow> (string \<times> sqlv) list \<Rightarrow> sql_row list \<Rightarrow> sql_row list" where
  "upsert k fs rows =
     (if length (filter (selects k) rows) > 0 then sql_update fs k rows else sql_insert (k @ fs) rows)"

definition overlay_row :: "key \<Rightarrow> (string \<times> sqlv) list \<Rightarrow> sql_row option \<Rightarrow> sql_row" where
  "overlay_row k fs r = (case r of Some r' \<Rightarrow> set_columns fs r' | None \<Rightarrow> set_columns (k @ fs) null_row)"

lemma find_map_same: "(\<And>x. P (f x) = P x) \<Longrightarrow> find P (map f xs) = map_option f (find P xs)"
  by (induction xs) simp_all

lemma find_append: "find P (xs @ ys) = (case find P xs of Some x \<Rightarrow> Some x | None \<Rightarrow> find P ys)"
  by (induction xs) simp_all

lemma find_filter_not: "find P (filter (\<lambda>x. \<not> P x) xs) = None"
  by (simp add: find_None_iff)

lemma find_filter_imp: "(\<And>x. P x \<Longrightarrow> Q x) \<Longrightarrow> find P (filter Q xs) = find P xs"
  by (induction xs) auto

lemma selects_set_columns:
  assumes "valid_key cols k" "valid_fields cols fs"
  shows "selects k (set_columns fs r) = selects k r"
proof -
  have "map_of fs c = None" if "c \<in> set cols" for c
    using that assms(2) by (auto simp: valid_fields_def map_of_eq_None_iff)
  then have "set_columns fs r c = r c" if "(c, v) \<in> set k" for c v
    using that assms(1) by (force simp: valid_key_def set_columns_def)
  then show ?thesis by (force simp: selects_def list_all_iff)
qed

lemma selects_exclusive:
  assumes "valid_key cols k" "valid_key cols k'" "k \<noteq> k'" "selects k r"
  shows "\<not> selects k' r"
proof
  assume "selects k' r"
  have "map snd k = map snd k'"
  proof (rule nth_equalityI)
    have len: "length k = length k'"
      using assms(1,2) by (metis length_map valid_key_def)
    then show "length (map snd k) = length (map snd k')" by simp
    fix i assume "i < length (map snd k)"
    then have i: "i < length k" by simp
    then have "fst (k ! i) = fst (k' ! i)"
      using assms(1,2) len by (metis nth_map valid_key_def)
    moreover have "r (fst (k ! i)) = snd (k ! i)"
      using assms(4) nth_mem [OF i] by (cases "k ! i") (fastforce simp: selects_def list_all_iff)
    moreover have "r (fst (k' ! i)) = snd (k' ! i)"
      using \<open>selects k' r\<close> i len nth_mem [of i k']
      by (cases "k' ! i") (fastforce simp: selects_def list_all_iff)
    ultimately show "map snd k ! i = map snd k' ! i" using i len by simp
  qed
  then have "k = k'"
    using assms(1,2) by (metis valid_key_def zip_map_fst_snd)
  with assms(3) show False by simp
qed

lemma selects_new:
  assumes "valid_key cols k"
  shows "selects k (set_columns (k @ fs) null_row)"
proof -
  have "map_of (k @ fs) c = Some v \<and> v \<noteq> SNull" if "(c, v) \<in> set k" for c v
  proof -
    have "map_of k c = Some v" using that assms by (auto simp: valid_key_def)
    then show ?thesis using that assms(1) by (force simp: valid_key_def map_add_Some_iff)
  qed
  then show ?thesis by (auto simp: selects_def list_all_iff set_columns_def)
qed

lemma set_columns_twice: "set_columns g (set_columns f r) = set_columns (g @ f) r"
  by (auto simp: set_columns_def map_add_def split: option.split)

lemma set_columns_self: "set_columns (f @ f) r = set_columns f r"
  by (auto simp: set_columns_def map_add_def split: option.split)

interpretation rows:
  keyed_store "valid_key cols" "valid_fields cols" row_at upsert sql_delete overlay_row "\<lambda>f g. g @ f"
  for cols
proof
  fix k k' :: key and f g :: "(string \<times> sqlv) list" and s :: "sql_row list" and r :: "sql_row option"
  assume k: "valid_key cols k"
  show "row_at k (sql_delete k s) = None"
    by (simp add: row_at_def sql_delete_def find_filter_not)
  assume f: "valid_fields cols f"
  have upd: "row_at j (sql_update f k s) = map_option (\<lambda>r. if selects k r then set_columns f r else r) (row_at j s)"
    if "valid_key cols j" for j
    unfolding row_at_def sql_update_def
    using selects_set_columns [OF that f] by (intro find_map_same) simp
  have none: "length (filter (selects k) s) > 0 \<longleftrightarrow> row_at k s \<noteq> None"
    by (auto simp: row_at_def find_None_iff filter_empty_conv)
  show "row_at k (upsert k f s) = Some (overlay_row k f (row_at k s))"
  proof (cases "row_at k s")
    case None
    then show ?thesis
      using none selects_new [OF k]
      by (simp add: upsert_def sql_insert_def row_at_def find_append overlay_row_def)
  next
    case (Some r')
    then have "selects k r'" by (auto simp: row_at_def find_Some_iff)
    with Some none upd [OF k] show ?thesis by (simp add: upsert_def overlay_row_def)
  qed
  show "overlay_row k g (Some (overlay_row k f r)) = overlay_row k (g @ f) r"
    if g: "valid_fields cols g"
  proof (cases r)
    case None
    have "map_of g c = None" if "c \<in> fst ` set k" for c
      using that g k by (force simp: valid_fields_def valid_key_def map_of_eq_None_iff)
    then have "set_columns (g @ k @ f) null_row = set_columns (k @ g @ f) null_row"
      by (auto simp: set_columns_def map_add_def map_of_eq_None_iff fun_eq_iff split: option.split)
        (metis map_of_eq_None_iff option.distinct(1))+
    with None show ?thesis by (simp add: overlay_row_def set_columns_twice)
  qed (simp add: overlay_row_def set_columns_twice)
  assume k': "valid_key cols k'" and ne: "k \<noteq> k'"
  show "row_at k' (upsert k f s) = row_at k' s"
  proof (cases "length (filter (selects k) s) > 0")
    case True
    have "(if selects k r then set_columns f r else r) = r" if "row_at k' s = Some r" for r
      using that selects_exclusive [OF k' k] ne by (auto simp: row_at_def find_Some_iff)
    with True upd [OF k'] show ?thesis by (cases "row_at k' s") (simp_all add: upsert_def)
  next
    case False
    have "\<not> selects k' (set_columns (k @ f) null_row)"
      using selects_exclusive [OF k k' ne selects_new [OF k]] .
    with False show ?thesis
      by (simp add: upsert_def sql_insert_def row_at_def find_append split: option.split)
  qed
next
  fix k k' :: key and s :: "sql_row list"
  assume "valid_key cols k" "valid_key cols k'" "k \<noteq> k'"
  then show "row_at k' (sql_delete k s) = row_at k' s"
    unfolding row_at_def sql_delete_def
    using selects_exclusive [of cols k' k] by (intro find_filter_imp) blast
next
  fix k :: key and f :: "(string \<times> sqlv) list" and r :: "sql_row option"
  show "overlay_row k (f @ f) r = overlay_row k f r"
    by (auto simp: overlay_row_def set_columns_def map_add_def fun_eq_iff split: option.split)
qed (auto simp: valid_fields_def)

text \<open>An entry of a write set as an operation on the rows of its table.\<close>

definition entry_key :: "outside \<Rightarrow> string \<Rightarrow> write_op \<Rightarrow> key" where
  "entry_key x txid op = the (lit_fields (subst_fields x txid (w_key op)))"

definition entry_fields :: "outside \<Rightarrow> string \<Rightarrow> write_op \<Rightarrow> (string \<times> sqlv) list" where
  "entry_fields x txid op = the (lit_fields (subst_fields x txid (w_values op)))"

text \<open>
  The entries the core writes: the key gives the primary key columns of a known table, in
  that order and not null, no value repeats one of them, and every value has a literal.
\<close>

definition entry_ok :: "outside \<Rightarrow> string \<Rightarrow> write_op \<Rightarrow> bool" where
  "entry_ok x txid op \<longleftrightarrow>
     (case pk_columns (w_table op) of None \<Rightarrow> False
      | Some cols \<Rightarrow>
          lit_fields (subst_fields x txid (w_key op)) \<noteq> None \<and>
          lit_fields (subst_fields x txid (w_values op)) \<noteq> None \<and>
          valid_key cols (entry_key x txid op) \<and> valid_fields cols (entry_fields x txid op))"

lemma those_None: "those xs = None \<longleftrightarrow> None \<in> set xs"
  by (induction xs) (auto split: option.splits)

lemma those_ex: "(\<And>c. c \<in> set xs \<Longrightarrow> f c \<noteq> None) \<Longrightarrow> \<exists>ys. those (map f xs) = Some ys"
  using those_None [of "map f xs"] by fastforce

lemma lit_fields_Some:
  assumes "lit_fields fs = Some ls"
  shows "map fst ls = map fst fs" "\<And>k v. (k, v) \<in> set fs \<Longrightarrow> lit ft v \<noteq> None"
proof -
  show "map fst ls = map fst fs"
    using assms
  proof (induction fs arbitrary: ls)
    case (Cons f fs)
    then show ?case by (cases f) (auto simp: lit_fields_def split: option.splits)
  qed (simp add: lit_fields_def)
  fix k v assume "(k, v) \<in> set fs"
  moreover have "None \<notin> set (map (\<lambda>(k, v). map_option (Pair k) (lit_value v)) fs)"
    using assms those_None [of "map (\<lambda>(k, v). map_option (Pair k) (lit_value v)) fs"]
    by (simp add: lit_fields_def)
  ultimately have "lit_value v \<noteq> None" by force
  then show "lit ft v \<noteq> None" using lit_value_iff [of v ft] by simp
qed

lemma lit_fields_append:
  "lit_fields xs = Some a \<Longrightarrow> lit_fields ys = Some b \<Longrightarrow> lit_fields (xs @ ys) = Some (a @ b)"
proof (induction xs arbitrary: a)
  case (Cons f xs)
  then show ?case by (cases f) (auto simp: lit_fields_def split: option.splits)
qed (simp add: lit_fields_def)

lemma map_of_keys_id: "distinct (map fst kvs) \<Longrightarrow> map (\<lambda>c. (c, the (map_of kvs c))) (map fst kvs) = kvs"
  by (auto simp: comp_def intro!: map_idI)

lemma columns_and_values_Some:
  assumes "lit_fields fs = Some ls"
  shows "columns_and_values ft fs \<noteq> None"
proof -
  have "lit ft (the (map_of fs n)) \<noteq> None" if "n \<in> fst ` set fs" for n
    using that lit_fields_Some(2) [OF assms] map_of_SomeD by (metis domD dom_map_of_conv_image_fst option.sel)
  then have "\<exists>ys. those (map (\<lambda>n. lit ft (the (map_of fs n))) (sort (remdups (map fst fs)))) = Some ys"
    by (intro those_ex) auto
  then show ?thesis by (auto simp: columns_and_values_def Let_def)
qed

lemma statements_Some:
  assumes "lit_fields fs = Some ls"
  shows "\<exists>s. insert_sql ft tab fs = Some s" "\<exists>s. update_sql ft tab fs w = Some s"
  using columns_and_values_Some [OF assms, of ft] by (auto simp: insert_sql_def update_sql_def)

lemma where_text_Some:
  assumes "lit_fields key = Some ls" "map fst key = cols"
  shows "\<exists>s. where_text x cols key = Some s"
proof -
  have "lit (x_ftext x) (the (map_of key n)) \<noteq> None" if "n \<in> set cols" for n
    using that lit_fields_Some(2) [OF assms(1)] map_of_SomeD assms(2)
    by (metis domD dom_map_of_conv_image_fst list.set_map option.sel)
  then have "\<exists>ys. those (map (\<lambda>c. map_option (\<lambda>l. ident c @ '' = '' @ l)
      (lit (x_ftext x) (the (map_of key c)))) cols) = Some ys"
    by (intro those_ex) auto
  then show ?thesis by (auto simp: where_text_def)
qed

lemma find_key_column:
  "map fst key = cols \<Longrightarrow> find (\<lambda>c. map_of key c = None) cols = None"
  by (auto simp: find_None_iff map_of_eq_None_iff)

text \<open>An entry the engine accepts is the upsert or the delete of its row.\<close>

definition entry_run :: "outside \<Rightarrow> string \<Rightarrow> write_op \<Rightarrow> key \<times> (string \<times> sqlv) list option" where
  "entry_run x txid op =
     (entry_key x txid op, if w_delete op then None else Some (entry_fields x txid op))"

lemma apply_one_run:
  assumes "x_engine x = (\<lambda>_. None)" "entry_ok x txid op"
  shows "apply_one x txid t op =
    Inr (t(w_table op := rows.run1 (entry_run x txid op) (t (w_table op))))"
proof -
  define key where "key = subst_fields x txid (w_key op)"
  define vals where "vals = subst_fields x txid (w_values op)"
  obtain cols where cols: "pk_columns (w_table op) = Some cols"
    using assms(2) by (auto simp: entry_ok_def split: option.splits)
  obtain k f where k: "lit_fields key = Some k" and f: "lit_fields vals = Some f"
    and vk: "valid_key cols k" and vf: "valid_fields cols f"
    using assms(2) cols
    by (auto simp: entry_ok_def key_def vals_def entry_key_def entry_fields_def)
  have ek: "entry_key x txid op = k" and ef: "entry_fields x txid op = f"
    using k f by (simp_all add: entry_key_def entry_fields_def key_def vals_def)
  have fst_key: "map fst key = cols" and dist: "distinct cols"
    using vk lit_fields_Some(1) [OF k] by (auto simp: valid_key_def)
  have keq: "map (\<lambda>c. (c, the (map_of key c))) cols = key"
    using map_of_keys_id [of key] fst_key dist by simp
  obtain w where w: "where_text x cols key = Some w"
    using where_text_Some [OF k fst_key] by blast
  obtain ins where ins: "insert_sql (x_ftext x) (w_table op) (key @ vals) = Some ins"
    using statements_Some(1) [OF lit_fields_append [OF k f]] by blast
  obtain upd where upd: "update_sql (x_ftext x) (w_table op) vals w = Some upd"
    using statements_Some(2) [OF f] by blast
  have empty: "vals = [] \<longleftrightarrow> f = []"
    using lit_fields_Some(1) [OF f] by (metis map_is_Nil_conv)
  have none: "sql_update [] k rs = rs" for rs
    by (auto simp: sql_update_def set_columns_def intro!: map_idI)
  show ?thesis
    using k f w ins upd empty none
    by (simp add: apply_one_def Let_def cols key_def [symmetric] vals_def [symmetric] keq
        find_key_column [OF fst_key] run_sql_def assms(1) entry_run_def rows.run1_def ek ef
        upsert_def lit_fields_append)
qed

lemma apply_entries_run:
  assumes "x_engine x = (\<lambda>_. None)" "list_all (entry_ok x txid) ops"
  shows "\<exists>t'. apply_entries x txid i t ops = Inr t' \<and>
    (\<forall>tab. t' tab = rows.run (map (entry_run x txid) (filter (\<lambda>op. w_table op = tab) ops)) (t tab))"
  using assms(2)
proof (induction ops arbitrary: i t)
  case (Cons op ops)
  define t1 where "t1 = t(w_table op := rows.run1 (entry_run x txid op) (t (w_table op)))"
  have "apply_one x txid t op = Inr t1"
    using apply_one_run [OF assms(1), of txid op t] Cons.prems by (simp add: t1_def)
  moreover obtain t' where "apply_entries x txid (i + 1) t1 ops = Inr t'"
    "\<forall>tab. t' tab = rows.run (map (entry_run x txid) (filter (\<lambda>op. w_table op = tab) ops)) (t1 tab)"
    using Cons.IH [of "i + 1" t1] Cons.prems by auto
  ultimately show ?case by (auto simp: rows.run_def t1_def)
qed (simp add: rows.run_def)

lemma entries_valid:
  assumes "list_all (entry_ok x txid) ops" "pk_columns tab = Some cols"
  shows "list_all (rows.valid_op cols) (map (entry_run x txid) (filter (\<lambda>op. w_table op = tab) ops))"
  using assms by (auto simp: list_all_iff rows.valid_op_def entry_run_def entry_ok_def)

lemma overlay_columns:
  assumes "valid_key cols k" "r \<noteq> None \<longrightarrow> selects k (the r)"
  shows "map_of fs c = Some v \<Longrightarrow> valid_fields cols fs \<Longrightarrow> overlay_row k fs r c = v"
    and "map_of k c = Some v \<Longrightarrow> valid_fields cols fs \<Longrightarrow> overlay_row k fs r c = v"
proof -
  assume f: "map_of fs c = Some v" "valid_fields cols fs"
  then have "c \<notin> set cols" by (metis domI dom_map_of_conv_image_fst valid_fields_def)
  then have "map_of k c = None" using assms(1) by (force simp: valid_key_def map_of_eq_None_iff)
  with f show "overlay_row k fs r c = v"
    by (auto simp: overlay_row_def set_columns_def map_add_def split: option.split)
next
  assume k: "map_of k c = Some v" "valid_fields cols fs"
  then have kc: "(c, v) \<in> set k" by (rule_tac map_of_SomeD)
  then have "c \<in> set cols" using assms(1) by (force simp: valid_key_def)
  then have "map_of fs c = None" using k(2) by (auto simp: valid_fields_def map_of_eq_None_iff)
  moreover have "the r c = v" if "r \<noteq> None"
    using that assms(2) kc by (auto simp: selects_def list_all_iff)
  ultimately show "overlay_row k fs r c = v"
    using k(1) by (auto simp: overlay_row_def set_columns_def map_add_def split: option.split)
qed

text \<open>What a successful write leaves to be read.\<close>

lemma written_row:
  assumes "x_engine x = (\<lambda>_. None)" "entry_ok x txid op" "\<not> w_delete op" "apply_one x txid t op = Inr t'"
  shows "\<exists>row. row_at (entry_key x txid op) (t' (w_table op)) = Some row \<and>
    (\<forall>c v. map_of (entry_fields x txid op) c = Some v \<longrightarrow> row c = v) \<and>
    (\<forall>c v. map_of (entry_key x txid op) c = Some v \<longrightarrow> row c = v)"
proof -
  obtain cols where vk: "valid_key cols (entry_key x txid op)" and vf: "valid_fields cols (entry_fields x txid op)"
    using assms(2) by (auto simp: entry_ok_def split: option.splits)
  let ?k = "entry_key x txid op" and ?r = "row_at (entry_key x txid op) (t (w_table op))"
  have t': "t' (w_table op) = upsert ?k (entry_fields x txid op) (t (w_table op))"
    using apply_one_run [OF assms(1,2), of t] assms(3,4) by (auto simp: entry_run_def rows.run1_def)
  have sel: "?r \<noteq> None \<longrightarrow> selects ?k (the ?r)"
    unfolding row_at_def by (metis find_Some_iff option.collapse)
  show ?thesis
    using rows.get_put [OF vk vf] overlay_columns [OF vk sel _ vf]
    by (intro exI [of _ "overlay_row ?k (entry_fields x txid op) ?r"]) (simp add: t')
qed

lemma apply_one_other: "apply_one x txid t op = Inr t' \<Longrightarrow> tab \<noteq> w_table op \<Longrightarrow> t' tab = t tab"
  by (auto simp: apply_one_def run_sql_def Let_def split: option.splits if_splits)

lemma apply_refs_other: "apply_refs x txid i t rs = Inr t' \<Longrightarrow> tab \<noteq> ''tx_refs'' \<Longrightarrow> t' tab = t tab"
proof (induction rs arbitrary: i t)
  case (Cons r rs)
  then obtain t1 where "apply_one x txid t (ref_op txid i r) = Inr t1" "apply_refs x txid (i + 1) t1 rs = Inr t'"
    by (auto split: sum.splits)
  then show ?case using Cons apply_one_other [of x txid t "ref_op txid i r" t1 tab] by (auto simp: ref_op_def)
qed simp

text \<open>A commit that changed the register, with the tables it left.\<close>

lemma commit_changed:
  assumes "commit x tenant now reg env ops = (Inr row, reg')" "reg' \<noteq> reg"
  shows "apply_all x (t_txid row) (reg_tables reg) (fill_envelope tenant now env) ops = Inr (reg_tables reg')"
    "reg_log reg' = reg_log reg @ [row]" "t_envelope row = fill_envelope tenant now env" "t_write_set row = ops"
proof -
  have "apply_all x (t_txid row) (reg_tables reg) (fill_envelope tenant now env) ops = Inr (reg_tables reg') \<and>
    reg_log reg' = reg_log reg @ [row] \<and> t_envelope row = fill_envelope tenant now env \<and> t_write_set row = ops"
    by (cases rule: commit_cases [of x tenant now reg env ops]) (use assms in \<open>auto simp: tx_row_of_def\<close>)
  then show "apply_all x (t_txid row) (reg_tables reg) (fill_envelope tenant now env) ops = Inr (reg_tables reg')"
    "reg_log reg' = reg_log reg @ [row]" "t_envelope row = fill_envelope tenant now env" "t_write_set row = ops"
    by simp_all
qed

lemma commit_one:
  assumes "commit x tenant now reg env [op] = (Inr row, reg')" "reg' \<noteq> reg" "w_table op \<noteq> ''tx_refs''"
  shows "\<exists>t'. apply_one x (t_txid row) (reg_tables reg) op = Inr t' \<and>
    reg_tables reg' (w_table op) = t' (w_table op)"
  using commit_changed(1) [OF assms(1,2)] assms(3)
  by (auto simp: apply_all_def bind_res_Inr_iff dest: apply_refs_other split: sum.splits)

text \<open>When a commit goes through: every guard passes and the engine accepts.\<close>

lemma write_json_total: "write_json Some v \<noteq> None"
proof (induction v)
  case (JArr es)
  then show ?case using those_ex [of es "write_json Some"] by auto
next
  case (JObj kvs)
  let ?ws = "sort_key fst (map (\<lambda>(k, v). (k, write_json Some v)) kvs)"
  have "\<exists>ts. those (map (\<lambda>(k, w). map_option (\<lambda>t. write_string k @ '':'' @ t) w) ?ws) = Some ts"
  proof (rule those_ex)
    fix kw assume "kw \<in> set ?ws"
    then obtain k v where "(k, v) \<in> set kvs" "kw = (k, write_json Some v)" by auto
    with JObj [of "(k, v)" v] show "(\<lambda>(k, w). map_option (\<lambda>t. write_string k @ '':'' @ t) w) kw \<noteq> None" by auto
  qed
  then show ?case by auto
qed (auto simp: write_number_def split: option.split)

lemma commit_goes_through:
  assumes "x_engine x = (\<lambda>_. None)" "x_fmt x = Some" "validate_envelope (fill_envelope tenant now env) = None"
    and "check_ops ops = None" "\<And>txid. list_all (entry_ok x txid) ops" "env_refs env = []" "reg_log reg = []"
  shows "\<exists>row reg'. commit x tenant now reg env ops = (Inr row, reg') \<and> reg' \<noteq> reg"
proof -
  obtain a b where ab: "marshal_envelope x (fill_envelope tenant now env) = Some a" "marshal_ops x ops = Some b"
    using write_json_total assms(2) unfolding marshal_envelope_def marshal_ops_def by (metis option.exhaust)
  have refs: "env_refs (fill_envelope tenant now env) = []" using assms(6) by (simp add: fill_envelope_def Let_def)
  obtain t' where "apply_all x (txid_of (x_sha x) a b) (reg_tables reg) (fill_envelope tenant now env) ops = Inr t'"
    using apply_entries_run [OF assms(1,5), of "txid_of (x_sha x) a b" 0 "reg_tables reg"] refs
    by (auto simp: apply_all_def)
  then obtain row reg' where c: "commit x tenant now reg env ops = (Inr row, reg')" "reg_version reg' = reg_version reg + 1"
    using assms(1,3,4,7) ab by (simp add: commit_def Let_def find_tx_def)
  then have "reg' \<noteq> reg" by auto
  with c(1) show ?thesis by blast
qed

section \<open>Properties\<close>

text \<open>
  Claim C32. Replaying a write set converges: applying its entries again to the tables
  they produced succeeds and leaves the row under every primary key of every table as it
  was.
\<close>

theorem replay_converges:
  assumes "x_engine x = (\<lambda>_. None)" "list_all (entry_ok x txid) ops"
    and "apply_entries x txid i t ops = Inr t'"
  shows "\<exists>t''. apply_entries x txid j t' ops = Inr t'' \<and>
    (\<forall>tab cols k. pk_columns tab = Some cols \<longrightarrow> valid_key cols k \<longrightarrow>
      row_at k (t'' tab) = row_at k (t' tab))"
proof -
  obtain t'' where t'': "apply_entries x txid j t' ops = Inr t''"
    "\<forall>tab. t'' tab = rows.run (map (entry_run x txid) (filter (\<lambda>op. w_table op = tab) ops)) (t' tab)"
    using apply_entries_run [OF assms(1,2)] by blast
  have t': "\<forall>tab. t' tab = rows.run (map (entry_run x txid) (filter (\<lambda>op. w_table op = tab) ops)) (t tab)"
    using apply_entries_run [OF assms(1,2), of i t] assms(3) by auto
  have "row_at k (t'' tab) = row_at k (t' tab)" if "pk_columns tab = Some cols" "valid_key cols k" for tab cols k
    using rows.twice_is_once [OF entries_valid [OF assms(2) that(1)] that(2), of "t tab"] t' t'' by simp
  with t'' show ?thesis by blast
qed

definition sample_outside :: outside where
  "sample_outside =
     \<lparr>x_sha = (\<lambda>s. ''h''), x_b64 = (\<lambda>s. s), x_unb64 = Some, x_ftext = (\<lambda>_. ''0''),
      x_parse_float = (\<lambda>_. 0), x_fmt = Some, x_engine = (\<lambda>_. None), x_root = (\<lambda>r es. r @ concat es)\<rparr>"

definition sample_ops :: "write_op list" where
  "sample_ops =
     [\<lparr>w_table = ''states'', w_key = [(''subject'', VStr ''api'')],
       w_values = [(''verdict'', VStr ''down''), (''since'', VInt64 7)], w_delete = False\<rparr>,
      \<lparr>w_table = ''states'', w_key = [(''subject'', VStr ''web'')], w_values = [], w_delete = True\<rparr>]"

lemma sample_entries_ok: "list_all (entry_ok sample_outside txid) sample_ops"
  by (simp add: sample_ops_def entry_ok_def pk_columns_def subst_fields_def substitute_def
      TxIDPlaceholder_def lit_fields_def entry_key_def entry_fields_def valid_key_def valid_fields_def)

theorem replay_converges_witness:
  "\<exists>t' t''. apply_entries sample_outside ''t1'' 0 (\<lambda>_. []) sample_ops = Inr t' \<and>
     apply_entries sample_outside ''t1'' 0 t' sample_ops = Inr t'' \<and>
     row_at [(''subject'', SStr ''api'')] (t'' ''states'') = row_at [(''subject'', SStr ''api'')] (t' ''states'')"
proof -
  have engine: "x_engine sample_outside = (\<lambda>_. None)" by (simp add: sample_outside_def)
  obtain t' where t': "apply_entries sample_outside ''t1'' 0 (\<lambda>_. []) sample_ops = Inr t'"
    using apply_entries_run [OF engine sample_entries_ok] by blast
  have "pk_columns ''states'' = Some [''subject'']" by (simp add: pk_columns_def)
  moreover have "valid_key [''subject''] [(''subject'', SStr ''api'')]" by (simp add: valid_key_def)
  ultimately show ?thesis
    using replay_converges [OF engine sample_entries_ok t', of 0] t' by blast
qed

text \<open>
  An accepted entry writes exactly its row: the row under its key becomes the
  old row overlaid with the entry's values (or a new row of the key and the values, or
  none after a delete), and every other key and every other table keeps its row.
\<close>

lemma entry_writes_one_row:
  assumes "x_engine x = (\<lambda>_. None)" "entry_ok x txid op" "pk_columns (w_table op) = Some cols"
  shows "\<exists>t'. apply_one x txid t op = Inr t' \<and>
    row_at (entry_key x txid op) (t' (w_table op)) =
      (if w_delete op then None
       else Some (overlay_row (entry_key x txid op) (entry_fields x txid op)
                   (row_at (entry_key x txid op) (t (w_table op))))) \<and>
    (\<forall>k. valid_key cols k \<longrightarrow> k \<noteq> entry_key x txid op \<longrightarrow>
      row_at k (t' (w_table op)) = row_at k (t (w_table op))) \<and>
    (\<forall>tab. tab \<noteq> w_table op \<longrightarrow> t' tab = t tab)"
proof -
  have ok: "rows.valid_op cols (entry_run x txid op)"
    using entries_valid [of x txid "[op]" "w_table op" cols] assms(2,3) by simp
  then have k: "valid_key cols (entry_key x txid op)"
    and f: "\<not> w_delete op \<Longrightarrow> valid_fields cols (entry_fields x txid op)"
    by (auto simp: rows.valid_op_def entry_run_def)
  show ?thesis
    using apply_one_run [OF assms(1,2), of t] k f
    by (auto simp: rows.run1_def entry_run_def rows.get_put [OF k] rows.get_put_other [OF k]
        rows.get_del [OF k] rows.get_del_other [OF k])
qed

lemma validate_refs_iff:
  "validate_refs rs = None \<longleftrightarrow> (\<forall>r \<in> set rs. ref_type r \<in> set ref_types \<and> ref_target r \<noteq> [])"
  by (induction rs) auto

lemma check_ops_iff:
  "check_ops ops = None \<longleftrightarrow> (\<forall>op \<in> set ops. pk_columns (w_table op) \<noteq> None \<and> w_key op \<noteq> [])"
  by (induction ops) auto

text \<open>
  What an envelope must say: \<open>Validate\<close> accepts exactly the envelopes with a
  kind, a tenant (except for the instance's own runtime events), an author acting in a
  role, a positive time, a summary line of 1 to 72 bytes that does not end in a full stop,
  and references of a known type with a target.
\<close>

lemma envelope_accepted_iff:
  "validate_envelope e = None \<longleftrightarrow>
     env_kind e \<noteq> [] \<and> (env_tenant e \<noteq> [] \<or> env_kind e = KindRuntimeEvent) \<and>
     au_sub (env_author e) \<noteq> [] \<and> au_role (env_author e) \<noteq> [] \<and> 0 < env_timestamp e \<and>
     (let s = trim_space (msg_summary (env_message e))
      in s \<noteq> [] \<and> length s \<le> MaxSummary \<and> \<not> has_suffix s ''.'') \<and>
     (\<forall>r \<in> set (env_refs e). ref_type r \<in> set ref_types \<and> ref_target r \<noteq> [])"
  by (auto simp: validate_envelope_def Let_def validate_refs_iff)

section \<open>The register over time\<close>

text \<open>
  The registers that commits can produce from a fresh one at version \<open>v\<close>; the engine
  may refuse any statement at any time, and time and callers are arbitrary.
\<close>

inductive reachable :: "int \<Rightarrow> register \<Rightarrow> bool" for v where
  fresh: "reachable v \<lparr>reg_tables = t, reg_log = [], reg_root = r, reg_version = v\<rparr>"
| step: "reachable v reg \<Longrightarrow> reachable v (snd (commit x tenant now reg env ops))"

definition ledger_inv :: "int \<Rightarrow> register \<Rightarrow> bool" where
  "ledger_inv v reg \<longleftrightarrow>
     distinct (map t_txid (reg_log reg)) \<and>
     map t_version_before (reg_log reg) = map (\<lambda>i. v + int i) [0..<length (reg_log reg)] \<and>
     map t_version_after (reg_log reg) = map (\<lambda>i. v + int i + 1) [0..<length (reg_log reg)] \<and>
     reg_version reg = v + int (length (reg_log reg)) \<and>
     (\<forall>t \<in> set (reg_log reg). validate_envelope (t_envelope t) = None \<and>
       (\<forall>op \<in> set (t_write_set t). pk_columns (w_table op) \<noteq> None \<and> w_key op \<noteq> []))"

lemma commit_inv:
  assumes "ledger_inv v reg"
  shows "ledger_inv v (snd (commit x tenant now reg env ops))"
proof (cases rule: commit_cases [of x tenant now reg env ops])
  case (committed envelope write_set t)
  have new: "txid_of (x_sha x) envelope write_set \<notin> t_txid ` set (reg_log reg)"
    using committed(5) by (auto simp: find_tx_def find_None_iff)
  have "\<forall>op \<in> set ops. pk_columns (w_table op) \<noteq> None \<and> w_key op \<noteq> []"
    using committed(2) by (simp add: check_ops_iff)
  with assms committed(1) new show ?thesis
    unfolding committed(7) ledger_inv_def by (simp add: tx_row_of_def)
qed (use assms in simp_all)

text \<open>
  Claim C12. In every register commits can reach, the transactions table is a gap-free
  history: one transaction for each version, in order, with distinct ids, each with a
  valid envelope and a write set on known tables under a key, and the register's version
  counts them.
\<close>

theorem history_is_gap_free:
  assumes "reachable v reg"
  shows "ledger_inv v reg"
  using assms
proof (induction rule: reachable.induct)
  case (fresh t r)
  then show ?case by (simp add: ledger_inv_def)
qed (rule commit_inv)

definition sample_envelope :: envelope where
  "sample_envelope =
     \<lparr>env_kind = ''state.change'', env_tenant = ''acme'', env_service = ''shop'', env_object_ids = [],
      env_author = system_author, env_timestamp = 7, env_message = ''API is down'', env_refs = []\<rparr>"

definition sample_register :: register where
  "sample_register = \<lparr>reg_tables = (\<lambda>_. []), reg_log = [], reg_root = ''r'', reg_version = 5\<rparr>"

theorem history_is_gap_free_witness:
  "ledger_inv 5 (snd (commit sample_outside ''acme'' 7 sample_register sample_envelope sample_ops))"
  by (rule history_is_gap_free [OF reachable.step])
    (simp add: sample_register_def reachable.fresh)

text \<open>
  Claim C11. A commit is all or nothing: an error, at whatever statement, leaves the
  register as it was; otherwise it is either the transaction already recorded under the
  same id, with the register unchanged, or exactly one new version with one new
  transaction at the end of the log that names the root and version it started from.
\<close>

theorem commit_is_atomic:
  "case commit x tenant now reg env ops of
     (Inl e, reg') \<Rightarrow> reg' = reg
   | (Inr row, reg') \<Rightarrow>
       (row \<in> set (reg_log reg) \<and> reg' = reg) \<or>
       (t_txid row \<notin> t_txid ` set (reg_log reg) \<and> reg_log reg' = reg_log reg @ [row] \<and>
        reg_version reg' = reg_version reg + 1 \<and> t_version_before row = reg_version reg \<and>
        t_root_before row = reg_root reg \<and> t_write_set row = ops \<and>
        apply_all x (t_txid row) (reg_tables reg) (t_envelope row) ops = Inr (reg_tables reg'))"
proof (cases rule: commit_cases [of x tenant now reg env ops])
  case (committed envelope write_set t)
  have "txid_of (x_sha x) envelope write_set \<notin> t_txid ` set (reg_log reg)"
    using committed(5) by (auto simp: find_tx_def find_None_iff)
  then show ?thesis
    unfolding committed(7) using committed(6) by (simp add: tx_row_of_def)
qed simp_all

lemma commit_found:
  assumes "validate_envelope (fill_envelope tenant now env) = None" "check_ops ops = None"
    and "marshal_envelope x (fill_envelope tenant now env) = Some a" "marshal_ops x ops = Some b"
    and "find_tx (txid_of (x_sha x) a b) reg = Some row"
  shows "commit x tenant now reg env ops = (Inr row, reg)"
  using assms by (simp add: commit_def Let_def)

lemma find_tx_append:
  "find_tx (t_txid row) reg = None \<Longrightarrow> find_tx (t_txid row) (reg\<lparr>reg_log := reg_log reg @ [row]\<rparr>) = Some row"
  by (simp add: find_tx_def find_append)

text \<open>
  A retried request is not a second change: committing the same envelope and the
  same write set again, at any later time and whatever the engine says, returns the
  transaction already recorded and leaves the register as it is.
\<close>

lemma retry_is_idempotent:
  assumes "commit x tenant now reg env ops = (Inr row, reg')" "env_timestamp env \<noteq> 0"
  shows "commit (x\<lparr>x_engine := engine\<rparr>) tenant now' reg' env ops = (Inr row, reg')"
proof -
  have fill: "fill_envelope tenant now' env = fill_envelope tenant now env"
    using assms(2) by (simp add: fill_envelope_def Let_def)
  have enc: "marshal_envelope (x\<lparr>x_engine := engine\<rparr>) e = marshal_envelope x e" for e
    by (simp add: marshal_envelope_def)
  have vj: "val_json (x\<lparr>x_engine := engine\<rparr>) v = val_json x v" for v
    by (induction v) (auto intro!: map_cong)
  have encw: "marshal_ops (x\<lparr>x_engine := engine\<rparr>) ops = marshal_ops x ops"
    by (simp add: marshal_ops_def op_json_def [abs_def] fields_json_def vj)
  show ?thesis
  proof (cases rule: commit_cases [of x tenant now reg env ops])
    case (retry a b old)
    then show ?thesis
      using assms(1) by (intro commit_found [of _ _ _ _ _ a b]) (simp_all add: fill enc encw)
  next
    case (committed a b t)
    define row' where "row' = tx_row_of (txid_of (x_sha x) a b) (fill_envelope tenant now env) ops reg"
    have eqs: "row = row'" "reg' = reg\<lparr>reg_tables := t, reg_log := reg_log reg @ [row'],
        reg_root := x_root x (reg_root reg) [a, b], reg_version := reg_version reg + 1\<rparr>"
      using assms(1) committed(7) unfolding row'_def by auto
    have "t_txid row' = txid_of (x_sha x) a b" by (simp add: row'_def tx_row_of_def)
    then have "find_tx (txid_of (x_sha x) a b) reg' = Some row"
      using committed(5) by (simp add: eqs find_tx_def find_append)
    with committed show ?thesis
      by (intro commit_found [of _ _ _ _ _ a b]) (simp_all add: fill enc encw)
  qed (use assms(1) in simp)
qed

lemma sample_commit: "\<not> isl (fst (commit sample_outside ''acme'' 7 sample_register sample_envelope []))"
  by code_simp

end
