(* ===== verification/Detect.thy ===== *)
theory Detect
  imports Ledger "HOL-Library.AList"
begin

text \<open>
  Detection (\<open>internal/core/detect.go\<close>): how a reading moves a monitor's state, how the
  monitors of a component are rolled up, and the incidents, alerts and write operations a
  change of state causes. Rows are read from the tables of the register and written as
  entries of a write set.
\<close>

section \<open>Data\<close>

abbreviation Up :: string where "Up \<equiv> ''up''"
abbreviation Degraded :: string where "Degraded \<equiv> ''degraded''"
abbreviation Down :: string where "Down \<equiv> ''down''"
abbreviation Error :: string where "Error \<equiv> ''error''"

record mstate =
  st_subject :: string
  st_kind :: string
  st_verdict :: string
  st_since :: int
  st_consecutive :: int
  st_raw :: string
  st_updated :: int
  st_flaps :: int
  st_flaps_since :: int
  st_incident :: string

text \<open>A monitor's row; its viewport and steps are JSON the detection does not read.\<close>

record monitor =
  mon_id :: string
  mon_service :: string
  mon_component :: string
  mon_name :: string
  mon_version :: int
  mon_enabled :: bool
  mon_interval :: int
  mon_timeout :: int
  mon_failure :: int
  mon_recovery :: int
  mon_budget :: int
  mon_engine :: string
  mon_created :: int
  mon_updated :: int

record component =
  cmp_id :: string
  cmp_service :: string
  cmp_parent :: string
  cmp_name :: string
  cmp_description :: string
  cmp_weight :: int
  cmp_rollup :: string
  cmp_position :: int
  cmp_showcase :: bool
  cmp_created :: int
  cmp_updated :: int

text \<open>A reading; its steps and captures are JSON.\<close>

record sample =
  sm_id :: string
  sm_monitor :: string
  sm_version :: int
  sm_component :: string
  sm_service :: string
  sm_vantage :: string
  sm_started :: int
  sm_duration :: int
  sm_verdict :: string
  sm_failed_step :: string
  sm_error_class :: string
  sm_detail :: string
  sm_steps :: json
  sm_manual :: bool
  sm_maint :: bool
  sm_captures :: json

definition StateMonitor :: string where "StateMonitor = ''monitor''"
definition StateComponent :: string where "StateComponent = ''component''"

text \<open>\<open>verdictRank\<close>, zero for a verdict it does not list, and \<open>WorseVerdict\<close>.\<close>

definition verdict_rank :: "string \<Rightarrow> nat" where
  "verdict_rank v = (if v = Error then 1 else if v = Degraded then 2 else if v = Down then 3 else 0)"

definition worse_verdict :: "string \<Rightarrow> string \<Rightarrow> string" where
  "worse_verdict a b = (if verdict_rank b > verdict_rank a then b else a)"

section \<open>One monitor\<close>

text \<open>\<open>advanceMonitor\<close>.\<close>

definition advance_monitor :: "monitor \<Rightarrow> string \<Rightarrow> int \<Rightarrow> mstate \<Rightarrow> mstate" where
  "advance_monitor mon verdict now st0 =
     (let st1 = st0\<lparr>st_updated := now\<rparr> in
      if verdict = Error then st1\<lparr>st_raw := Error\<rparr>
      else
        let st = (if st_raw st1 = verdict then st1\<lparr>st_consecutive := i64 (st_consecutive st1 + 1)\<rparr>
                  else st1\<lparr>st_raw := verdict, st_consecutive := 1\<rparr>)
        in if st_verdict st \<noteq> Down \<and> verdict = Down then
             (if st_consecutive st \<ge> mon_failure mon then st\<lparr>st_verdict := Down, st_since := now\<rparr> else st)
           else if st_verdict st = Down \<and> verdict \<noteq> Down then
             (if st_consecutive st \<ge> mon_recovery mon then st\<lparr>st_verdict := verdict, st_since := now\<rparr> else st)
           else if st_verdict st \<noteq> verdict then st\<lparr>st_verdict := verdict, st_since := now\<rparr>
           else st)"

section \<open>Rows\<close>

definition state_from_row :: "outside \<Rightarrow> sql_row \<Rightarrow> mstate" where
  "state_from_row x r =
     \<lparr>st_subject = row_str (x_ftext x) r ''subject'', st_kind = row_str (x_ftext x) r ''kind'',
      st_verdict = row_str (x_ftext x) r ''verdict'', st_since = row_int r ''since'',
      st_consecutive = row_int r ''consecutive'', st_raw = row_str (x_ftext x) r ''raw'',
      st_updated = row_int r ''updated_at'', st_flaps = row_int r ''flaps'',
      st_flaps_since = row_int r ''flaps_since'', st_incident = row_str (x_ftext x) r ''incident_id''\<rparr>"

definition read_state :: "outside \<Rightarrow> tables \<Rightarrow> string \<Rightarrow> mstate option" where
  "read_state x t subject =
     map_option (state_from_row x) (row_at [(''subject'', SStr subject)] (t ''states''))"

definition state_op :: "mstate \<Rightarrow> write_op" where
  "state_op st =
     \<lparr>w_table = ''states'', w_key = [(''subject'', VStr (st_subject st))],
      w_values =
        [(''kind'', VStr (st_kind st)), (''verdict'', VStr (st_verdict st)), (''raw'', VStr (st_raw st)),
         (''since'', VInt64 (st_since st)), (''consecutive'', VInt (st_consecutive st)),
         (''flaps'', VInt (st_flaps st)), (''flaps_since'', VInt64 (st_flaps_since st)),
         (''incident_id'', VStr (st_incident st)), (''updated_at'', VInt64 (st_updated st))],
      w_delete = False\<rparr>"

definition component_from_row :: "outside \<Rightarrow> sql_row \<Rightarrow> component" where
  "component_from_row x r =
     \<lparr>cmp_id = row_str (x_ftext x) r ''id'', cmp_service = row_str (x_ftext x) r ''service_id'',
      cmp_parent = row_str (x_ftext x) r ''parent_id'', cmp_name = row_str (x_ftext x) r ''name'',
      cmp_description = row_str (x_ftext x) r ''description'', cmp_weight = row_int r ''user_weight'',
      cmp_rollup = row_str (x_ftext x) r ''rollup'', cmp_position = row_int r ''sort_order'',
      cmp_showcase = row_bool r ''showcase'', cmp_created = row_int r ''created_at'',
      cmp_updated = row_int r ''updated_at''\<rparr>"

definition read_component :: "outside \<Rightarrow> tables \<Rightarrow> string \<Rightarrow> component option" where
  "read_component x t i =
     (if i = [] then None
      else map_option (component_from_row x) (row_at [(''id'', SStr i)] (t ''components'')))"

definition row_uint :: "sql_row \<Rightarrow> string \<Rightarrow> int" where
  "row_uint r col = (case r col of SInt i \<Rightarrow> (if i < 0 then 0 else i)
     | _ \<Rightarrow> (let n = as_int (r col) in if n < 0 then 0 else n))"

definition monitor_from_row :: "outside \<Rightarrow> sql_row \<Rightarrow> monitor" where
  "monitor_from_row x r =
     \<lparr>mon_id = row_str (x_ftext x) r ''id'', mon_service = row_str (x_ftext x) r ''service_id'',
      mon_component = row_str (x_ftext x) r ''component_id'', mon_name = row_str (x_ftext x) r ''name'',
      mon_version = row_uint r ''version'', mon_enabled = row_bool r ''enabled'',
      mon_interval = row_int r ''interval_seconds'', mon_timeout = row_int r ''timeout_seconds'',
      mon_failure = row_int r ''failure_threshold'', mon_recovery = row_int r ''recovery_threshold'',
      mon_budget = row_int r ''latency_budget_ms'', mon_engine = row_str (x_ftext x) r ''engine'',
      mon_created = row_int r ''created_at'', mon_updated = row_int r ''updated_at''\<rparr>"

definition read_monitor :: "outside \<Rightarrow> tables \<Rightarrow> string \<Rightarrow> monitor option" where
  "read_monitor x t i =
     (if i = [] then None
      else map_option (monitor_from_row x) (row_at [(''id'', SStr i)] (t ''monitors'')))"

section \<open>Identifiers, alerts and incidents\<close>

text \<open>
  \<open>NewID\<close> draws random bytes: the supply \<open>ids\<close> is a parameter, the counter says how
  many were drawn.
\<close>

definition new_id :: "(nat \<Rightarrow> string) \<Rightarrow> string \<Rightarrow> nat \<Rightarrow> string" where
  "new_id ids prefix n = prefix @ ''_'' @ ids n"

record alert =
  al_id :: string
  al_service :: string
  al_event :: string
  al_subject :: string
  al_dedup :: string
  al_payload :: json
  al_created :: int

abbreviation EventComponentDown :: string where "EventComponentDown \<equiv> ''component.down''"
abbreviation EventComponentUp :: string where "EventComponentUp \<equiv> ''component.up''"
abbreviation EventFlapping :: string where "EventFlapping \<equiv> ''component.flapping''"

definition flapWindow :: int where "flapWindow = 3600"
definition flapThreshold :: int where "flapThreshold = 6"

text \<open>\<open>raise\<close>, at the root and version the ledger has.\<close>

definition raise_alert :: "outside \<Rightarrow> string \<Rightarrow> string \<times> int \<Rightarrow> string \<Rightarrow> string \<Rightarrow> string \<Rightarrow> string \<Rightarrow>
    (string \<times> json) list \<Rightarrow> int \<Rightarrow> (alert \<times> write_op) option" where
  "raise_alert x i head service event subject dedup payload now =
     map_option (\<lambda>body.
       (\<lparr>al_id = i, al_service = service, al_event = event, al_subject = subject, al_dedup = dedup,
         al_payload = JObj payload, al_created = now\<rparr>,
        \<lparr>w_table = ''alerts'', w_key = [(''id'', VStr i)],
         w_values =
           [(''service_id'', VStr service), (''event_type'', VStr event), (''subject'', VStr subject),
            (''dedup_key'', VStr dedup), (''payload'', VBinary body), (''created_at'', VInt64 now),
            (''ledger_root'', VStr (fst head)), (''ledger_version'', VUint64 (snd head))],
         w_delete = False\<rparr>))
     (write_json (x_fmt x) (JObj payload))"

text \<open>
  The \<open>LIKE\<close> of SQL: \<open>%\<close> stands for any text, \<open>_\<close> for any character, a
  backslash makes the next character literal.
\<close>

fun sql_like :: "string \<Rightarrow> string \<Rightarrow> bool" where
  "sql_like [] s = (s = [])"
| "sql_like (p # ps) s =
     (if p = CHR ''%'' then sql_like ps s \<or> (case s of [] \<Rightarrow> False | _ # s' \<Rightarrow> sql_like (p # ps) s')
      else if p = CHR 92 then
        (case ps of [] \<Rightarrow> s = [p]
         | q # qs \<Rightarrow> (case s of [] \<Rightarrow> False | c # s' \<Rightarrow> c = q \<and> sql_like qs s'))
      else (case s of [] \<Rightarrow> False | c # s' \<Rightarrow> (p = CHR ''_'' \<or> c = p) \<and> sql_like ps s'))"

definition csv :: "string list \<Rightarrow> string" where
  "csv xs = str_join '','' xs"

definition open_incidents :: "outside \<Rightarrow> tables \<Rightarrow> component \<Rightarrow> sql_row list" where
  "open_incidents x t c =
     sort_key (\<lambda>r. - row_int r ''opened_at'')
       (filter (\<lambda>r. r ''service_id'' = SStr (cmp_service c) \<and>
           r ''status'' \<noteq> SNull \<and> r ''status'' \<noteq> SStr ''resolved'' \<and>
           (case r ''components'' of SStr s \<Rightarrow> sql_like (''%'' @ cmp_id c @ ''%'') s | _ \<Rightarrow> False))
         (t ''incidents''))"

definition incident_update_op :: "string \<Rightarrow> string \<Rightarrow> string \<Rightarrow> string \<Rightarrow> int \<Rightarrow> write_op" where
  "incident_update_op i incident status body now =
     \<lparr>w_table = ''incident_updates'', w_key = [(''id'', VStr i)],
      w_values =
        [(''incident_id'', VStr incident), (''status'', VStr status), (''body'', VStr body),
         (''author_sub'', VStr ''system''), (''author_display'', VStr ''Monitor''),
         (''author_role'', VStr ''system''), (''created_at'', VInt64 now),
         (''txid'', VStr TxIDPlaceholder)],
      w_delete = False\<rparr>"

text \<open>
  \<open>openAutoIncident\<close>. The samples are ranged over in a map's order, here the order of
  the list.
\<close>

definition open_auto_incident :: "outside \<Rightarrow> (nat \<Rightarrow> string) \<Rightarrow> nat \<Rightarrow> tables \<Rightarrow> component \<Rightarrow> sample list \<Rightarrow> int \<Rightarrow>
    string \<times> write_op list \<times> nat" where
  "open_auto_incident x ids n t c samples now =
     (case open_incidents x t c of
        row # _ \<Rightarrow> (row_str (x_ftext x) row ''id'', [], n)
      | [] \<Rightarrow>
          let i = new_id ids ''inc'' n;
              update_id = new_id ids ''iup'' (n + 1);
              mine = filter (\<lambda>s. sm_component s = cmp_id c) samples;
              triggers = sort (map sm_id mine);
              detail = foldl (\<lambda>d s. if d = [] then sm_detail s else d) [] mine;
              title = cmp_name c @ '' is not responding'';
              body = ''The monitor watching '' @ cmp_name c @
                '' has failed its threshold of consecutive checks.'' @
                (if detail \<noteq> [] then '' The last failure was: '' @ detail else [])
          in (i,
              [\<lparr>w_table = ''incidents'', w_key = [(''id'', VStr i)],
                w_values =
                  [(''service_id'', VStr (cmp_service c)), (''title'', VStr (clip_str title 255)),
                   (''impact'', VStr ''major''), (''status'', VStr ''investigating''),
                   (''components'', VStr (cmp_id c)), (''opened_at'', VInt64 now),
                   (''resolved_at'', VInt64 0), (''auto'', VBool True),
                   (''trigger_samples'', VStr (clip_str (csv triggers) 1024)),
                   (''txid'', VStr TxIDPlaceholder)],
                w_delete = False\<rparr>,
               incident_update_op update_id i ''investigating'' (clip_str body 4096) now],
              n + 2))"

definition resolve_auto_incident :: "outside \<Rightarrow> (nat \<Rightarrow> string) \<Rightarrow> nat \<Rightarrow> tables \<Rightarrow> string \<Rightarrow> int \<Rightarrow>
    write_op list \<times> nat" where
  "resolve_auto_incident x ids n t incident now =
     (case row_at [(''id'', SStr incident)] (t ''incidents'') of
        None \<Rightarrow> ([], n)
      | Some row \<Rightarrow>
          if \<not> row_bool row ''auto'' \<or> row_str (x_ftext x) row ''status'' = ''resolved'' then ([], n)
          else
            ([\<lparr>w_table = ''incidents'', w_key = [(''id'', VStr incident)],
               w_values = [(''status'', VStr ''resolved''), (''resolved_at'', VInt64 now)],
               w_delete = False\<rparr>,
              incident_update_op (new_id ids ''iup'' n) incident ''resolved''
                ''The monitor's checks are passing again.'' now],
             n + 1))"

section \<open>One component\<close>

text \<open>The enabled monitors of a component, and the states that count.\<close>

definition component_monitors :: "outside \<Rightarrow> tables \<Rightarrow> string \<Rightarrow> string list" where
  "component_monitors x t c =
     map (\<lambda>r. row_str (x_ftext x) r ''id'')
       (filter (\<lambda>r. r ''component_id'' = SStr c \<and> r ''enabled'' = SInt 1) (t ''monitors''))"

definition current_state :: "outside \<Rightarrow> tables \<Rightarrow> (string \<times> mstate) list \<Rightarrow> string \<Rightarrow> mstate option" where
  "current_state x t updated i =
     (case map_of updated i of Some st \<Rightarrow> Some st | None \<Rightarrow> read_state x t i)"

definition unknown_state :: "mstate \<Rightarrow> bool" where
  "unknown_state st \<longleftrightarrow> st_verdict st = [] \<or> st_raw st = Error \<and> st_verdict st = Up \<and> st_since st = 0"

definition seen_verdicts :: "outside \<Rightarrow> tables \<Rightarrow> (string \<times> mstate) list \<Rightarrow> string \<Rightarrow> string list" where
  "seen_verdicts x t updated c =
     map st_verdict (filter (\<lambda>st. \<not> unknown_state st)
       (List.map_filter (current_state x t updated) (component_monitors x t c)))"

text \<open>The rollup rule on the verdicts seen, \<open>None\<close> when there are none.\<close>

definition rollup_verdict :: "string \<Rightarrow> string list \<Rightarrow> string option" where
  "rollup_verdict rollup vs =
     (let seen = length vs;
          is_down = length (filter (\<lambda>v. v = Down) vs);
          worst = foldl worse_verdict Up vs;
          softened = (if worst = Down then Degraded else worst)
      in if seen = 0 then None
         else if rollup = ''all'' then Some (if is_down = seen then Down else softened)
         else if rollup = ''majority'' then Some (if is_down * 2 > seen then Down else softened)
         else Some worst)"

definition in_maintenance :: "sample list \<Rightarrow> string \<Rightarrow> bool" where
  "in_maintenance samples c \<longleftrightarrow> (\<exists>s \<in> set samples. sm_component s = c \<and> sm_maint s)"

definition detail_of :: "sample list \<Rightarrow> string \<Rightarrow> string" where
  "detail_of samples c =
     (case find (\<lambda>s. sm_component s = c \<and> sm_detail s \<noteq> []) samples of Some s \<Rightarrow> sm_detail s | None \<Rightarrow> [])"

definition count_flap :: "int \<Rightarrow> mstate \<Rightarrow> mstate" where
  "count_flap now st =
     (if i64 (now - st_flaps_since st) > flapWindow then st\<lparr>st_flaps := 1, st_flaps_since := now\<rparr>
      else st\<lparr>st_flaps := i64 (st_flaps st + 1)\<rparr>)"

text \<open>The payloads of the three alerts.\<close>

definition down_payload :: "component \<Rightarrow> string \<Rightarrow> string \<Rightarrow> string \<Rightarrow> string \<Rightarrow> int \<Rightarrow> (string \<times> json) list" where
  "down_payload c previous verdict incident detail now =
     [(''component'', JStr (cmp_name c)), (''component_id'', JStr (cmp_id c)),
      (''previous'', JStr previous), (''current'', JStr verdict), (''incident_id'', JStr incident),
      (''detail'', JStr detail), (''since'', json_nat now)]"

definition up_payload :: "component \<Rightarrow> string \<Rightarrow> string \<Rightarrow> string \<Rightarrow> int \<Rightarrow> (string \<times> json) list" where
  "up_payload c previous verdict incident now =
     [(''component'', JStr (cmp_name c)), (''component_id'', JStr (cmp_id c)),
      (''previous'', JStr previous), (''current'', JStr verdict), (''incident_id'', JStr incident),
      (''since'', json_nat now)]"

definition flap_payload :: "component \<Rightarrow> int \<Rightarrow> (string \<times> json) list" where
  "flap_payload c flaps =
     [(''component'', JStr (cmp_name c)), (''component_id'', JStr (cmp_id c)),
      (''changes'', json_nat flaps), (''window_seconds'', json_nat flapWindow)]"

text \<open>
  The outcome of a step that may raise an alert: the alerts, the write operations, the
  state, and the identifiers drawn; \<open>None\<close> when the payload could not be encoded.
\<close>

type_synonym outcome = "(alert list \<times> write_op list \<times> mstate \<times> nat) option"

definition announce :: "outside \<Rightarrow> (nat \<Rightarrow> string) \<Rightarrow> string \<times> int \<Rightarrow> component \<Rightarrow> string \<Rightarrow> string \<Rightarrow>
    (string \<times> json) list \<Rightarrow> int \<Rightarrow> alert list \<times> write_op list \<times> mstate \<times> nat \<Rightarrow> outcome" where
  "announce x ids head c event dedup payload now acc =
     (case acc of (alerts, ops, st, n) \<Rightarrow>
        map_option (\<lambda>(a, op). (alerts @ [a], ops @ [op], st, n + 1))
          (raise_alert x (new_id ids ''alt'' n) head (cmp_service c) event (cmp_id c) dedup payload now))"

text \<open>
  The \<open>switch\<close> of \<open>rollUpComponent\<close> on a changed verdict: the incident and, unless
  \<open>quiet\<close>, its alert.
\<close>

definition change_effects :: "outside \<Rightarrow> (nat \<Rightarrow> string) \<Rightarrow> nat \<Rightarrow> string \<times> int \<Rightarrow> tables \<Rightarrow> component \<Rightarrow>
    sample list \<Rightarrow> int \<Rightarrow> string \<Rightarrow> string \<Rightarrow> bool \<Rightarrow> mstate \<Rightarrow> outcome" where
  "change_effects x ids n head t c samples now previous verdict quiet st =
     (if verdict = Down then
        (case open_auto_incident x ids n t c samples now of
           (incident, ops, n') \<Rightarrow>
             let st' = st\<lparr>st_incident := incident\<rparr>
             in if quiet then Some ([], ops, st', n')
                else announce x ids head c EventComponentDown (cmp_id c @ '':down:'' @ show_int now)
                       (down_payload c previous verdict incident (detail_of samples (cmp_id c)) now) now
                       ([], ops, st', n'))
      else if previous = Down then
        (case (if st_incident st \<noteq> [] then resolve_auto_incident x ids n t (st_incident st) now
               else ([], n)) of
           (ops, n') \<Rightarrow>
             map_option (\<lambda>(a, ops', st', n''). (a, ops', st'\<lparr>st_incident := []\<rparr>, n''))
               (if quiet then Some ([], ops, st, n')
                else announce x ids head c EventComponentUp (cmp_id c @ '':up:'' @ show_int now)
                       (up_payload c previous verdict (st_incident st) now) now ([], ops, st, n')))
      else Some ([], [], st, n))"

text \<open>\<open>rollUpComponent\<close> from the point where the verdict has changed.\<close>

definition state_changed :: "outside \<Rightarrow> (nat \<Rightarrow> string) \<Rightarrow> nat \<Rightarrow> string \<times> int \<Rightarrow> tables \<Rightarrow> component \<Rightarrow>
    sample list \<Rightarrow> int \<Rightarrow> string \<Rightarrow> mstate \<Rightarrow> outcome" where
  "state_changed x ids n head t c samples now verdict st0 =
     (let st = count_flap now (st0\<lparr>st_verdict := verdict, st_since := now, st_updated := now,
                                   st_kind := StateComponent\<rparr>);
          maint = in_maintenance samples (cmp_id c);
          flapping = st_flaps st > flapThreshold
      in Option.bind
           (change_effects x ids n head t c samples now (st_verdict st0) verdict (maint \<or> flapping) st)
           (\<lambda>acc.
             map_option (\<lambda>(alerts, ops, st', n'). (alerts, ops @ [state_op st'], st', n'))
               (if flapping \<and> st_flaps st = flapThreshold + 1 \<and> \<not> maint
                then announce x ids head c EventFlapping
                       (cmp_id c @ '':flapping:'' @ show_int (st_flaps_since st))
                       (flap_payload c (st_flaps st)) now acc
                else Some acc)))"

definition new_state :: "string \<Rightarrow> string \<Rightarrow> int \<Rightarrow> mstate" where
  "new_state subject kind now =
     \<lparr>st_subject = subject, st_kind = kind, st_verdict = Up, st_since = now, st_consecutive = 0,
      st_raw = [], st_updated = 0, st_flaps = 0, st_flaps_since = 0, st_incident = []\<rparr>"

definition roll_up_component :: "outside \<Rightarrow> (nat \<Rightarrow> string) \<Rightarrow> nat \<Rightarrow> string \<times> int \<Rightarrow> tables \<Rightarrow> string \<Rightarrow>
    (string \<times> mstate) list \<Rightarrow> sample list \<Rightarrow> int \<Rightarrow> (alert list \<times> write_op list \<times> nat) option" where
  "roll_up_component x ids n head t cid updated samples now =
     (case read_component x t cid of
        None \<Rightarrow> Some ([], [], n)
      | Some c \<Rightarrow>
          (case rollup_verdict (cmp_rollup c) (seen_verdicts x t updated cid) of
             None \<Rightarrow> Some ([], [], n)
           | Some verdict \<Rightarrow>
               let st = (case read_state x t cid of Some st \<Rightarrow> st | None \<Rightarrow> new_state cid StateComponent now)
               in if st_verdict st = verdict then Some ([], [], n)
                  else map_option (\<lambda>(alerts, ops, _, n'). (alerts, ops, n'))
                         (state_changed x ids n head t c samples now verdict st)))"

section \<open>A tick\<close>

text \<open>The last scheduled reading of each monitor, in monitor order.\<close>

fun latest_of :: "sample list \<Rightarrow> (string \<times> sample) list \<Rightarrow> (string \<times> sample) list" where
  "latest_of [] acc = acc"
| "latest_of (s # ss) acc =
     latest_of ss
       (if sm_manual s then acc
        else case map_of acc (sm_monitor s) of
               None \<Rightarrow> acc @ [(sm_monitor s, s)]
             | Some prev \<Rightarrow> if sm_started s \<ge> sm_started prev then AList.update (sm_monitor s) s acc else acc)"

fun advance_all :: "outside \<Rightarrow> tables \<Rightarrow> int \<Rightarrow> (string \<times> sample) list \<Rightarrow>
    (string \<times> mstate) list \<times> write_op list \<times> string list" where
  "advance_all x t now [] = ([], [], [])"
| "advance_all x t now ((i, s) # rest) =
     (case advance_all x t now rest of (states, ops, touched) \<Rightarrow>
        (case read_monitor x t i of
           None \<Rightarrow> (states, ops, touched)
         | Some mon \<Rightarrow>
             let st0 = (case read_state x t i of Some st \<Rightarrow> st | None \<Rightarrow> new_state i StateMonitor now);
                 st = advance_monitor mon (sm_verdict s) now st0
             in ((i, st) # states, state_op st # ops,
                 if st_verdict st \<noteq> st_verdict st0 \<or> st_verdict st0 = [] then sm_component s # touched
                 else touched)))"

fun roll_up_all :: "outside \<Rightarrow> (nat \<Rightarrow> string) \<Rightarrow> nat \<Rightarrow> string \<times> int \<Rightarrow> tables \<Rightarrow> string list \<Rightarrow>
    (string \<times> mstate) list \<Rightarrow> sample list \<Rightarrow> int \<Rightarrow> (alert list \<times> write_op list) option" where
  "roll_up_all x ids n head t [] updated samples now = Some ([], [])"
| "roll_up_all x ids n head t (c # cs) updated samples now =
     Option.bind (roll_up_component x ids n head t c updated samples now) (\<lambda>(alerts, ops, n').
       map_option (\<lambda>(as, os). (alerts @ as, ops @ os))
         (roll_up_all x ids n' head t cs updated samples now))"

text \<open>
  \<open>detect\<close>. The samples a component's step ranges over are the values of a map; the
  list \<open>latest\<close> gives them an order.
\<close>

definition detect :: "outside \<Rightarrow> (nat \<Rightarrow> string) \<Rightarrow> nat \<Rightarrow> string \<times> int \<Rightarrow> tables \<Rightarrow> sample list \<Rightarrow> int \<Rightarrow>
    (alert list \<times> write_op list) option" where
  "detect x ids n head t samples now =
     (let latest = sort_key fst (latest_of samples [])
      in if latest = [] then Some ([], [])
         else case advance_all x t now latest of (states, ops, touched) \<Rightarrow>
           map_option (\<lambda>(alerts, ops'). (alerts, ops @ ops'))
             (roll_up_all x ids n head t (sort (remdups touched)) states (map snd latest) now))"

section \<open>The states round trip\<close>

lemma state_op_entry:
  assumes "st_subject st \<noteq> TxIDPlaceholder" "TxIDPlaceholder \<notin> {st_kind st, st_verdict st, st_raw st, st_incident st}"
  shows "entry_ok x txid (state_op st)"
    "entry_key x txid (state_op st) = [(''subject'', SStr (st_subject st))]"
    "entry_fields x txid (state_op st) =
       [(''kind'', SStr (st_kind st)), (''verdict'', SStr (st_verdict st)), (''raw'', SStr (st_raw st)),
        (''since'', SInt (st_since st)), (''consecutive'', SInt (st_consecutive st)),
        (''flaps'', SInt (st_flaps st)), (''flaps_since'', SInt (st_flaps_since st)),
        (''incident_id'', SStr (st_incident st)), (''updated_at'', SInt (st_updated st))]"
  using assms
  by (auto simp: entry_ok_def state_op_def pk_columns_def entry_key_def entry_fields_def
      subst_fields_def substitute_def lit_fields_def valid_key_def valid_fields_def)

definition state_in_range :: "mstate \<Rightarrow> bool" where
  "state_in_range st \<longleftrightarrow> list_all in_i64
     [st_since st, st_consecutive st, st_flaps st, st_flaps_since st, st_updated st]"

section \<open>Properties of one monitor\<close>

definition run_monitor :: "monitor \<Rightarrow> (string \<times> int) list \<Rightarrow> mstate \<Rightarrow> mstate" where
  "run_monitor mon rs st = foldl (\<lambda>st (v, now). advance_monitor mon v now st) st rs"

lemma run_monitor_simps [simp]:
  "run_monitor mon [] st = st"
  "run_monitor mon (rs @ [(v, now)]) st = advance_monitor mon v now (run_monitor mon rs st)"
  by (simp_all add: run_monitor_def)

lemma advance_error:
  "advance_monitor mon Error now st = st\<lparr>st_updated := now, st_raw := Error\<rparr>"
  by (simp add: advance_monitor_def)

lemma advance_run:
  assumes "v \<noteq> Error"
  shows "st_raw (advance_monitor mon v now st) = v"
    "st_consecutive (advance_monitor mon v now st) =
       (if st_raw st = v then i64 (st_consecutive st + 1) else 1)"
  using assms by (auto simp: advance_monitor_def Let_def)

lemma advance_verdict:
  assumes "v \<noteq> Error"
  shows "st_verdict (advance_monitor mon v now st) =
    (let k = st_consecutive (advance_monitor mon v now st) in
     if st_verdict st \<noteq> Down \<and> v = Down then (if mon_failure mon \<le> k then Down else st_verdict st)
     else if st_verdict st = Down \<and> v \<noteq> Down then (if mon_recovery mon \<le> k then v else Down)
     else v)"
  using assms by (auto simp: advance_monitor_def Let_def)

text \<open>The run the state counts is a run of equal readings at the end of the history.\<close>

lemma run_suffix:
  assumes "st_raw st0 \<notin> set (map fst rs)" "length rs < 2 ^ 63" "rs \<noteq> []"
  shows "let st = run_monitor mon rs st0 in st_raw st = fst (last rs) \<and>
    (st_raw st \<noteq> Error \<longrightarrow> (\<exists>pre. map fst rs = pre @ replicate (nat (st_consecutive st)) (st_raw st) \<and>
       0 < st_consecutive st \<and> st_consecutive st \<le> int (length rs)))"
  using assms
proof (induction rs rule: rev_induct)
  case (snoc r rs)
  obtain v now where r: "r = (v, now)" by (cases r)
  show ?case
  proof (cases "v = Error")
    case True
    then show ?thesis by (simp add: r Let_def advance_error)
  next
    case False
    define st where "st = run_monitor mon rs st0"
    define st' where "st' = advance_monitor mon v now st"
    have raw: "st_raw st' = v" using advance_run(1) [OF False] by (simp add: st'_def)
    have step: "run_monitor mon (rs @ [r]) st0 = st'" by (simp add: r st'_def st_def)
    show ?thesis
    proof (cases "st_raw st = v")
      case eq: True
      have ne: "rs \<noteq> []" using eq snoc.prems(1) r by (auto simp: st_def)
      have IH: "st_raw st \<noteq> Error \<longrightarrow> (\<exists>pre. map fst rs = pre @ replicate (nat (st_consecutive st)) (st_raw st) \<and>
          0 < st_consecutive st \<and> st_consecutive st \<le> int (length rs))"
      proof -
        have "st_raw st0 \<notin> set (map fst rs)" "length rs < 2 ^ 63" using snoc.prems(1,2) by simp_all
        from snoc.IH [OF this ne] show ?thesis unfolding Let_def st_def by blast
      qed
      then obtain pre where pre: "map fst rs = pre @ replicate (nat (st_consecutive st)) v"
          "0 < st_consecutive st" "st_consecutive st \<le> int (length rs)"
        using eq False by auto
      have k: "st_consecutive st' = st_consecutive st + 1"
        using advance_run(2) [OF False, of mon now st] eq pre(2,3) snoc.prems(2)
        by (simp add: st'_def i64_nonneg)
      have "nat (st_consecutive st + 1) = Suc (nat (st_consecutive st))" using pre(2) by simp
      then have "map fst (rs @ [r]) = pre @ replicate (nat (st_consecutive st')) v"
        using pre(1) k r by (simp add: replicate_append_same [symmetric])
      then show ?thesis
        unfolding step Let_def raw using pre(2,3) k r by auto
    next
      case False': False
      have "st_consecutive st' = 1"
        using advance_run(2) [OF False, of mon now st] False' by (simp add: st'_def)
      then show ?thesis unfolding step Let_def raw using r by auto
    qed
  qed
qed simp

lemma run_trailing:
  assumes "v \<noteq> Error" "0 < k" "k < 2 ^ 63" "\<forall>r \<in> set rs. fst r = v" "length rs = k"
    "st_raw st = v \<longrightarrow> 0 \<le> st_consecutive st \<and> st_consecutive st + int k < 2 ^ 63"
  shows "st_raw (run_monitor mon rs st) = v \<and> int k \<le> st_consecutive (run_monitor mon rs st) \<and>
    st_consecutive (run_monitor mon rs st) \<le> int k + (if st_raw st = v then st_consecutive st else 0)"
  using assms
proof (induction rs arbitrary: k rule: rev_induct)
  case (snoc r rs)
  obtain now where r: "r = (v, now)" using snoc.prems(4) by (cases r) auto
  show ?case
  proof (cases "rs = []")
    case True
    then show ?thesis
      using snoc.prems advance_run [OF snoc.prems(1), of mon now st] r by (auto simp: run_monitor_def i64_nonneg)
  next
    case False
    then have k: "0 < length rs" "k = Suc (length rs)" using snoc.prems(5) by auto
    then have "st_raw (run_monitor mon rs st) = v \<and> int (length rs) \<le> st_consecutive (run_monitor mon rs st) \<and>
        st_consecutive (run_monitor mon rs st) \<le> int (length rs) + (if st_raw st = v then st_consecutive st else 0)"
      using snoc.prems snoc.IH [of "length rs"] by auto
    then show ?thesis
      using advance_run [OF snoc.prems(1), of mon now "run_monitor mon rs st"] r k snoc.prems(3,6)
      by (auto simp: i64_nonneg split: if_splits)
  qed
qed simp


definition sample_monitor :: monitor where
  "sample_monitor =
     \<lparr>mon_id = ''m1'', mon_service = ''shop'', mon_component = ''api'', mon_name = ''API check'',
      mon_version = 1, mon_enabled = True, mon_interval = 60, mon_timeout = 30, mon_failure = 2,
      mon_recovery = 2, mon_budget = 0, mon_engine = ''http'', mon_created = 0, mon_updated = 0\<rparr>"


text \<open>
  An outage that persists is declared: after \<open>FailureThreshold\<close> consecutive
  failing readings the monitor is down, whatever came before them.
\<close>

lemma persistent_failure_is_declared:
  assumes "0 < mon_failure mon" "int (length rs) = mon_failure mon" "mon_failure mon < 2 ^ 62"
    and "\<forall>r \<in> set rs. fst r = Down"
    and "0 \<le> st_consecutive st" "st_consecutive st < 2 ^ 62"
  shows "st_verdict (run_monitor mon rs st) = Down"
proof -
  obtain rs' r where rs: "rs = rs' @ [r]" using assms(1,2) by (cases rs rule: rev_cases) auto
  obtain now where r: "r = (Down, now)" using assms(4) rs by (cases r) auto
  have "int (length rs) \<le> st_consecutive (run_monitor mon rs st)"
    using run_trailing [of Down "length rs" rs st mon] assms rs by auto
  then have "mon_failure mon \<le> st_consecutive (advance_monitor mon Down now (run_monitor mon rs' st))"
    using assms(2) by (simp add: rs r)
  then show ?thesis
    using advance_verdict [of Down mon now "run_monitor mon rs' st"] by (simp add: rs r Let_def)
qed

text \<open>
  Readings the monitor could not take do move the thresholds: each one overwrites
  the raw outcome the next reading is compared with, so its run starts again at one. A
  service that fails every reading that can be taken, with an error after each, is never
  declared down by a threshold above one, however long it lasts.
\<close>

lemma errors_reset_the_failure_run:
  assumes "1 < mon_failure mon" "st_verdict st = Up" "st_raw st \<noteq> Down"
  shows "st_verdict (run_monitor mon (concat (replicate n [(Down, t), (Error, t)])) st) = Up"
proof -
  have "st_verdict (run_monitor mon (concat (replicate n [(Down, t), (Error, t)])) st) = Up \<and>
      st_raw (run_monitor mon (concat (replicate n [(Down, t), (Error, t)])) st) \<noteq> Down"
  proof (induction n)
    case (Suc n)
    define st' where "st' = run_monitor mon (concat (replicate n [(Down, t), (Error, t)])) st"
    have "concat (replicate (Suc n) [(Down, t), (Error, t)]) =
        concat (replicate n [(Down, t), (Error, t)]) @ [(Down, t), (Error, t)]"
      by (induction n) simp_all
    then have "run_monitor mon (concat (replicate (Suc n) [(Down, t), (Error, t)])) st =
        advance_monitor mon Error t (advance_monitor mon Down t st')"
      by (simp add: run_monitor_def st'_def)
    then show ?case
      using Suc assms(1) by (auto simp: st'_def [symmetric] advance_monitor_def Let_def)
  qed (use assms in simp)
  then show ?thesis by blast
qed

section \<open>Properties of a change of state\<close>

text \<open>The alert payloads can always be encoded.\<close>

fun plain_json :: "json \<Rightarrow> bool" where
  "plain_json (JStr s) = True"
| "plain_json (JNum n) = (parse_int n \<noteq> None)"
| "plain_json _ = False"

lemma plain_json_writes: "plain_json v \<Longrightarrow> write_json fmt v \<noteq> None"
  by (cases v) (auto simp: write_number_def)

lemma plain_object_writes:
  assumes "list_all (\<lambda>(k, v). plain_json v) kvs"
  shows "\<exists>s. write_json fmt (JObj kvs) = Some s"
proof -
  let ?ws = "sort_key fst (map (\<lambda>(k, v). (k, write_json fmt v)) kvs)"
  have "\<exists>ts. those (map (\<lambda>(k, w). map_option (\<lambda>t. write_string k @ '':'' @ t) w) ?ws) = Some ts"
  proof (rule those_ex)
    fix kw assume "kw \<in> set ?ws"
    then obtain k v where "(k, v) \<in> set kvs" "kw = (k, write_json fmt v)" by auto
    with assms plain_json_writes [of v fmt] show "(\<lambda>(k, w). map_option (\<lambda>t. write_string k @ '':'' @ t) w) kw \<noteq> None"
      by (auto simp: list_all_iff)
  qed
  then show ?thesis by auto
qed

lemma announce_Some:
  assumes "list_all (\<lambda>(k, v). plain_json v) payload"
  obtains a op where "announce x ids head c event dedup payload now (alerts, ops, st, n) =
      Some (alerts @ [a], ops @ [op], st, n + 1)" "al_event a = event" "al_subject a = cmp_id c"
proof -
  obtain body where "write_json (x_fmt x) (JObj payload) = Some body"
    using plain_object_writes [OF assms] by blast
  then have "\<exists>a op. announce x ids head c event dedup payload now (alerts, ops, st, n) =
      Some (alerts @ [a], ops @ [op], st, n + 1) \<and> al_event a = event \<and> al_subject a = cmp_id c"
    by (auto simp: announce_def raise_alert_def simp del: write_json.simps)
  then show thesis using that by blast
qed

lemma plain_payloads:
  assumes "in_i64 now" "in_i64 flaps"
  shows "list_all (\<lambda>(k, v). plain_json v) (down_payload c p v i d now)"
    "list_all (\<lambda>(k, v). plain_json v) (up_payload c p v i now)"
    "list_all (\<lambda>(k, v). plain_json v) (flap_payload c flaps)"
  using assms by (simp_all add: down_payload_def up_payload_def flap_payload_def json_nat_def
      flapWindow_def in_i64_def)

lemma count_flap_range: "in_i64 (st_flaps (count_flap now st))"
  and count_flap_simps [simp]: "st_verdict (count_flap now st) = st_verdict st"
  by (auto simp: count_flap_def in_i64_def [of 1])

definition first_alert :: "string \<Rightarrow> string \<Rightarrow> string list" where
  "first_alert previous verdict =
     (if verdict = Down then [EventComponentDown]
      else if previous = Down then [EventComponentUp] else [])"

lemma change_effects_Some:
  assumes "in_i64 now"
  shows "\<exists>alerts ops st' n'. change_effects x ids n head t c samples now previous verdict quiet st =
      Some (alerts, ops, st', n') \<and> st_verdict st' = st_verdict st \<and> st_flaps st' = st_flaps st \<and>
    map al_event alerts = (if quiet then [] else first_alert previous verdict)"
proof -
  note plain = plain_payloads [OF assms assms]
  show ?thesis
  proof (cases "verdict = Down")
    case True
    obtain i ops n' where "open_auto_incident x ids n t c samples now = (i, ops, n')"
      by (cases "open_auto_incident x ids n t c samples now") auto
    moreover obtain a op where "announce x ids head c EventComponentDown (cmp_id c @ '':down:'' @ show_int now)
        (down_payload c previous verdict i (detail_of samples (cmp_id c)) now) now
        ([], ops, st\<lparr>st_incident := i\<rparr>, n') = Some ([] @ [a], ops @ [op], st\<lparr>st_incident := i\<rparr>, n' + 1)"
        "al_event a = EventComponentDown"
      using announce_Some [OF plain(1)] by metis
    ultimately show ?thesis
      using True by (cases quiet) (auto simp: change_effects_def Let_def first_alert_def)
  next
    case False
    obtain ops n' where "(if st_incident st \<noteq> [] then resolve_auto_incident x ids n t (st_incident st) now
        else ([], n)) = (ops, n')" by (metis surj_pair)
    moreover obtain a op where "announce x ids head c EventComponentUp (cmp_id c @ '':up:'' @ show_int now)
        (up_payload c previous verdict (st_incident st) now) now ([], ops, st, n') =
          Some ([] @ [a], ops @ [op], st, n' + 1)" "al_event a = EventComponentUp"
      using announce_Some [OF plain(2)] by metis
    ultimately show ?thesis
      using False by (cases quiet) (auto simp: change_effects_def first_alert_def simp del: not_None_eq)
  qed
qed

text \<open>
  Claim C20. A component's change of state is always recorded, and what is announced
  depends only on maintenance and flapping: inside a declared window nothing is sent;
  a component that has changed more than six times in the hour is announced once as
  flapping and not again; otherwise a change to down, or back from down, sends exactly its
  one alert. The last write operation is the state row with the new verdict.
\<close>

theorem change_is_recorded_and_announced:
  fixes st0 :: mstate and verdict :: string and now :: int
  assumes "in_i64 now"
  defines "st \<equiv> count_flap now (st0\<lparr>st_verdict := verdict, st_since := now, st_updated := now,
      st_kind := StateComponent\<rparr>)"
  shows "\<exists>alerts ops st' n'. state_changed x ids n head t c samples now verdict st0 =
      Some (alerts, ops @ [state_op st'], st', n') \<and>
    st_verdict st' = verdict \<and> st_flaps st' = st_flaps st \<and>
    map al_event alerts =
      (if in_maintenance samples (cmp_id c) then []
       else if st_flaps st > flapThreshold
         then (if st_flaps st = flapThreshold + 1 then [EventFlapping] else [])
       else first_alert (st_verdict st0) verdict)"
proof -
  let ?m = "in_maintenance samples (cmp_id c)" and ?f = "st_flaps st > flapThreshold"
  obtain alerts ops st' n' where ce:
    "change_effects x ids n head t c samples now (st_verdict st0) verdict (?m \<or> ?f) st =
       Some (alerts, ops, st', n')"
    "st_verdict st' = st_verdict st" "st_flaps st' = st_flaps st"
    "map al_event alerts = (if ?m \<or> ?f then [] else first_alert (st_verdict st0) verdict)"
    using change_effects_Some [OF assms(1)] by blast
  have v: "st_verdict st = verdict" by (simp add: st_def)
  obtain a op where an: "announce x ids head c EventFlapping
      (cmp_id c @ '':flapping:'' @ show_int (st_flaps_since st)) (flap_payload c (st_flaps st)) now
      (alerts, ops, st', n') = Some (alerts @ [a], ops @ [op], st', n' + 1)" "al_event a = EventFlapping"
    using announce_Some [OF plain_payloads(3) [OF assms(1) count_flap_range]] unfolding st_def by metis
  show ?thesis
    using ce an v
    by (auto simp: state_changed_def Let_def st_def [symmetric] simp del: not_None_eq)
qed

definition sample_row :: "(string \<times> sqlv) list \<Rightarrow> sql_row" where
  "sample_row fs = set_columns fs null_row"

definition sample_cmp :: component where
  "sample_cmp =
     \<lparr>cmp_id = ''api'', cmp_service = ''shop'', cmp_parent = [], cmp_name = ''API'', cmp_description = [],
      cmp_weight = 1, cmp_rollup = ''any'', cmp_position = 0, cmp_showcase = False, cmp_created = 0,
      cmp_updated = 0\<rparr>"

theorem change_is_recorded_and_announced_witness:
  "\<exists>alerts ops st' n'. state_changed sample_outside show_nat 0 (''r'', 5) (\<lambda>_. []) sample_cmp [] 100
     Down (new_state ''api'' StateComponent 50) = Some (alerts, ops @ [state_op st'], st', n') \<and>
   st_verdict st' = Down \<and> map al_event alerts = [EventComponentDown]"
proof -
  have "in_i64 (100 :: int)" by (simp add: in_i64_def)
  from change_is_recorded_and_announced [OF this, where x = sample_outside and ids = show_nat and n = 0
      and head = "(''r'', 5)" and t = "\<lambda>_. []" and c = sample_cmp and samples = "[]"
      and verdict = Down and ?st0.0 = "new_state ''api'' StateComponent 50"]
  show ?thesis
    by (auto simp: count_flap_def new_state_def flapWindow_def flapThreshold_def in_maintenance_def
        first_alert_def i64_def)
qed

text \<open>
  The check for an open incident matches the component's id anywhere in the list
  of components, so an open incident on a component whose id contains this one is taken
  for its own: here an outage of \<open>api\<close> is attached to the open incident of
  \<open>api-v2\<close> and no incident is opened for it.
\<close>

lemma incident_of_another_component_is_reused:
  "open_auto_incident sample_outside ids n
     (\<lambda>tab. if tab = ''incidents'' then
        [sample_row [(''id'', SStr ''inc_1''), (''service_id'', SStr ''shop''), (''status'', SStr ''investigating''),
           (''components'', SStr ''api-v2''), (''opened_at'', SInt 10)]] else [])
     sample_cmp samples now = (''inc_1'', [], n)"
proof -
  have "sql_like ''%api%'' ''api-v2''" by code_simp
  then show ?thesis
    by (simp add: open_auto_incident_def open_incidents_def sample_row_def set_columns_def sample_cmp_def
        row_str_def)
qed

text \<open>
  Detection does not start from nothing after a restart: the state a tick writes
  is the state the next tick reads, field by field, whatever row was there before.
\<close>

lemma state_round_trip:
  assumes "x_engine x = (\<lambda>_. None)" "state_in_range st" "apply_one x txid t (state_op st) = Inr t'"
    and "TxIDPlaceholder \<notin> {st_subject st, st_kind st, st_verdict st, st_raw st, st_incident st}"
  shows "read_state x t' (st_subject st) = Some st"
proof -
  have "st_subject st \<noteq> TxIDPlaceholder" "TxIDPlaceholder \<notin> {st_kind st, st_verdict st, st_raw st, st_incident st}"
    using assms(4) by auto
  note op = state_op_entry [OF this, of x txid]
  obtain row where row: "row_at (entry_key x txid (state_op st)) (t' (w_table (state_op st))) = Some row"
    "\<forall>c v. map_of (entry_fields x txid (state_op st)) c = Some v \<longrightarrow> row c = v"
    "\<forall>c v. map_of (entry_key x txid (state_op st)) c = Some v \<longrightarrow> row c = v"
    using written_row [OF assms(1) op(1) _ assms(3)] by (auto simp: state_op_def)
  have "state_from_row x row = st"
    using assms(2) row(2,3) by (simp add: state_from_row_def row_str_def row_int_def as_int_def op(2,3)
        state_in_range_def i64_id)
  moreover have "w_table (state_op st) = ''states''" by (simp add: state_op_def)
  ultimately show ?thesis using row(1) by (simp add: read_state_def op(2))
qed

end
