(* ===== verification/Fold.thy ===== *)
theory Fold
  imports Compute Detect
begin

text \<open>
  Folding readings into minute and hour intervals (\<open>internal/core/samples.go\<close>) and
  removing raw readings under the retention policy (\<open>internal/core/retention.go\<close>).
\<close>

section \<open>Accumulating one interval\<close>

definition WidthMinute :: int where "WidthMinute = 60"
definition WidthHour :: int where "WidthHour = 3600"

record fold =
  f_monitor :: string
  f_component :: string
  f_service :: string
  f_start :: int
  f_width :: int
  f_up :: int
  f_degraded :: int
  f_down :: int
  f_errors :: int
  f_maint :: int
  f_latencies :: "int list"
  f_down_intervals :: int
  f_seen_intervals :: int

definition new_fold :: "string \<Rightarrow> string \<Rightarrow> string \<Rightarrow> int \<Rightarrow> int \<Rightarrow> fold" where
  "new_fold m c s start width =
     \<lparr>f_monitor = m, f_component = c, f_service = s, f_start = start, f_width = width, f_up = 0,
      f_degraded = 0, f_down = 0, f_errors = 0, f_maint = 0, f_latencies = [], f_down_intervals = 0,
      f_seen_intervals = 0\<rparr>"

definition add_sample :: "string \<Rightarrow> int \<Rightarrow> bool \<Rightarrow> fold \<Rightarrow> fold" where
  "add_sample verdict duration maint f =
     (let f1 = (if verdict = Up then f\<lparr>f_up := f_up f + 1\<rparr>
                else if verdict = Degraded then f\<lparr>f_degraded := f_degraded f + 1\<rparr>
                else if verdict = Down then f\<lparr>f_down := f_down f + 1\<rparr>
                else f\<lparr>f_errors := f_errors f + 1\<rparr>);
          f2 = (if maint then f1\<lparr>f_maint := f_maint f1 + 1\<rparr> else f1)
      in if verdict \<noteq> Error then f2\<lparr>f_latencies := f_latencies f2 @ [duration]\<rparr> else f2)"

definition latency_max :: "int list \<Rightarrow> int" where
  "latency_max ls = foldl (\<lambda>m l. if l > m then l else m) 0 ls"

definition add_bucket :: "bucket \<Rightarrow> fold \<Rightarrow> fold" where
  "add_bucket b f =
     (let f1 = f\<lparr>f_up := f_up f + b_up b, f_degraded := f_degraded f + b_degraded b,
                 f_down := f_down f + b_down b, f_errors := f_errors f + b_errors b,
                 f_maint := f_maint f + b_maint b, f_seen_intervals := f_seen_intervals f + 1,
                 f_down_intervals := (if b_verdict b = Down then f_down_intervals f + 1
                                      else f_down_intervals f)\<rparr>;
          f2 = (if b_p95 b > 0 then f1\<lparr>f_latencies := f_latencies f1 @ [b_p95 b]\<rparr> else f1)
      in if b_max b > latency_max (f_latencies f2) then f2\<lparr>f_latencies := f_latencies f2 @ [b_max b]\<rparr>
         else f2)"

definition fold_verdict :: "fold \<Rightarrow> string" where
  "fold_verdict f =
     (if f_width f \<ge> WidthHour \<and> f_seen_intervals f > 0 then
        (if f_down_intervals f > 0 then Down
         else if f_degraded f > 0 then Degraded
         else if f_up f > 0 then Up
         else Error)
      else
        let readings = f_up f + f_degraded f + f_down f in
        if readings = 0 then Error
        else if f_down f * 2 \<ge> readings then Down
        else if f_down f > 0 \<or> f_degraded f > 0 then Degraded
        else Up)"

text \<open>
  \<open>percentiles\<close>. The index is \<open>int(q * float64(n - 1))\<close>; for the sizes an interval has
  it is the integer part of the exact product, and it never leaves the range.
\<close>

definition pick :: "nat \<Rightarrow> int list \<Rightarrow> int" where
  "pick percent srt =
     (let i = percent * (length srt - 1) div 100
      in srt ! (if i \<ge> length srt then length srt - 1 else i))"

definition percentiles :: "int list \<Rightarrow> int \<times> int \<times> int" where
  "percentiles values =
     (if length values = 0 then (0, 0, 0)
      else let srt = sort values in (pick 50 srt, pick 95 srt, srt ! (length srt - 1)))"

definition fold_op :: "fold \<Rightarrow> write_op" where
  "fold_op f =
     (case percentiles (f_latencies f) of (p50, p95, mx) \<Rightarrow>
        \<lparr>w_table = ''buckets'',
         w_key = [(''monitor_id'', VStr (f_monitor f)), (''width_seconds'', VInt64 (f_width f)),
                  (''bucket_start'', VInt64 (f_start f))],
         w_values =
           [(''component_id'', VStr (f_component f)), (''service_id'', VStr (f_service f)),
            (''up_count'', VInt (f_up f)), (''degraded_count'', VInt (f_degraded f)),
            (''down_count'', VInt (f_down f)), (''error_count'', VInt (f_errors f)),
            (''maint_count'', VInt (f_maint f)), (''latency_p50'', VInt p50),
            (''latency_p95'', VInt p95), (''latency_max'', VInt mx), (''verdict'', VStr (fold_verdict f))],
         w_delete = False\<rparr>)"

section \<open>Grouping\<close>

text \<open>
  The map of folds of a run, an association list in order of first use. A row goes to the
  fold of its monitor and interval, made from that row when it is the first.
\<close>

type_synonym fold_map = "((string \<times> int) \<times> fold) list"

definition floor_to :: "int \<Rightarrow> int \<Rightarrow> int" where
  "floor_to width t = go_quot t width * width"

definition fold_into :: "(string \<times> int) \<Rightarrow> fold \<Rightarrow> (fold \<Rightarrow> fold) \<Rightarrow> fold_map \<Rightarrow> fold_map" where
  "fold_into k fresh upd m =
     (case map_of m k of
        None \<Rightarrow> m @ [(k, upd fresh)]
      | Some f \<Rightarrow> AList.update k (upd f) m)"

definition fold_sample_row :: "outside \<Rightarrow> fold_map \<Rightarrow> sql_row \<Rightarrow> fold_map" where
  "fold_sample_row x m row =
     (let ft = x_ftext x;
          k = (row_str ft row ''monitor_id'', floor_to WidthMinute (row_int row ''started_at''))
      in fold_into k
           (new_fold (fst k) (row_str ft row ''component_id'') (row_str ft row ''service_id'') (snd k) WidthMinute)
           (add_sample (row_str ft row ''verdict'') (row_int row ''duration_ms'') (row_bool row ''in_maintenance'')) m)"

definition bucket_from_row :: "outside \<Rightarrow> sql_row \<Rightarrow> bucket" where
  "bucket_from_row x row =
     \<lparr>b_monitor = row_str (x_ftext x) row ''monitor_id'', b_component = row_str (x_ftext x) row ''component_id'',
      b_service = row_str (x_ftext x) row ''service_id'', b_start = row_int row ''bucket_start'',
      b_width = row_int row ''width_seconds'', b_up = row_int row ''up_count'',
      b_degraded = row_int row ''degraded_count'', b_down = row_int row ''down_count'',
      b_errors = row_int row ''error_count'', b_maint = row_int row ''maint_count'',
      b_p50 = row_int row ''latency_p50'', b_p95 = row_int row ''latency_p95'',
      b_max = row_int row ''latency_max'', b_verdict = row_str (x_ftext x) row ''verdict''\<rparr>"

definition fold_bucket_row :: "outside \<Rightarrow> fold_map \<Rightarrow> sql_row \<Rightarrow> fold_map" where
  "fold_bucket_row x m row =
     (let ft = x_ftext x;
          k = (row_str ft row ''monitor_id'', floor_to WidthHour (row_int row ''bucket_start''))
      in fold_into k
           (new_fold (fst k) (row_str ft row ''component_id'') (row_str ft row ''service_id'') (snd k) WidthHour)
           (add_bucket (bucket_from_row x row)) m)"

definition sorted_folds :: "fold_map \<Rightarrow> fold list" where
  "sorted_folds m = sort_key (\<lambda>f. (f_start f, f_monitor f)) (map snd m)"

section \<open>Watermarks\<close>

definition watermark :: "outside \<Rightarrow> tables \<Rightarrow> string \<Rightarrow> int" where
  "watermark x t name =
     (case row_at [(''k'', SStr (''watermark.'' @ name))] (t ''registry'') of
        None \<Rightarrow> 0
      | Some row \<Rightarrow> (case row ''v'' of SStr s \<Rightarrow> (case parse_int s of Some v \<Rightarrow> v | None \<Rightarrow> 0) | _ \<Rightarrow> 0))"

definition watermark_op :: "string \<Rightarrow> int \<Rightarrow> write_op" where
  "watermark_op name v =
     \<lparr>w_table = ''registry'', w_key = [(''k'', VStr (''watermark.'' @ name))],
      w_values = [(''v'', VBinary (show_int v)), (''updated_at'', VInt64 v)], w_delete = False\<rparr>"

text \<open>\<open>MIN(col)\<close>: \<open>None\<close> is SQL's NULL of an empty table.\<close>

definition min_of :: "string \<Rightarrow> sql_row list \<Rightarrow> int option" where
  "min_of col rows = (case map (\<lambda>r. row_int r col) (filter (\<lambda>r. r col \<noteq> SNull) rows) of
     [] \<Rightarrow> None | v # vs \<Rightarrow> Some (foldl min v vs))"

definition in_window :: "string \<Rightarrow> int \<Rightarrow> int \<Rightarrow> sql_row \<Rightarrow> bool" where
  "in_window col f t r \<longleftrightarrow> r col \<noteq> SNull \<and> f \<le> row_int r col \<and> row_int r col < t"

text \<open>
  The start of the window a run folds: the watermark, or the interval of the earliest row
  when there is none yet; \<open>None\<close> when there is nothing to fold.
\<close>

definition fold_from :: "outside \<Rightarrow> tables \<Rightarrow> string \<Rightarrow> int \<Rightarrow> int option \<Rightarrow> int option" where
  "fold_from x t name width first =
     (let w = watermark x t name in
      if w = 0 then map_option (floor_to width) first else Some w)"

definition fold_rows :: "(fold_map \<Rightarrow> sql_row \<Rightarrow> fold_map) \<Rightarrow> string \<Rightarrow> sql_row list \<Rightarrow> fold_map" where
  "fold_rows step col rows = foldl step [] (sort_key (\<lambda>r. row_int r col) rows)"

definition fold_minutes :: "outside \<Rightarrow> tables \<Rightarrow> int \<Rightarrow> write_op list \<times> nat" where
  "fold_minutes x t before =
     (case fold_from x t ''fold.minute'' WidthMinute (min_of ''started_at'' (t ''samples'')) of
        None \<Rightarrow> ([], 0)
      | Some w \<Rightarrow>
          if w \<ge> before then ([], 0)
          else
            let rows = filter (\<lambda>r. in_window ''started_at'' w before r \<and> r ''manual'' = SInt 0) (t ''samples'');
                folds = fold_rows (fold_sample_row x) ''started_at'' rows
            in (map fold_op (sorted_folds folds) @ [watermark_op ''fold.minute'' before], length folds))"

definition minute_rows :: "sql_row list \<Rightarrow> sql_row list" where
  "minute_rows rows = filter (\<lambda>r. r ''width_seconds'' = SInt WidthMinute) rows"

definition fold_hours :: "outside \<Rightarrow> tables \<Rightarrow> int \<Rightarrow> write_op list \<times> nat" where
  "fold_hours x t before =
     (case fold_from x t ''fold.hour'' WidthHour (min_of ''bucket_start'' (minute_rows (t ''buckets''))) of
        None \<Rightarrow> ([], 0)
      | Some w \<Rightarrow>
          if w \<ge> before then ([], 0)
          else
            let rows = filter (in_window ''bucket_start'' w before) (minute_rows (t ''buckets''));
                folds = fold_rows (fold_bucket_row x) ''bucket_start'' rows
            in (map fold_op (sorted_folds folds) @ [watermark_op ''fold.hour'' before], length folds))"

text \<open>\<open>Fold\<close>: \<open>None\<close> when there is nothing to write.\<close>

definition fold_all :: "outside \<Rightarrow> string \<Rightarrow> int \<Rightarrow> register \<Rightarrow> int \<Rightarrow>
    ((commit_error + tx_row) \<times> register) option" where
  "fold_all x tenant now reg before =
     (let (ops, folded) = fold_minutes x (reg_tables reg) (floor_to WidthMinute before);
          (hour_ops, hour_folded) = fold_hours x (reg_tables reg) (floor_to WidthHour before);
          all_ops = ops @ hour_ops
      in if all_ops = [] then None
         else Some (commit x tenant now reg
           \<lparr>env_kind = ''rollup.fold'', env_tenant = [], env_service = [], env_object_ids = [],
            env_author = system_author, env_timestamp = now,
            env_message = ''Fold '' @ show_nat folded @ '' minutes and '' @ show_nat hour_folded @
              '' hours of readings'', env_refs = []\<rparr> all_ops))"

section \<open>Retention\<close>

definition DefaultRawRetentionDays :: int where "DefaultRawRetentionDays = 90"

text \<open>The instant before which a prune removes readings.\<close>

definition prune_before :: "outside \<Rightarrow> tables \<Rightarrow> int \<Rightarrow> int \<Rightarrow> int \<Rightarrow> int" where
  "prune_before x t days now before =
     (let b = (if before \<le> 0
               then i64 (now - i64 ((if days \<le> 0 then DefaultRawRetentionDays else days) * 86400)) else before);
          w = watermark x t ''fold.minute''
      in if w < b then w else b)"

definition prune_rows :: "outside \<Rightarrow> tables \<Rightarrow> int \<Rightarrow> sql_row list" where
  "prune_rows x t b =
     take 5000 (sort_key (\<lambda>r. row_int r ''started_at'')
       (filter (\<lambda>r. r ''started_at'' \<noteq> SNull \<and> row_int r ''started_at'' < b \<and> r ''pruned'' = SInt 0)
         (t ''samples'')))"

definition prune_ops :: "outside \<Rightarrow> tables \<Rightarrow> int \<Rightarrow> int \<Rightarrow> int \<Rightarrow> write_op list" where
  "prune_ops x t days now before =
     (let b = prune_before x t days now before;
          rows = prune_rows x t b
      in if b \<le> 0 \<or> rows = [] then []
         else map (\<lambda>r. \<lparr>w_table = ''samples'', w_key = [(''id'', VStr (row_str (x_ftext x) r ''id''))],
                        w_values = [], w_delete = True\<rparr>) rows @
              [\<lparr>w_table = ''prune_marks'',
                w_key = [(''txid'', VStr TxIDPlaceholder), (''idx'', VUint64 0)],
                w_values = [(''scope'', VStr ''samples''), (''from_time'', VInt64 0), (''to_time'', VInt64 b),
                   (''rows_removed'', VInt64 (int (length rows))), (''policy'', VStr ''raw-retention''),
                   (''created_at'', VInt64 now)],
                w_delete = False\<rparr>])"

section \<open>What a run of the folder produces\<close>

lemma fold_into_lookup:
  "map_of (fold_into k fresh upd m) k' =
     (if k' = k then Some (upd (case map_of m k of None \<Rightarrow> fresh | Some f \<Rightarrow> f)) else map_of m k')"
  by (auto simp: fold_into_def update_conv map_add_def split: option.splits)

lemma fold_into_keys:
  "distinct (map fst m) \<Longrightarrow> distinct (map fst (fold_into k fresh upd m))"
  "fst ` set (fold_into k fresh upd m) = insert k (fst ` set m)"
  by (auto simp: fold_into_def distinct_update update_conv map_of_eq_None_iff
      simp flip: dom_map_of_conv_image_fst split: option.splits if_splits)

lemma foldl_grouped:
  fixes kf :: "'r \<Rightarrow> string \<times> int" and fr :: "'r \<Rightarrow> fold" and up :: "'r \<Rightarrow> fold \<Rightarrow> fold"
  defines "run \<equiv> foldl (\<lambda>m r. fold_into (kf r) (fr r) (up r) m)"
  shows "map_of (run m rows) k =
      (case filter (\<lambda>r. kf r = k) rows of
         [] \<Rightarrow> map_of m k
       | r # rs \<Rightarrow> Some (foldl (\<lambda>f r. up r f) (case map_of m k of None \<Rightarrow> fr r | Some f \<Rightarrow> f) (r # rs)))"
    and "distinct (map fst m) \<Longrightarrow> distinct (map fst (run m rows))"
    and "fst ` set (run m rows) = kf ` set rows \<union> fst ` set m"
proof -
  show "map_of (run m rows) k =
      (case filter (\<lambda>r. kf r = k) rows of
         [] \<Rightarrow> map_of m k
       | r # rs \<Rightarrow> Some (foldl (\<lambda>f r. up r f) (case map_of m k of None \<Rightarrow> fr r | Some f \<Rightarrow> f) (r # rs)))"
    unfolding run_def
    by (induction rows arbitrary: m) (auto simp: fold_into_lookup split: list.split)
  show "distinct (map fst m) \<Longrightarrow> distinct (map fst (run m rows))"
    unfolding run_def by (induction rows arbitrary: m) (simp_all add: fold_into_keys(1))
  show "fst ` set (run m rows) = kf ` set rows \<union> fst ` set m"
    unfolding run_def by (induction rows arbitrary: m) (auto simp: fold_into_keys(2))
qed

definition minute_key :: "outside \<Rightarrow> sql_row \<Rightarrow> string \<times> int" where
  "minute_key x r = (row_str (x_ftext x) r ''monitor_id'', floor_to WidthMinute (row_int r ''started_at''))"

definition reading :: "outside \<Rightarrow> sql_row \<Rightarrow> string" where
  "reading x r = row_str (x_ftext x) r ''verdict''"

definition fold_of_samples :: "outside \<Rightarrow> sql_row list \<Rightarrow> fold \<Rightarrow> fold" where
  "fold_of_samples x rs f =
     foldl (\<lambda>f r. add_sample (reading x r) (row_int r ''duration_ms'') (row_bool r ''in_maintenance'') f) f rs"

lemma fold_of_samples_fields:
  "f_monitor (fold_of_samples x rs f) = f_monitor f \<and> f_start (fold_of_samples x rs f) = f_start f \<and>
   f_width (fold_of_samples x rs f) = f_width f \<and>
   f_seen_intervals (fold_of_samples x rs f) = f_seen_intervals f \<and>
   f_up (fold_of_samples x rs f) = f_up f + int (length (filter (\<lambda>r. reading x r = Up) rs)) \<and>
   f_degraded (fold_of_samples x rs f) = f_degraded f + int (length (filter (\<lambda>r. reading x r = Degraded) rs)) \<and>
   f_down (fold_of_samples x rs f) = f_down f + int (length (filter (\<lambda>r. reading x r = Down) rs)) \<and>
   f_errors (fold_of_samples x rs f) =
     f_errors f + int (length (filter (\<lambda>r. reading x r \<notin> {Up, Degraded, Down}) rs)) \<and>
   f_maint (fold_of_samples x rs f) =
     f_maint f + int (length (filter (\<lambda>r. row_bool r ''in_maintenance'') rs)) \<and>
   f_latencies (fold_of_samples x rs f) =
     f_latencies f @ map (\<lambda>r. row_int r ''duration_ms'') (filter (\<lambda>r. reading x r \<noteq> Error) rs)"
proof (induction rs arbitrary: f)
  case (Cons r rs)
  have "fold_of_samples x (r # rs) f = fold_of_samples x rs
      (add_sample (reading x r) (row_int r ''duration_ms'') (row_bool r ''in_maintenance'') f)"
    by (simp add: fold_of_samples_def)
  then show ?case
    unfolding Cons.IH by (auto simp: Cons.IH add_sample_def Let_def)
qed (simp add: fold_of_samples_def)

lemma fold_sample_row_eq:
  "fold_sample_row x = (\<lambda>m r. fold_into (minute_key x r)
      (new_fold (fst (minute_key x r)) (row_str (x_ftext x) r ''component_id'')
        (row_str (x_ftext x) r ''service_id'') (snd (minute_key x r)) WidthMinute)
      (add_sample (reading x r) (row_int r ''duration_ms'') (row_bool r ''in_maintenance'')) m)"
    by (simp add: fold_sample_row_def minute_key_def reading_def Let_def fun_eq_iff)

lemma fold_minute_lookup:
  "map_of (fold_rows (fold_sample_row x) col rows) k =
     (case filter (\<lambda>r. minute_key x r = k) (sort_key (\<lambda>r. row_int r col) rows) of
        [] \<Rightarrow> None
      | r # rs \<Rightarrow> Some (fold_of_samples x (r # rs)
          (new_fold (fst k) (row_str (x_ftext x) r ''component_id'') (row_str (x_ftext x) r ''service_id'')
            (snd k) WidthMinute)))"
proof -
  have hd: "minute_key x r = k" if "filter (\<lambda>r. minute_key x r = k) rs = r # rs'" for rs r rs'
  proof -
    have "r \<in> set (filter (\<lambda>r. minute_key x r = k) rs)" unfolding that by simp
    then show ?thesis by simp
  qed
  show ?thesis
  proof (cases "filter (\<lambda>r. minute_key x r = k) (sort_key (\<lambda>r. row_int r col) rows)")
    case Nil
    then show ?thesis unfolding fold_rows_def fold_sample_row_eq foldl_grouped(1) by simp
  next
    case (Cons r rs)
    from hd [OF Cons] Cons show ?thesis
      unfolding fold_rows_def fold_sample_row_eq foldl_grouped(1) fold_of_samples_def by simp
  qed
qed

lemma fold_rows_keys:
  "distinct (map fst (fold_rows (fold_sample_row x) col rows))"
  "fst ` set (fold_rows (fold_sample_row x) col rows) = minute_key x ` set rows"
proof -
  show "distinct (map fst (fold_rows (fold_sample_row x) col rows))"
    unfolding fold_rows_def fold_sample_row_eq by (rule foldl_grouped(2)) simp
  show "fst ` set (fold_rows (fold_sample_row x) col rows) = minute_key x ` set rows"
    unfolding fold_rows_def fold_sample_row_eq foldl_grouped(3) by simp
qed

lemma length_filter_sort_key: "length (filter P (sort_key f xs)) = length (filter P xs)"
  by (metis mset_filter mset_sort size_mset)

section \<open>Properties\<close>

text \<open>
  Claim C21. Folding counts every reading once: a run makes exactly one fold for each
  monitor and minute that has readings, and its counts are the numbers of readings of each
  verdict in that minute, with one latency for each reading that was taken.
\<close>

theorem each_reading_is_folded_once:
  "let m = fold_rows (fold_sample_row x) ''started_at'' rows;
       of_key = \<lambda>k P. int (length (filter (\<lambda>r. minute_key x r = k \<and> P (reading x r)) rows))
   in distinct (map fst m) \<and> fst ` set m = minute_key x ` set rows \<and>
      (\<forall>(k, f) \<in> set m. (f_monitor f, f_start f) = k \<and> f_width f = WidthMinute \<and>
         f_up f = of_key k (\<lambda>v. v = Up) \<and> f_degraded f = of_key k (\<lambda>v. v = Degraded) \<and>
         f_down f = of_key k (\<lambda>v. v = Down) \<and>
         f_errors f = of_key k (\<lambda>v. v \<notin> {Up, Degraded, Down}) \<and>
         int (length (f_latencies f)) = of_key k (\<lambda>v. v \<noteq> Error))"
proof -
  let ?m = "fold_rows (fold_sample_row x) ''started_at'' rows"
  let ?srt = "sort_key (\<lambda>r. row_int r ''started_at'') rows"
  have "(f_monitor f, f_start f) = k \<and> f_width f = WidthMinute \<and>
      f_up f = int (length (filter (\<lambda>r. minute_key x r = k \<and> reading x r = Up) rows)) \<and>
      f_degraded f = int (length (filter (\<lambda>r. minute_key x r = k \<and> reading x r = Degraded) rows)) \<and>
      f_down f = int (length (filter (\<lambda>r. minute_key x r = k \<and> reading x r = Down) rows)) \<and>
      f_errors f = int (length (filter (\<lambda>r. minute_key x r = k \<and> reading x r \<notin> {Up, Degraded, Down}) rows)) \<and>
      int (length (f_latencies f)) = int (length (filter (\<lambda>r. minute_key x r = k \<and> reading x r \<noteq> Error) rows))"
    if "(k, f) \<in> set ?m" for k f
  proof -
    have "map_of ?m k = Some f" using that fold_rows_keys(1) by simp
    then obtain r rs where rs: "filter (\<lambda>r. minute_key x r = k) ?srt = r # rs"
      and f: "f = fold_of_samples x (r # rs) (new_fold (fst k) (row_str (x_ftext x) r ''component_id'')
          (row_str (x_ftext x) r ''service_id'') (snd k) WidthMinute)"
      unfolding fold_minute_lookup by (auto split: list.splits)
    show ?thesis
      unfolding f using fold_of_samples_fields [of x "r # rs"]
      by (simp add: rs [symmetric] length_filter_sort_key new_fold_def)
  qed
  then show ?thesis
    using fold_rows_keys [of x "''started_at''" rows] by (auto simp: Let_def)
qed

theorem each_reading_is_folded_once_witness:
  "fst ` set (fold_rows (fold_sample_row sample_outside) ''started_at''
     [sample_row [(''monitor_id'', SStr ''m1''), (''started_at'', SInt 130), (''verdict'', SStr Up)]]) =
   {(''m1'', 120)}"
proof -
  let ?r = "sample_row [(''monitor_id'', SStr ''m1''), (''started_at'', SInt 130), (''verdict'', SStr Up)]"
  have "minute_key sample_outside ?r = (''m1'', 120)"
    by (simp add: minute_key_def sample_row_def set_columns_def row_str_def row_int_def as_int_def
        i64_def floor_to_def WidthMinute_def)
  with each_reading_is_folded_once [of sample_outside "[?r]"] show ?thesis by (simp add: Let_def)
qed

text \<open>The hours of a run, from their minutes.\<close>

definition hour_key :: "outside \<Rightarrow> sql_row \<Rightarrow> string \<times> int" where
  "hour_key x r = (row_str (x_ftext x) r ''monitor_id'', floor_to WidthHour (row_int r ''bucket_start''))"

definition fold_of_buckets :: "bucket list \<Rightarrow> fold \<Rightarrow> fold" where
  "fold_of_buckets bs f = foldl (\<lambda>f b. add_bucket b f) f bs"

lemma fold_of_buckets_fields:
  "f_width (fold_of_buckets bs f) = f_width f \<and>
   f_monitor (fold_of_buckets bs f) = f_monitor f \<and> f_start (fold_of_buckets bs f) = f_start f \<and>
   f_up (fold_of_buckets bs f) = f_up f + sum_list (map b_up bs) \<and>
   f_degraded (fold_of_buckets bs f) = f_degraded f + sum_list (map b_degraded bs) \<and>
   f_down (fold_of_buckets bs f) = f_down f + sum_list (map b_down bs) \<and>
   f_errors (fold_of_buckets bs f) = f_errors f + sum_list (map b_errors bs) \<and>
   f_seen_intervals (fold_of_buckets bs f) = f_seen_intervals f + int (length bs) \<and>
   f_down_intervals (fold_of_buckets bs f) =
     f_down_intervals f + int (length (filter (\<lambda>b. b_verdict b = Down) bs))"
proof (induction bs arbitrary: f)
  case (Cons b bs)
  have "fold_of_buckets (b # bs) f = fold_of_buckets bs (add_bucket b f)"
    by (simp add: fold_of_buckets_def)
  then show ?case
    unfolding Cons.IH by (auto simp: Cons.IH add_bucket_def Let_def)
qed (simp add: fold_of_buckets_def)

lemma fold_hour_lookup:
  assumes "map_of (fold_rows (fold_bucket_row x) col rows) k = Some f"
  shows "\<exists>bs c s. mset bs = mset (map (bucket_from_row x) (filter (\<lambda>r. hour_key x r = k) rows)) \<and> bs \<noteq> [] \<and>
    f = fold_of_buckets bs (new_fold (fst k) c s (snd k) WidthHour)"
proof -
  let ?srt = "sort_key (\<lambda>r. row_int r col) rows"
  have step: "fold_bucket_row x = (\<lambda>m r. fold_into (hour_key x r)
      (new_fold (fst (hour_key x r)) (row_str (x_ftext x) r ''component_id'')
        (row_str (x_ftext x) r ''service_id'') (snd (hour_key x r)) WidthHour)
      (add_bucket (bucket_from_row x r)) m)"
    by (simp add: fold_bucket_row_def hour_key_def Let_def fun_eq_iff)
  obtain r rs where rs: "filter (\<lambda>r. hour_key x r = k) ?srt = r # rs"
    and f: "f = foldl (\<lambda>f r. add_bucket (bucket_from_row x r) f)
        (new_fold (fst (hour_key x r)) (row_str (x_ftext x) r ''component_id'')
          (row_str (x_ftext x) r ''service_id'') (snd (hour_key x r)) WidthHour) (r # rs)"
    using assms unfolding fold_rows_def step foldl_grouped(1) by (auto split: list.splits)
  have "r \<in> set (filter (\<lambda>r. hour_key x r = k) ?srt)" unfolding rs by simp
  then have k: "hour_key x r = k" by simp
  have "mset (filter (\<lambda>r. hour_key x r = k) ?srt) = mset (filter (\<lambda>r. hour_key x r = k) rows)"
    by (simp only: mset_filter mset_sort)
  then have m: "mset (map (bucket_from_row x) (r # rs)) =
      mset (map (bucket_from_row x) (filter (\<lambda>r. hour_key x r = k) rows))"
    unfolding rs by (simp only: mset_map)
  have "f = fold_of_buckets (map (bucket_from_row x) (r # rs))
      (new_fold (fst k) (row_str (x_ftext x) r ''component_id'') (row_str (x_ftext x) r ''service_id'') (snd k) WidthHour)"
    unfolding f k fold_of_buckets_def foldl_map by simp
  with m show ?thesis by blast
qed

text \<open>
  An hour is pessimistic: the hour folded from a monitor's minutes is down
  exactly when one of those minutes is down, and its counts are the sums of theirs, so no
  reading is lost or invented between the two resolutions.
\<close>

lemma hour_is_down_iff_a_minute_is:
  assumes "map_of (fold_rows (fold_bucket_row x) ''bucket_start'' rows) k = Some f"
  defines "bs \<equiv> map (bucket_from_row x) (filter (\<lambda>r. hour_key x r = k) rows)"
  shows "(fold_verdict f = Down \<longleftrightarrow> (\<exists>b \<in> set bs. b_verdict b = Down)) \<and>
    f_up f = sum_list (map b_up bs) \<and> f_degraded f = sum_list (map b_degraded bs) \<and>
    f_down f = sum_list (map b_down bs) \<and> f_errors f = sum_list (map b_errors bs)"
proof -
  obtain bs' c s where bs': "mset bs' = mset bs" "bs' \<noteq> []"
    and f: "f = fold_of_buckets bs' (new_fold (fst k) c s (snd k) WidthHour)"
    using fold_hour_lookup [OF assms(1)] unfolding bs_def by blast
  have sums: "sum_list (map g bs') = sum_list (map g bs)" for g :: "bucket \<Rightarrow> int"
    using bs'(1) by (metis mset_map sum_mset_sum_list)
  have sets: "set bs' = set bs" using bs'(1) by (rule mset_eq_setD)
  note fields = fold_of_buckets_fields [of bs' "new_fold (fst k) c s (snd k) WidthHour"]
  have "0 < int (length bs')" using bs'(2) by simp
  then have "fold_verdict f = Down \<longleftrightarrow> 0 < length (filter (\<lambda>b. b_verdict b = Down) bs')"
    using fields by (auto simp: fold_verdict_def f new_fold_def)
  also have "\<dots> \<longleftrightarrow> (\<exists>b \<in> set bs. b_verdict b = Down)"
    using sets by (simp add: filter_empty_conv)
  finally show ?thesis
    using fields unfolding f by (simp add: sums new_fold_def)
qed

definition sample_minutes :: "sql_row list" where
  "sample_minutes =
     [sample_row [(''monitor_id'', SStr ''m1''), (''bucket_start'', SInt 3600), (''width_seconds'', SInt 60),
        (''up_count'', SInt 1), (''verdict'', SStr Up)],
      sample_row [(''monitor_id'', SStr ''m1''), (''bucket_start'', SInt 3660), (''width_seconds'', SInt 60),
        (''down_count'', SInt 1), (''verdict'', SStr Down)]]"

lemma sample_minutes_key: "r \<in> set sample_minutes \<Longrightarrow> hour_key sample_outside r = (''m1'', 3600)"
  by (auto simp: sample_minutes_def hour_key_def sample_row_def set_columns_def row_str_def row_int_def
      as_int_def i64_def floor_to_def WidthHour_def)

lemma fold_op_entry: "entry_ok x txid (fold_op f)"
proof -
  obtain p50 p95 mx where p: "percentiles (f_latencies f) = (p50, p95, mx)" by (metis prod_cases3)
  define v where "v = fold_verdict f"
  show ?thesis
    unfolding fold_op_def p v_def [symmetric]
    by (simp add: entry_ok_def pk_columns_def subst_fields_def substitute_simps lit_fields_def
        entry_key_def entry_fields_def valid_key_def valid_fields_def)
qed

lemma watermark_op_entry:
  "entry_ok x txid (watermark_op name v)"
  "entry_run x txid (watermark_op name v) =
     ([(''k'', SStr (''watermark.'' @ name))], Some [(''v'', SStr (show_int v)), (''updated_at'', SInt v)])"
  by (simp_all add: watermark_op_def entry_ok_def pk_columns_def subst_fields_def substitute_simps
      lit_fields_def entry_key_def entry_fields_def valid_key_def valid_fields_def entry_run_def
      TxIDPlaceholder_def)

lemma watermark_read:
  assumes "in_i64 v"
  shows "watermark x (t(''registry'' := upsert [(''k'', SStr (''watermark.'' @ name))]
      [(''v'', SStr (show_int v)), (''updated_at'', SInt v)] rs)) name = v"
proof -
  let ?k = "[(''k'', SStr (''watermark.'' @ name))]"
  let ?f = "[(''v'', SStr (show_int v)), (''updated_at'', SInt v)]"
  have k: "valid_key [''k''] ?k" and f: "valid_fields [''k''] ?f"
    by (simp_all add: valid_key_def valid_fields_def)
  have sel: "row_at ?k rs \<noteq> None \<longrightarrow> selects ?k (the (row_at ?k rs))"
    unfolding row_at_def by (metis find_Some_iff option.collapse)
  have "overlay_row ?k ?f (row_at ?k rs) ''v'' = SStr (show_int v)"
    by (rule overlay_columns(1) [OF k sel _ f]) simp
  then show ?thesis
    using assms rows.get_put [OF k f, of rs] by (simp add: watermark_def)
qed

text \<open>
  Runs of the folder neither skip nor repeat an interval: a run that writes
  anything folds exactly the readings from the watermark up to its end, and leaves the
  watermark at its end, where the next run starts.
\<close>

lemma fold_windows_are_adjacent:
  assumes "x_engine x = (\<lambda>_. None)" "in_i64 before"
    and "fold_minutes x t before = (ops, n)" "ops \<noteq> []"
    and "apply_entries x txid i t ops = Inr t'"
  shows "watermark x t' ''fold.minute'' = before \<and>
    (\<exists>w. (watermark x t ''fold.minute'' \<noteq> 0 \<longrightarrow> w = watermark x t ''fold.minute'') \<and> w < before \<and>
      ops = map fold_op (sorted_folds (fold_rows (fold_sample_row x) ''started_at''
        (filter (\<lambda>r. in_window ''started_at'' w before r \<and> r ''manual'' = SInt 0) (t ''samples'')))) @
        [watermark_op ''fold.minute'' before])"
proof -
  obtain w where w: "fold_from x t ''fold.minute'' WidthMinute (min_of ''started_at'' (t ''samples'')) = Some w"
    "w < before"
    using assms(3,4) by (auto simp: fold_minutes_def Let_def split: option.splits if_splits)
  define folds where "folds = fold_rows (fold_sample_row x) ''started_at''
      (filter (\<lambda>r. in_window ''started_at'' w before r \<and> r ''manual'' = SInt 0) (t ''samples''))"
  have ops: "ops = map fold_op (sorted_folds folds) @ [watermark_op ''fold.minute'' before]"
    using assms(3) w by (simp add: fold_minutes_def Let_def folds_def)
  have "list_all (entry_ok x txid) ops"
    by (simp add: ops list_all_iff fold_op_entry watermark_op_entry)
  from apply_entries_run [OF assms(1) this, of i t] assms(5)
  have "t' ''registry'' = rows.run (map (entry_run x txid) (filter (\<lambda>op. w_table op = ''registry'') ops)) (t ''registry'')"
    by simp
  moreover have "filter (\<lambda>op. w_table op = ''registry'') ops = [watermark_op ''fold.minute'' before]"
    by (auto simp: ops fold_op_def watermark_op_def filter_empty_conv split: prod.splits)
  ultimately have "t' = t'(''registry'' := upsert [(''k'', SStr (''watermark.fold.minute''))]
      [(''v'', SStr (show_int before)), (''updated_at'', SInt before)] (t ''registry''))"
    by (auto simp: rows.run_def rows.run1_def watermark_op_entry fun_eq_iff)
  then have "watermark x t' ''fold.minute'' = before"
    using watermark_read [OF assms(2), of x t' "''fold.minute''" "t ''registry''"] by simp
  moreover have "watermark x t ''fold.minute'' \<noteq> 0 \<longrightarrow> w = watermark x t ''fold.minute''"
    using w(1) by (auto simp: fold_from_def Let_def)
  ultimately show ?thesis using w(2) ops unfolding folds_def by blast
qed

lemma pick_mem: "srt \<noteq> [] \<Longrightarrow> pick p srt \<in> set srt"
  by (simp add: pick_def Let_def)

lemma pick_mono:
  assumes "sorted srt" "srt \<noteq> []" "p \<le> q"
  shows "pick p srt \<le> pick q srt"
proof -
  define i where "i = p * (length srt - 1) div 100"
  define j where "j = q * (length srt - 1) div 100"
  have "i \<le> j"
    unfolding i_def j_def using assms(3) by (intro div_le_mono mult_le_mono1)
  moreover have "0 < length srt" using assms(2) by simp
  ultimately show ?thesis
    unfolding pick_def Let_def i_def [symmetric] j_def [symmetric]
    by (intro sorted_nth_mono [OF assms(1)]) (auto split: if_splits)
qed

text \<open>
  The percentiles of an interval are readings it has, in order: the median is at
  most the 95th percentile, which is at most the maximum, and no reading exceeds the
  maximum; an interval without latencies reports zeros.
\<close>

lemma percentiles_ordered:
  "case percentiles ls of (p50, p95, mx) \<Rightarrow>
     (if ls = [] then p50 = 0 \<and> p95 = 0 \<and> mx = 0
      else p50 \<le> p95 \<and> p95 \<le> mx \<and> {p50, p95, mx} \<subseteq> set ls \<and> mx = Max (set ls))"
proof (cases "ls = []")
  case False
  define srt where "srt = sort ls"
  define top where "top = srt ! (length srt - 1)"
  have srt: "sorted srt" "set srt = set ls" by (simp_all add: srt_def)
  then have ne: "srt \<noteq> []" using False by auto
  have le: "y \<le> top" if y: "y \<in> set srt" for y
  proof -
    obtain j where j: "j < length srt" "y = srt ! j" using y by (metis in_set_conv_nth)
    have "srt ! j \<le> srt ! (length srt - 1)" using j(1) by (intro sorted_nth_mono [OF srt(1)]) auto
    then show ?thesis by (simp add: j(2) top_def)
  qed
  have mem: "top \<in> set srt" using ne by (simp add: top_def)
  have mx: "top = Max (set ls)"
    using le mem by (intro Max_eqI [symmetric]) (auto simp: srt(2))
  have "percentiles ls = (pick 50 srt, pick 95 srt, top)"
    using False by (simp add: percentiles_def Let_def srt_def top_def)
  moreover have "pick 50 srt \<le> pick 95 srt" by (rule pick_mono [OF srt(1) ne]) simp
  moreover have "pick 95 srt \<le> top" by (rule le [OF pick_mem [OF ne]])
  moreover have "{pick 50 srt, pick 95 srt, top} \<subseteq> set ls"
    using pick_mem [OF ne] mem by (simp add: srt(2))
  ultimately show ?thesis using False mx by (simp only: prod.case if_False)
qed (simp add: percentiles_def)

text \<open>
  Retention never outruns the folder: every reading a prune deletes lies before
  both the retention bound and the folder's watermark, so the interval of a scheduled
  reading was folded before the reading goes; a prune that deletes anything also writes one
  mark with the number of readings removed.
\<close>

lemma prune_stays_behind_the_folder:
  assumes "op \<in> set (prune_ops x t days now before)"
  shows "(w_delete op \<longrightarrow> w_table op = ''samples'' \<and>
      (\<exists>r \<in> set (t ''samples''). w_key op = [(''id'', VStr (row_str (x_ftext x) r ''id''))] \<and>
        row_int r ''started_at'' < watermark x t ''fold.minute'' \<and>
        (0 < before \<longrightarrow> row_int r ''started_at'' < before))) \<and>
    (\<not> w_delete op \<longrightarrow> w_table op = ''prune_marks'' \<and>
      map_of (w_values op) ''rows_removed'' =
        Some (VInt64 (int (length (filter w_delete (prune_ops x t days now before))))))"
proof -
  define b where "b = prune_before x t days now before"
  define rs where "rs = prune_rows x t b"
  have b: "b \<le> watermark x t ''fold.minute''" "0 < before \<longrightarrow> b \<le> before"
    by (auto simp: b_def prune_before_def Let_def)
  have rs: "r \<in> set (t ''samples'') \<and> row_int r ''started_at'' < b" if "r \<in> set rs" for r
    using in_set_takeD [OF that [unfolded rs_def prune_rows_def]] by auto
  have ops: "prune_ops x t days now before =
      map (\<lambda>r. \<lparr>w_table = ''samples'', w_key = [(''id'', VStr (row_str (x_ftext x) r ''id''))],
                w_values = [], w_delete = True\<rparr>) rs @
      [\<lparr>w_table = ''prune_marks'', w_key = [(''txid'', VStr TxIDPlaceholder), (''idx'', VUint64 0)],
        w_values = [(''scope'', VStr ''samples''), (''from_time'', VInt64 0), (''to_time'', VInt64 b),
           (''rows_removed'', VInt64 (int (length rs))), (''policy'', VStr ''raw-retention''),
           (''created_at'', VInt64 now)], w_delete = False\<rparr>]"
    using assms unfolding prune_ops_def Let_def b_def [symmetric] rs_def [symmetric]
    by (auto split: if_splits)
  show ?thesis
    using assms rs b unfolding ops by (fastforce simp: filter_map comp_def)
qed

end
