(* ===== verification/Clock.thy ===== *)
theory Clock
  imports Prelude
begin

text \<open>
  The platform clock: what one poll of a runtime shows and calls for
  (\<open>internal/clock/decide.go\<close>, \<open>platform.go\<close>, \<open>wire.go\<close>), how a poll moves the
  monitor's position on it (\<open>Poll\<close>, \<open>advance\<close>, \<open>act\<close>, \<open>alertOnReading\<close>,
  \<open>alertOnVault\<close> and \<open>clearUnconfiguredAlert\<close> of \<open>service.go\<close>). The records are
  the structs of \<open>internal/model/clock.go\<close>.
\<close>

section \<open>Data\<close>

text \<open>What came of a poll; only \<open>OutOK\<close> carries a runtime's answer.\<close>

datatype poll_outcome = OutOK | OutUnreachable | OutUnverified | OutRefused | OutInvalid

abbreviation VerdictInSync :: string where "VerdictInSync \<equiv> ''in_sync''"
abbreviation VerdictMonitorWrong :: string where "VerdictMonitorWrong \<equiv> ''monitor_clock_wrong''"
abbreviation VerdictHostWrong :: string where "VerdictHostWrong \<equiv> ''host_clock_wrong''"
abbreviation ReasonNTSUnreachable :: string where "ReasonNTSUnreachable \<equiv> ''nts_unreachable''"

definition Tolerance :: int where "Tolerance = 10000"
definition MaxFailedPolls :: int where "MaxFailedPolls = 2"

record clock_reading =
  rd_id :: string
  rd_enclave :: string
  rd_name :: string
  rd_tee :: string
  rd_cause :: string
  rd_incident :: string
  rd_seq :: int
  rd_sent :: int
  rd_monitor :: int
  rd_rtt :: int
  rd_outcome :: poll_outcome
  rd_error :: string
  rd_status :: int
  rd_runtime :: string
  rd_host :: int
  rd_trusted :: int
  rd_floor :: int
  rd_flagged :: bool
  rd_reason :: string
  rd_verdict :: string
  rd_nts :: int
  rd_nts_servers :: "string list"
  rd_config_key :: string
  rd_platform :: string
  rd_drift :: int

text \<open>Why the monitor acts, with the values the code puts in the text.\<close>

datatype clock_reason =
    HostClockWrong int int int
  | NoTrustedTime string
  | FrozenTime string
  | HostDrift int int int
  | FailedClosed string
  | Silent int string
  | FlaggedThenSilent string poll_outcome
  | BackInSync int
  | NeverConfigured int
  | Acknowledged int

record clock_enclave =
  ce_id :: string
  ce_name :: string
  ce_tee :: string
  ce_mgr :: string
  ce_last_reading :: string
  ce_last_outcome :: "poll_outcome option"
  ce_last :: int
  ce_last_ok :: int
  ce_last_verdict :: string
  ce_last_flagged :: bool
  ce_last_reason :: string
  ce_last_drift :: int
  ce_last_host :: int
  ce_last_config_key :: string
  ce_config_missing :: bool
  ce_failed_polls :: int
  ce_quarantined :: bool
  ce_quarantined_at :: int
  ce_quarantine_reason :: "clock_reason option"
  ce_updated :: int

text \<open>
  \<open>Enclave\<close>: a runtime as the control plane lists it. Its quarantine reason is the
  platform's text, or the monitor's own reason once \<open>setPlatformQuarantined\<close> wrote it.
\<close>

record enclave =
  en_id :: string
  en_kind :: string
  en_name :: string
  en_tee :: string
  en_mgr :: string
  en_gateway :: string
  en_port :: int
  en_config_version :: int
  en_quarantined :: bool
  en_quarantine_reason :: "string + clock_reason"
  en_config_current :: int
  en_config_known :: bool

definition clock_armed :: "enclave \<Rightarrow> bool" where
  "clock_armed e \<longleftrightarrow> en_config_known e \<and> en_config_current e > 0 \<and> en_config_version e \<ge> en_config_current e"

definition clock_never_configured :: "enclave \<Rightarrow> bool" where
  "clock_never_configured e \<longleftrightarrow> en_config_known e \<and> en_config_version e = 0"

text \<open>\<open>strings.EqualFold\<close> on ASCII.\<close>

definition equal_fold :: "string \<Rightarrow> string \<Rightarrow> bool" where
  "equal_fold a b \<longleftrightarrow> to_lower a = to_lower b"

definition is_vault :: "enclave \<Rightarrow> bool" where
  "is_vault e \<longleftrightarrow> equal_fold (en_kind e) ''vault''"

definition kind_or_default :: "enclave \<Rightarrow> string" where
  "kind_or_default e = (if is_vault e then ''vault'' else ''enclave'')"

definition is_sgx :: "enclave \<Rightarrow> bool" where
  "is_sgx e \<longleftrightarrow> is_vault e \<or> equal_fold (en_tee e) ''sgx'' \<or> equal_fold (en_tee e) ''mini''"

definition poll_path :: "enclave \<Rightarrow> string" where
  "poll_path e = (if is_sgx e then ''/clock/poll'' else ''/api/v1/clock/poll'')"

section \<open>What a reading calls for\<close>

definition drift_of :: "int \<Rightarrow> int \<Rightarrow> int \<Rightarrow> int" where
  "drift_of host sent received = i64 (host - i64 (sent + go_quot (i64 (received - sent)) 2))"

definition abs64 :: "int \<Rightarrow> int" where
  "abs64 v = (if v < 0 then i64 (- v) else v)"

definition config_missing :: "clock_reading \<Rightarrow> string \<Rightarrow> bool" where
  "config_missing r key =
     (case rd_outcome r of
        OutOK \<Rightarrow> rd_config_key r \<noteq> key
      | OutRefused \<Rightarrow> rd_status r = 409 \<or> rd_status r = 401
      | _ \<Rightarrow> False)"

definition clock_problem :: "clock_reading \<Rightarrow> clock_reason option" where
  "clock_problem r =
     (if rd_verdict r = VerdictHostWrong then Some (HostClockWrong (rd_host r) (rd_nts r) (rd_sent r))
      else if rd_verdict r = VerdictMonitorWrong then None
      else if rd_trusted r = 0 \<or> rd_reason r = ReasonNTSUnreachable then Some (NoTrustedTime (rd_reason r))
      else if rd_flagged r then Some (FrozenTime (rd_reason r))
      else if abs64 (rd_drift r) > Tolerance then Some (HostDrift (rd_drift r) (rd_host r) (rd_monitor r))
      else None)"

definition failed_closed :: "clock_reading \<Rightarrow> bool" where
  "failed_closed r \<longleftrightarrow> rd_outcome r = OutRefused \<and> rd_status r = 503 \<and>
     \<not> str_contains (to_lower (rd_error r)) ''not enabled''"

definition clean_reading :: "clock_reading \<Rightarrow> bool" where
  "clean_reading r \<longleftrightarrow> rd_outcome r = OutOK \<and> rd_verdict r = VerdictInSync \<and> \<not> rd_flagged r \<and>
     rd_trusted r \<noteq> 0 \<and> abs64 (rd_drift r) \<le> Tolerance"

datatype clock_op = Quarantine | Release

text \<open>\<open>Decide\<close>: \<open>None\<close> is a decision with no operation.\<close>

definition decide :: "clock_enclave \<Rightarrow> clock_reading \<Rightarrow> bool \<Rightarrow> string \<Rightarrow> (clock_op \<times> clock_reason) option" where
  "decide prev r platform_quarantined key =
     (let ours = ce_quarantined prev;
          free = \<not> ours \<and> \<not> platform_quarantined;
          silent = i64 (ce_failed_polls prev + 1)
      in if rd_outcome r = OutOK then
           (case clock_problem r of
              Some reason \<Rightarrow> if ours \<or> platform_quarantined then None else Some (Quarantine, reason)
            | None \<Rightarrow> if ours \<and> clean_reading r then Some (Release, BackInSync (rd_drift r)) else None)
         else if config_missing r key then None
         else if failed_closed r \<and> free then Some (Quarantine, FailedClosed (rd_error r))
         else if rd_outcome r = OutUnreachable \<and> silent \<ge> MaxFailedPolls \<and> free
           then Some (Quarantine, Silent silent (rd_error r))
         else if ce_last_flagged prev \<and> free
           then Some (Quarantine, FlaggedThenSilent (ce_last_reason prev) (rd_outcome r))
         else None)"

text \<open>\<open>decideAlert\<close>, for the runtimes that are alerted on instead.\<close>

record alert_events =
  ev_clock_wrong :: string
  ev_unreachable :: string
  ev_back :: string

definition vault_events :: alert_events where
  "vault_events = \<lparr>ev_clock_wrong = ''clock.vault_host_clock_wrong'', ev_unreachable = ''clock.vault_unreachable'',
     ev_back = ''clock.vault_recovered''\<rparr>"

definition unconfigured_events :: alert_events where
  "unconfigured_events = \<lparr>ev_clock_wrong = ''clock.unconfigured_clock_wrong'',
     ev_unreachable = ''clock.unconfigured_unreachable'', ev_back = ''clock.unconfigured_recovered''\<rparr>"

definition decide_alert :: "alert_events \<Rightarrow> clock_enclave \<Rightarrow> clock_reading \<Rightarrow> string \<Rightarrow> string \<Rightarrow>
    (string \<times> clock_reason) option" where
  "decide_alert ev prev r standing key =
     (let raise = \<lambda>event reason. if event = standing then None else Some (event, reason);
          silent = i64 (ce_failed_polls prev + 1)
      in if rd_outcome r = OutOK then
           (case clock_problem r of
              Some reason \<Rightarrow> raise (ev_clock_wrong ev) reason
            | None \<Rightarrow> if standing \<noteq> [] \<and> clean_reading r then Some (ev_back ev, BackInSync (rd_drift r)) else None)
         else if config_missing r key then None
         else if failed_closed r then raise (ev_clock_wrong ev) (FailedClosed (rd_error r))
         else if rd_outcome r = OutUnreachable \<and> silent \<ge> MaxFailedPolls
           then raise (ev_unreachable ev) (Silent silent (rd_error r))
         else None)"

section \<open>The position after a reading\<close>

definition advance :: "clock_enclave \<Rightarrow> enclave \<Rightarrow> clock_reading \<Rightarrow> string \<Rightarrow> bool \<Rightarrow> clock_enclave" where
  "advance prev e r key platform_quarantined =
     (let n0 = prev\<lparr>ce_id := en_id e, ce_name := en_name e, ce_tee := en_tee e, ce_mgr := en_mgr e,
                    ce_last_reading := rd_id r, ce_last_outcome := Some (rd_outcome r),
                    ce_last := rd_monitor r, ce_updated := rd_monitor r\<rparr>;
          n1 = (if rd_outcome r = OutOK then
                  n0\<lparr>ce_last_ok := rd_monitor r, ce_last_verdict := rd_verdict r, ce_last_flagged := rd_flagged r,
                     ce_last_reason := rd_reason r, ce_last_drift := rd_drift r, ce_last_host := rd_host r,
                     ce_last_config_key := rd_config_key r\<rparr>
                else n0);
          n2 = (if rd_outcome r = OutOK \<or> rd_outcome r = OutRefused
                then n1\<lparr>ce_config_missing := config_missing r key\<rparr> else n1);
          n3 = n2\<lparr>ce_failed_polls := (if rd_outcome r = OutUnreachable then i64 (ce_failed_polls prev + 1) else 0)\<rparr>
      in if ce_quarantined n3 \<and> \<not> platform_quarantined
         then n3\<lparr>ce_quarantined := False, ce_quarantined_at := 0, ce_quarantine_reason := None\<rparr>
         else n3)"

section \<open>A poll\<close>

text \<open>A runtime's reply, and what the poller came back with.\<close>

record poll_reply =
  pr_enclave :: string
  pr_runtime :: string
  pr_host :: int
  pr_trusted :: int
  pr_floor :: int
  pr_flagged :: bool
  pr_reason :: string
  pr_verdict :: string
  pr_nts :: int
  pr_nts_servers :: "string list"
  pr_config_key :: string

datatype poll_result =
    PollUnreachable string
  | PollUnverified string
  | PollFailed string
  | PollAnswer int int string string "poll_reply option"

text \<open>
  The reading \<open>Poll\<close> builds; \<open>None\<close> when the monitor's own side failed. \<open>i\<close> is the
  reading's id, \<open>sent\<close>, \<open>seq\<close> and \<open>received\<close> the floor and the time of the answer.
  The answer's fields are the round trip, the status, the platform id, the body and the
  parsed reply.
\<close>

definition blank_reading :: "string \<Rightarrow> enclave \<Rightarrow> string \<Rightarrow> string \<Rightarrow> int \<Rightarrow> int \<Rightarrow> int \<Rightarrow> clock_reading" where
  "blank_reading i e cause incident seq sent received =
     \<lparr>rd_id = i, rd_enclave = en_id e, rd_name = en_name e, rd_tee = en_tee e, rd_cause = cause,
      rd_incident = incident, rd_seq = seq, rd_sent = sent, rd_monitor = received, rd_rtt = 0,
      rd_outcome = OutInvalid, rd_error = [], rd_status = 0, rd_runtime = [], rd_host = 0, rd_trusted = 0,
      rd_floor = 0, rd_flagged = False, rd_reason = [], rd_verdict = [], rd_nts = 0, rd_nts_servers = [],
      rd_config_key = [], rd_platform = [], rd_drift = 0\<rparr>"

definition classify :: "enclave \<Rightarrow> clock_reading \<Rightarrow> poll_result \<Rightarrow> clock_reading option" where
  "classify e r res =
     (case res of
        PollUnreachable err \<Rightarrow> Some (r\<lparr>rd_outcome := OutUnreachable, rd_error := err\<rparr>)
      | PollUnverified err \<Rightarrow> Some (r\<lparr>rd_outcome := OutUnverified, rd_error := err\<rparr>)
      | PollFailed err \<Rightarrow> None
      | PollAnswer rtt status platform body reply \<Rightarrow>
          let r1 = r\<lparr>rd_rtt := rtt, rd_status := status, rd_platform := platform\<rparr> in
          if status \<noteq> 200 then Some (r1\<lparr>rd_outcome := OutRefused, rd_error := body\<rparr>)
          else (case reply of
             None \<Rightarrow> Some (r1\<lparr>rd_outcome := OutInvalid, rd_error := ''the answer did not parse: '' @ body\<rparr>)
           | Some rep \<Rightarrow>
               if pr_enclave rep \<noteq> en_id e
               then Some (r1\<lparr>rd_outcome := OutInvalid,
                            rd_error := ''the answer is about enclave '' @ [CHR 34] @ pr_enclave rep @ [CHR 34]\<rparr>)
               else Some (r1\<lparr>rd_outcome := OutOK, rd_runtime := pr_runtime rep, rd_host := pr_host rep,
                            rd_trusted := pr_trusted rep, rd_floor := pr_floor rep, rd_flagged := pr_flagged rep,
                            rd_reason := pr_reason rep, rd_verdict := pr_verdict rep, rd_nts := pr_nts rep,
                            rd_nts_servers := pr_nts_servers rep, rd_config_key := pr_config_key rep,
                            rd_drift := drift_of (pr_host rep) (rd_sent r) (rd_monitor r)\<rparr>)))"

text \<open>The alert standing on a runtime (\<open>ClockVaultAlert\<close>).\<close>

record standing_alert =
  sa_event :: string
  sa_reason :: "clock_reason option"
  sa_reading :: string
  sa_raised :: int
  sa_updated :: int

text \<open>
  What the service holds about one runtime: its position, its entry in the platform's
  list, the alert standing on it; and the events a poll announced.
\<close>

record clock_state =
  cs_pos :: clock_enclave
  cs_entry :: "enclave option"
  cs_alert :: standing_alert
  cs_events :: "string list"

definition announce_event :: "string \<Rightarrow> clock_state \<Rightarrow> clock_state" where
  "announce_event ev s = s\<lparr>cs_events := cs_events s @ [ev]\<rparr>"

definition alert_on_reading :: "clock_enclave \<Rightarrow> clock_enclave \<Rightarrow> clock_reading \<Rightarrow> clock_state \<Rightarrow> clock_state" where
  "alert_on_reading prev nxt r s =
     (let s1 = (if rd_outcome r = OutOK \<and> rd_verdict r = VerdictMonitorWrong
                then announce_event ''clock.monitor_clock_wrong'' s else s)
      in if ce_config_missing nxt \<and> \<not> ce_config_missing prev
         then announce_event ''clock.runtime_config_missing'' s1 else s1)"

definition alert_on_vault :: "alert_events \<Rightarrow> clock_enclave \<Rightarrow> clock_reading \<Rightarrow> string \<Rightarrow> clock_state \<Rightarrow> clock_state" where
  "alert_on_vault ev prev r key s =
     (case decide_alert ev prev r (sa_event (cs_alert s)) key of
        None \<Rightarrow> s
      | Some (event, reason) \<Rightarrow>
          let back = (event = ev_back vault_events \<or> event = ev_back unconfigured_events)
          in announce_event event (s\<lparr>cs_alert :=
               \<lparr>sa_event = (if back then [] else event), sa_reason = Some reason, sa_reading = rd_id r,
                sa_raised = (if back then 0 else rd_monitor r), sa_updated = rd_monitor r\<rparr>\<rparr>))"

definition clear_unconfigured_alert :: "enclave \<Rightarrow> clock_reading \<Rightarrow> clock_state \<Rightarrow> clock_state" where
  "clear_unconfigured_alert e r s =
     (let standing = sa_event (cs_alert s) in
      if \<not> has_prefix standing ''clock.unconfigured_'' \<or> standing = ev_back unconfigured_events then s
      else announce_event (ev_back unconfigured_events)
             (s\<lparr>cs_alert := \<lparr>sa_event = [], sa_reason = Some (Acknowledged (en_config_version e)),
                             sa_reading = rd_id r, sa_raised = 0,
                             sa_updated = rd_monitor r\<rparr>\<rparr>))"

text \<open>\<open>act\<close>: \<open>applied\<close> is whether the platform accepted the request, \<open>at\<close> the time.\<close>

definition set_platform_quarantined :: "bool \<Rightarrow> string + clock_reason \<Rightarrow> clock_state \<Rightarrow> clock_state" where
  "set_platform_quarantined q reason s =
     s\<lparr>cs_entry := map_option (\<lambda>e. e\<lparr>en_quarantined := q, en_quarantine_reason := reason\<rparr>) (cs_entry s)\<rparr>"

definition act :: "bool \<Rightarrow> int \<Rightarrow> clock_op \<times> clock_reason \<Rightarrow> clock_state \<Rightarrow> clock_state" where
  "act applied at d s =
     (let pos = cs_pos s in
      if \<not> applied then announce_event ''clock.action_failed'' (s\<lparr>cs_pos := pos\<lparr>ce_updated := at\<rparr>\<rparr>)
      else case fst d of
        Quarantine \<Rightarrow>
          announce_event ''clock.quarantined'' (set_platform_quarantined True (Inr (snd d))
            (s\<lparr>cs_pos := pos\<lparr>ce_quarantined := True, ce_quarantined_at := at,
                             ce_quarantine_reason := Some (snd d), ce_updated := at\<rparr>\<rparr>))
      | Release \<Rightarrow>
          announce_event ''clock.released'' (set_platform_quarantined False (Inl [])
            (s\<lparr>cs_pos := pos\<lparr>ce_quarantined := False, ce_quarantined_at := 0,
                             ce_quarantine_reason := None, ce_updated := at\<rparr>\<rparr>)))"

text \<open>
  The entry's latest word on the clock config, and the decision of a poll: what \<open>Poll\<close>
  does with the reading once it is recorded.
\<close>

definition with_listing :: "enclave option \<Rightarrow> enclave \<Rightarrow> enclave" where
  "with_listing entry e =
     (case entry of
        None \<Rightarrow> e
      | Some known \<Rightarrow> e\<lparr>en_config_version := en_config_version known, en_config_current := en_config_current known,
                        en_config_known := en_config_known known\<rparr>)"

definition platform_view :: "enclave option \<Rightarrow> bool" where
  "platform_view entry = (case entry of Some known \<Rightarrow> en_quarantined known | None \<Rightarrow> False)"

definition poll_decision :: "string \<Rightarrow> enclave \<Rightarrow> clock_reading \<Rightarrow> clock_state \<Rightarrow> (clock_op \<times> clock_reason) option" where
  "poll_decision key e0 r s =
     (let prev = cs_pos s;
          e = with_listing (cs_entry s) e0;
          pq = platform_view (cs_entry s);
          nxt = advance prev e r key pq
      in if is_vault e then None
         else if \<not> clock_armed e then
           (if ce_quarantined nxt \<and> pq \<and> clock_never_configured e
            then Some (Release, NeverConfigured (en_config_current e)) else None)
         else decide (prev\<lparr>ce_quarantined := ce_quarantined nxt\<rparr>) r pq key)"

definition poll_step :: "string \<Rightarrow> bool \<Rightarrow> int \<Rightarrow> enclave \<Rightarrow> clock_reading \<Rightarrow> clock_state \<Rightarrow> clock_state" where
  "poll_step key applied at e0 r s =
     (let prev = cs_pos s;
          e = with_listing (cs_entry s) e0;
          nxt = advance prev e r key (platform_view (cs_entry s));
          s1 = alert_on_reading prev nxt r (s\<lparr>cs_pos := nxt\<rparr>);
          s2 = (if is_vault e then alert_on_vault vault_events prev r key s1
                else if \<not> clock_armed e then alert_on_vault unconfigured_events prev r key s1
                else clear_unconfigured_alert e r s1)
      in case poll_decision key e0 r s of None \<Rightarrow> s2 | Some d \<Rightarrow> act applied at d s2)"

section \<open>Properties\<close>

lemma advance_fields:
  "ce_quarantined (advance prev e r key pq) \<longleftrightarrow> ce_quarantined prev \<and> pq"
  "ce_failed_polls (advance prev e r key pq) =
     (if rd_outcome r = OutUnreachable then i64 (ce_failed_polls prev + 1) else 0)"
  "ce_last_flagged (advance prev e r key pq) = (if rd_outcome r = OutOK then rd_flagged r else ce_last_flagged prev)"
  by (auto simp: advance_def Let_def)

lemma alerts_keep [simp]:
  "cs_pos (announce_event ev s) = cs_pos s" "cs_entry (announce_event ev s) = cs_entry s"
  "cs_pos (alert_on_reading prev nxt r s) = cs_pos s" "cs_entry (alert_on_reading prev nxt r s) = cs_entry s"
  "cs_pos (alert_on_vault evs prev r key s) = cs_pos s" "cs_entry (alert_on_vault evs prev r key s) = cs_entry s"
  "cs_pos (clear_unconfigured_alert e r s) = cs_pos s" "cs_entry (clear_unconfigured_alert e r s) = cs_entry s"
  by (auto simp: announce_event_def alert_on_reading_def alert_on_vault_def clear_unconfigured_alert_def
      Let_def split: option.split)

lemma act_effect:
  "cs_entry (act True at (Quarantine, d) s) = map_option (\<lambda>e. e\<lparr>en_quarantined := True, en_quarantine_reason := Inr d\<rparr>) (cs_entry s)"
  "cs_entry (act True at (Release, d) s) = map_option (\<lambda>e. e\<lparr>en_quarantined := False, en_quarantine_reason := Inl []\<rparr>) (cs_entry s)"
  "ce_quarantined (cs_pos (act True at (Quarantine, d) s))"
  "\<not> ce_quarantined (cs_pos (act True at (Release, d) s))"
  "cs_entry (act False at dec s) = cs_entry s"
  "ce_quarantined (cs_pos (act False at dec s)) = ce_quarantined (cs_pos s)"
  "ce_failed_polls (cs_pos (act b at dec s)) = ce_failed_polls (cs_pos s)"
  "ce_last_flagged (cs_pos (act b at dec s)) = ce_last_flagged (cs_pos s)"
  by (auto simp: act_def set_platform_quarantined_def Let_def split: clock_op.split)

lemma poll_step_effect:
  defines "nxt s e0 r key \<equiv> advance (cs_pos s) (with_listing (cs_entry s) e0) r key (platform_view (cs_entry s))"
  shows "poll_decision key e0 r s = None \<Longrightarrow>
      cs_pos (poll_step key applied at e0 r s) = nxt s e0 r key \<and>
      cs_entry (poll_step key applied at e0 r s) = cs_entry s"
    and "poll_decision key e0 r s = Some d \<Longrightarrow> \<exists>s'. poll_step key applied at e0 r s = act applied at d s' \<and>
      cs_pos s' = nxt s e0 r key \<and> cs_entry s' = cs_entry s"
  by (auto simp: poll_step_def nxt_def Let_def)

lemma decide_cases:
  "decide prev r pq key = Some (Quarantine, reason) \<Longrightarrow>
     \<not> ce_quarantined prev \<and> \<not> pq \<and>
     (rd_outcome r = OutOK \<and> clock_problem r = Some reason \<or>
      rd_outcome r \<noteq> OutOK \<and> \<not> config_missing r key \<and>
        (failed_closed r \<or> rd_outcome r = OutUnreachable \<and> MaxFailedPolls \<le> i64 (ce_failed_polls prev + 1) \<or>
         ce_last_flagged prev))"
  "decide prev r pq key = Some (Release, reason) \<Longrightarrow> ce_quarantined prev \<and> clean_reading r"
  by (auto simp: decide_def Let_def split: if_splits option.splits)

text \<open>
  Claim C22. A poll calls for a quarantine only on an enclave that is not a vault, whose
  runtime acknowledged the current clock config, that is not already out of service, and
  for a cause the reading shows: an attested answer with a clock problem, a runtime that
  failed closed, a second silent poll in a row, or no answer after a flagged one. It calls
  for a release only of a quarantine the monitor placed and the platform still shows, on a
  clean attested answer, or on a runtime that never took any config.
\<close>

theorem actions_need_cause:
  assumes "poll_decision key e0 r s = Some (dop, reason)"
  defines "e \<equiv> with_listing (cs_entry s) e0"
  shows "\<not> is_vault e \<and>
    (dop = Quarantine \<longrightarrow> clock_armed e \<and> \<not> platform_view (cs_entry s) \<and>
      (rd_outcome r = OutOK \<and> clock_problem r = Some reason \<or>
       rd_outcome r \<noteq> OutOK \<and> \<not> config_missing r key \<and>
         (failed_closed r \<or>
          rd_outcome r = OutUnreachable \<and> MaxFailedPolls \<le> i64 (ce_failed_polls (cs_pos s) + 1) \<or>
          ce_last_flagged (cs_pos s)))) \<and>
    (dop = Release \<longrightarrow> ce_quarantined (cs_pos s) \<and> platform_view (cs_entry s) \<and>
      (clock_armed e \<and> clean_reading r \<or> clock_never_configured e))"
proof -
  have nv: "\<not> is_vault e" using assms(1) by (auto simp: poll_decision_def Let_def e_def)
  show ?thesis
  proof (cases "clock_armed e")
    case True
    let ?prev = "cs_pos s\<lparr>ce_quarantined := ce_quarantined (cs_pos s) \<and> platform_view (cs_entry s)\<rparr>"
    have "decide ?prev r (platform_view (cs_entry s)) key = Some (dop, reason)"
      using assms(1) nv True by (simp add: poll_decision_def Let_def e_def advance_fields)
    then show ?thesis
      using nv True decide_cases [of ?prev r "platform_view (cs_entry s)" key reason]
      by (cases dop) auto
  next
    case False
    with assms(1) nv show ?thesis
      by (auto simp: poll_decision_def Let_def e_def advance_fields split: if_splits)
  qed
qed

definition sample_enclave :: enclave where
  "sample_enclave =
     \<lparr>en_id = ''e1'', en_kind = ''enclave'', en_name = ''prod-1'', en_tee = ''tdx'', en_mgr = ''m1'',
      en_gateway = ''g1'', en_port = 443, en_config_version = 3, en_quarantined = False, en_quarantine_reason = Inl [],
      en_config_current = 3, en_config_known = True\<rparr>"

definition sample_position :: clock_enclave where
  "sample_position =
     \<lparr>ce_id = ''e1'', ce_name = [], ce_tee = [], ce_mgr = [], ce_last_reading = [], ce_last_outcome = None,
      ce_last = 0, ce_last_ok = 0, ce_last_verdict = [], ce_last_flagged = False, ce_last_reason = [],
      ce_last_drift = 0, ce_last_host = 0, ce_last_config_key = [], ce_config_missing = False,
      ce_failed_polls = 0, ce_quarantined = False, ce_quarantined_at = 0, ce_quarantine_reason = None,
      ce_updated = 0\<rparr>"

definition sample_clock_state :: clock_state where
  "sample_clock_state =
     \<lparr>cs_pos = sample_position, cs_entry = Some sample_enclave,
      cs_alert = \<lparr>sa_event = [], sa_reason = None, sa_reading = [], sa_raised = 0, sa_updated = 0\<rparr>,
      cs_events = []\<rparr>"

definition sample_reading :: "poll_outcome \<Rightarrow> string \<Rightarrow> clock_reading" where
  "sample_reading out verdict =
     (blank_reading ''r1'' sample_enclave ''scheduled'' [] 1 1000 1100)
       \<lparr>rd_outcome := out, rd_verdict := verdict, rd_trusted := 1050, rd_config_key := ''k''\<rparr>"

theorem actions_need_cause_witness:
  "clock_armed sample_enclave \<and>
   poll_decision ''k'' sample_enclave (sample_reading OutOK VerdictHostWrong) sample_clock_state =
     Some (Quarantine, HostClockWrong 0 0 1000)"
proof -
  have d: "poll_decision ''k'' sample_enclave (sample_reading OutOK VerdictHostWrong) sample_clock_state =
      Some (Quarantine, HostClockWrong 0 0 1000)" by code_simp
  from actions_need_cause [OF d] have "clock_armed (with_listing (cs_entry sample_clock_state) sample_enclave)"
    by simp
  with d show ?thesis by (simp add: with_listing_def sample_clock_state_def sample_enclave_def clock_armed_def)
qed



text \<open>A sequence of polls of one runtime: the entry polled, the reading, whether the
  platform accepted, and the time.\<close>

record poll =
  po_applied :: bool
  po_at :: int
  po_entry :: enclave
  po_reading :: clock_reading

definition poll_one :: "string \<Rightarrow> clock_state \<Rightarrow> poll \<Rightarrow> clock_state" where
  "poll_one key s p = poll_step key (po_applied p) (po_at p) (po_entry p) (po_reading p) s"

definition run_polls :: "string \<Rightarrow> poll list \<Rightarrow> clock_state \<Rightarrow> clock_state" where
  "run_polls key ps s = foldl (poll_one key) s ps"

definition listed_armed :: "clock_state \<Rightarrow> bool" where
  "listed_armed s = (case cs_entry s of None \<Rightarrow> False | Some e \<Rightarrow> clock_armed e)"

lemma with_listing_armed:
  "listed_armed s \<Longrightarrow> clock_armed (with_listing (cs_entry s) e0)"
  by (auto simp: listed_armed_def with_listing_def clock_armed_def split: option.splits)

lemma with_listing_vault [simp]: "is_vault (with_listing entry e0) = is_vault e0"
  by (auto simp: with_listing_def is_vault_def split: option.split)

lemma poll_step_pos:
  "ce_failed_polls (cs_pos (poll_step key applied at e0 r s)) =
     (if rd_outcome r = OutUnreachable then i64 (ce_failed_polls (cs_pos s) + 1) else 0)"
  "ce_last_flagged (cs_pos (poll_step key applied at e0 r s)) =
     (if rd_outcome r = OutOK then rd_flagged r else ce_last_flagged (cs_pos s))"
proof -
  obtain d s' where "cs_pos (poll_step key applied at e0 r s) = nxt \<or>
      poll_step key applied at e0 r s = act applied at d s' \<and> cs_pos s' = nxt"
    if "nxt = advance (cs_pos s) (with_listing (cs_entry s) e0) r key (platform_view (cs_entry s))" for nxt
    using poll_step_effect [of key e0 r s] by (cases "poll_decision key e0 r s") blast+
  then show "ce_failed_polls (cs_pos (poll_step key applied at e0 r s)) =
     (if rd_outcome r = OutUnreachable then i64 (ce_failed_polls (cs_pos s) + 1) else 0)"
  "ce_last_flagged (cs_pos (poll_step key applied at e0 r s)) =
     (if rd_outcome r = OutOK then rd_flagged r else ce_last_flagged (cs_pos s))"
    by (metis act_effect(7,8) advance_fields(2,3))+
qed

lemma poll_step_listed:
  "listed_armed s \<Longrightarrow> listed_armed (poll_step key applied at e0 r s)"
proof (cases "poll_decision key e0 r s")
  case (Some d)
  assume "listed_armed s"
  moreover obtain s' where "poll_step key applied at e0 r s = act applied at d s'" "cs_entry s' = cs_entry s"
    using poll_step_effect(2) [OF Some] by blast
  ultimately show ?thesis
    by (cases applied; cases "fst d"; cases d)
       (auto simp: listed_armed_def act_effect clock_armed_def split: option.splits)
qed (auto simp: listed_armed_def poll_step_effect(1))

lemma poll_one_facts:
  "ce_failed_polls (cs_pos (poll_one key s p)) =
     (if rd_outcome (po_reading p) = OutUnreachable then i64 (ce_failed_polls (cs_pos s) + 1) else 0)"
  "ce_last_flagged (cs_pos (poll_one key s p)) =
     (if rd_outcome (po_reading p) = OutOK then rd_flagged (po_reading p) else ce_last_flagged (cs_pos s))"
  "listed_armed s \<Longrightarrow> listed_armed (poll_one key s p)"
  by (simp_all add: poll_one_def poll_step_pos poll_step_listed)

lemma run_polls_listed: "listed_armed s \<Longrightarrow> listed_armed (run_polls key ps s)"
  by (induction ps arbitrary: s) (simp_all add: run_polls_def poll_one_facts)

lemma run_polls_failed:
  assumes "0 \<le> ce_failed_polls (cs_pos s)" "ce_failed_polls (cs_pos s) + int (length ps) < 2 ^ 63"
  shows "0 \<le> ce_failed_polls (cs_pos (run_polls key ps s)) \<and>
    ce_failed_polls (cs_pos (run_polls key ps s)) \<le> ce_failed_polls (cs_pos s) + int (length ps)"
  using assms
proof (induction ps arbitrary: s)
  case (Cons p ps)
  have fp: "ce_failed_polls (cs_pos (poll_one key s p)) =
      (if rd_outcome (po_reading p) = OutUnreachable then ce_failed_polls (cs_pos s) + 1 else 0)"
    using Cons.prems by (simp add: poll_one_facts i64_nonneg)
  show ?case
    using Cons.IH [of "poll_one key s p"] Cons.prems fp by (auto simp: run_polls_def split: if_splits)
qed (simp add: run_polls_def)

lemma silent_poll_quarantines:
  assumes "listed_armed s" "\<not> is_vault e0" "rd_outcome r = OutUnreachable"
    "MaxFailedPolls \<le> i64 (ce_failed_polls (cs_pos s) + 1)"
  shows "platform_view (cs_entry (poll_step key True at e0 r s))"
proof -
  let ?pq = "platform_view (cs_entry s)"
  have dec: "poll_decision key e0 r s = decide (cs_pos s\<lparr>ce_quarantined := ce_quarantined (cs_pos s) \<and> ?pq\<rparr>) r ?pq key"
    using assms(1,2) by (simp add: poll_decision_def Let_def with_listing_armed advance_fields)
  obtain known where known: "cs_entry s = Some known" using assms(1) by (auto simp: listed_armed_def split: option.splits)
  show ?thesis
  proof (cases ?pq)
    case True
    then have "poll_decision key e0 r s = None"
      using assms(3) by (simp add: dec decide_def Let_def config_missing_def)
    with True show ?thesis by (simp add: poll_step_effect(1))
  next
    case False
    then obtain why where "poll_decision key e0 r s = Some (Quarantine, why)"
      using assms(3,4) by (auto simp: dec decide_def Let_def config_missing_def failed_closed_def)
    then obtain s' where "poll_step key True at e0 r s = act True at (Quarantine, why) s'" "cs_entry s' = cs_entry s"
      using poll_step_effect(2) by blast
    then show ?thesis using known by (simp add: act_effect platform_view_def)
  qed
qed

text \<open>
  Silence is acted on: whatever polls came before, once a listed enclave that holds
  the current clock config gets no answer to two polls in a row, and the platform accepts
  the request, it is out of service.
\<close>

lemma silence_is_acted_on:
  assumes "listed_armed s" "ce_failed_polls (cs_pos s) = 0" "int (length ps) + 2 < 2 ^ 63"
    and "rd_outcome (po_reading p) = OutUnreachable" "rd_outcome (po_reading q) = OutUnreachable"
    and "\<not> is_vault (po_entry q)" "po_applied q"
  shows "platform_view (cs_entry (run_polls key (ps @ [p, q]) s))"
proof -
  let ?s1 = "run_polls key ps s"
  let ?s2 = "poll_one key ?s1 p"
  have n: "0 \<le> ce_failed_polls (cs_pos ?s1)" "ce_failed_polls (cs_pos ?s1) \<le> int (length ps)"
    using run_polls_failed [of s ps key] assms(2,3) by auto
  have "ce_failed_polls (cs_pos ?s2) = ce_failed_polls (cs_pos ?s1) + 1"
    using n assms(3,4) by (simp add: poll_one_facts i64_nonneg)
  then have "MaxFailedPolls \<le> i64 (ce_failed_polls (cs_pos ?s2) + 1)"
    using n assms(3) by (simp add: i64_nonneg MaxFailedPolls_def)
  moreover have "listed_armed ?s2" using assms(1) by (simp add: run_polls_listed poll_one_facts)
  ultimately have "platform_view (cs_entry (poll_one key ?s2 q))"
    using assms(5-7) silent_poll_quarantines [of ?s2 "po_entry q" "po_reading q" key "po_at q"]
    by (simp add: poll_one_def)
  then show ?thesis by (simp add: run_polls_def)
qed

definition silent_poll :: poll where
  "silent_poll = \<lparr>po_applied = True, po_at = 1200, po_entry = sample_enclave,
     po_reading = sample_reading OutUnreachable []\<rparr>"

lemma unverified_poll_changes_nothing:
  assumes "rd_outcome r = OutUnverified \<or> rd_outcome r = OutInvalid" "\<not> ce_last_flagged (cs_pos s)"
    "\<not> platform_view (cs_entry s)"
  shows "cs_entry (poll_step key applied at e0 r s) = cs_entry s"
proof -
  have "poll_decision key e0 r s = None"
    using assms by (auto simp: poll_decision_def Let_def decide_def failed_closed_def advance_fields)
  then show ?thesis by (rule poll_step_effect(1) [THEN conjunct2])
qed

text \<open>
  A peer whose evidence does not verify, or that answers nonsense, is not silence:
  however many such readings come in a row, an enclave that was not flagged and is in
  service stays in service.
\<close>

lemma unverified_silence_is_not_acted_on:
  assumes "\<forall>p\<in>set ps. rd_outcome (po_reading p) = OutUnverified \<or> rd_outcome (po_reading p) = OutInvalid"
    and "\<not> ce_last_flagged (cs_pos s)" "\<not> platform_view (cs_entry s)"
  shows "cs_entry (run_polls key ps s) = cs_entry s"
  using assms
proof (induction ps arbitrary: s)
  case (Cons p ps)
  have "cs_entry (poll_one key s p) = cs_entry s"
    using Cons.prems unverified_poll_changes_nothing by (auto simp: poll_one_def)
  moreover have "\<not> ce_last_flagged (cs_pos (poll_one key s p))"
    using Cons.prems by (auto simp: poll_one_facts)
  ultimately show ?case using Cons by (simp add: run_polls_def)
qed (simp add: run_polls_def)

definition unverified_poll :: poll where
  "unverified_poll = silent_poll\<lparr>po_reading := sample_reading OutUnverified []\<rparr>"

end
