(* ===== verification/RateLimit.thy ===== *)
theory RateLimit
  imports Complex_Main Prelude
begin

text \<open>
  The limiter in front of the unauthenticated incident endpoint
  (\<open>internal/clock/ratelimit.go\<close>): one token bucket per enclave and one for all, each
  refilled evenly over a minute. Times are nanoseconds of the monotonic clock; the
  tokens, a \<open>float64\<close> in the code, are rationals here, so the rounding of a single
  refill is not modelled.
\<close>

section \<open>Buckets\<close>

record token_bucket =
  tokens :: rat
  used_at :: "int option"

definition fresh_bucket :: token_bucket where
  "fresh_bucket = \<lparr>tokens = 0, used_at = None\<rparr>"

definition minute_ns :: int where "minute_ns = 60000000000"

text \<open>\<open>elapsed.Minutes()\<close>.\<close>

definition minutes :: "int \<Rightarrow> rat" where
  "minutes d = of_int d / of_int minute_ns"

definition refill :: "rat \<Rightarrow> int \<Rightarrow> token_bucket \<Rightarrow> token_bucket" where
  "refill capacity now b =
     \<lparr>tokens = (case used_at b of
        None \<Rightarrow> capacity
      | Some t \<Rightarrow>
          if now - t > 0 then
            (let n = tokens b + capacity * minutes (now - t) in if n > capacity then capacity else n)
          else tokens b),
      used_at = Some now\<rparr>"

definition take_token :: "rat \<Rightarrow> int \<Rightarrow> bool \<Rightarrow> token_bucket \<Rightarrow> bool \<times> token_bucket" where
  "take_token capacity now spend b =
     (let b' = refill capacity now b in
      if tokens b' < 1 then (False, b')
      else (True, if spend then b'\<lparr>tokens := tokens b' - 1\<rparr> else b'))"

record rate_limit =
  per_key :: rat
  global_rate :: rat
  all_bucket :: token_bucket
  key_buckets :: "string \<rightharpoonup> token_bucket"

definition new_rate_limit :: "int \<Rightarrow> int \<Rightarrow> rate_limit" where
  "new_rate_limit k g = \<lparr>per_key = of_int k, global_rate = of_int g, all_bucket = fresh_bucket, key_buckets = Map.empty\<rparr>"

definition key_bucket :: "rate_limit \<Rightarrow> string \<Rightarrow> token_bucket" where
  "key_bucket r key = (case key_buckets r key of Some b \<Rightarrow> b | None \<Rightarrow> fresh_bucket)"

text \<open>\<open>allow\<close>: the second bucket is only asked when the first has a token.\<close>

definition allow :: "string \<Rightarrow> int \<Rightarrow> rate_limit \<Rightarrow> bool \<times> rate_limit" where
  "allow key now r =
     (let b0 = key_bucket r key;
          (ok1, b1) = take_token (per_key r) now False b0;
          r1 = r\<lparr>key_buckets := (key_buckets r)(key \<mapsto> b1)\<rparr>
      in if \<not> ok1 then (False, r1)
         else (let (ok2, a1) = take_token (global_rate r) now False (all_bucket r);
                   r2 = r1\<lparr>all_bucket := a1\<rparr>
               in if \<not> ok2 then (False, r2)
                  else (True, r2\<lparr>key_buckets := (key_buckets r2)(key \<mapsto> snd (take_token (per_key r) now True b1)),
                                  all_bucket := snd (take_token (global_rate r) now True a1)\<rparr>)))"

text \<open>A sequence of events, each a key and a time: those admitted, and the limiter after.\<close>

fun admissions :: "(string \<times> int) list \<Rightarrow> rate_limit \<Rightarrow> (string \<times> int) list \<times> rate_limit" where
  "admissions [] r = ([], r)"
| "admissions ((key, now) # es) r =
     (let (ok, r') = allow key now r;
          (passed, r'') = admissions es r'
      in (if ok then (key, now) # passed else passed, r''))"

section \<open>Buckets over time\<close>

lemma minutes_simps [simp]: "minutes 0 = 0" "0 \<le> minutes d \<longleftrightarrow> 0 \<le> d"
  by (auto simp: minutes_def minute_ns_def zero_le_divide_iff)

lemma minutes_add: "minutes (a - b) + minutes (b - d) = minutes (a - d)"
  by (simp add: minutes_def diff_divide_distrib)

lemma minutes_mono: "a \<le> b \<Longrightarrow> minutes a \<le> minutes b"
  by (simp add: minutes_def minute_ns_def divide_right_mono)

lemma refill_refill [simp]: "refill c now (refill c now b) = refill c now b"
  by (simp add: refill_def)

lemma refill_used [simp]: "used_at (refill c now b) = Some now"
  by (simp add: refill_def)

text \<open>A bucket holds between nothing and its capacity, and was used no later than \<open>t\<close>.\<close>

definition bucket_ok :: "rat \<Rightarrow> int \<Rightarrow> token_bucket \<Rightarrow> bool" where
  "bucket_ok c t b \<longleftrightarrow> (case used_at b of None \<Rightarrow> True | Some u \<Rightarrow> u \<le> t \<and> 0 \<le> tokens b \<and> tokens b \<le> c)"

lemma refill_bounds:
  assumes "bucket_ok c now b" "0 \<le> c"
  shows "0 \<le> tokens (refill c now b)" "tokens (refill c now b) \<le> c"
    "used_at b = Some u \<Longrightarrow> tokens (refill c now b) \<le> tokens b + c * minutes (now - u)"
  using assms by (auto simp: refill_def bucket_ok_def Let_def split: option.splits)

text \<open>What one call of \<open>allow\<close> does to a bucket it looks at.\<close>

definition settled :: "rat \<Rightarrow> int \<Rightarrow> bool \<Rightarrow> token_bucket \<Rightarrow> token_bucket \<Rightarrow> bool" where
  "settled c now ok b b' \<longleftrightarrow>
     \<not> ok \<and> (b' = b \<or> b' = refill c now b) \<or>
     ok \<and> 1 \<le> tokens (refill c now b) \<and> b' = (refill c now b)\<lparr>tokens := tokens (refill c now b) - 1\<rparr>"

lemma settled_ok:
  assumes "settled c now ok b b'" "bucket_ok c now b" "0 \<le> c"
  shows "bucket_ok c now b'"
  using assms refill_bounds(1,2) [OF assms(2,3)] by (auto simp: settled_def) (auto simp: bucket_ok_def)

text \<open>
  What a bucket can still pay for in the window from \<open>t0\<close> to \<open>t1\<close>: one not used in the
  window yet, its capacity and a refill over the whole window; one used at \<open>u\<close>, what it
  holds and a refill since \<open>u\<close>.
\<close>

definition potential :: "rat \<Rightarrow> int \<Rightarrow> int \<Rightarrow> token_bucket \<Rightarrow> rat" where
  "potential c t0 t1 b =
     (case used_at b of
        Some u \<Rightarrow> if t0 \<le> u then tokens b + c * minutes (t1 - u) else c + c * minutes (t1 - t0)
      | None \<Rightarrow> c + c * minutes (t1 - t0))"

lemma refill_potential:
  assumes "bucket_ok c now b" "0 \<le> c" "t0 \<le> now" "now \<le> t1"
  shows "tokens (refill c now b) + c * minutes (t1 - now) \<le> potential c t0 t1 b"
proof -
  have new: "tokens (refill c now b) + c * minutes (t1 - now) \<le> c + c * minutes (t1 - t0)"
    using refill_bounds(2) [OF assms(1,2)] assms(2,3) by (intro add_mono mult_left_mono minutes_mono) auto
  have "tokens (refill c now b) + c * minutes (t1 - now) \<le> tokens b + c * minutes (t1 - u)"
    if "used_at b = Some u" for u
    using refill_bounds(3) [OF assms(1,2) that] minutes_add [of t1 now u, symmetric]
    by (simp add: distrib_left)
  with new show ?thesis by (auto simp: potential_def split: option.split)
qed

lemma settled_potential:
  assumes "settled c now ok b b'" "bucket_ok c now b" "0 \<le> c" "t0 \<le> now" "now \<le> t1"
  shows "potential c t0 t1 b' + (if ok then 1 else 0) \<le> potential c t0 t1 b"
  using assms(1) refill_potential [OF assms(2-5)] assms(4)
  by (auto simp: settled_def potential_def [of c t0 t1 "refill c now b"]
      potential_def [of c t0 t1 "refill c now b\<lparr>tokens := x\<rparr>" for x])

section \<open>A metered view of the limiter\<close>

text \<open>
  One bucket of the limiter and the events it meters: each metered event settles the
  bucket, every other event leaves it alone. Both the bucket of one enclave and the
  bucket of all of them are such views, so the bound is proved once.
\<close>

locale metered =
  fixes view :: "rate_limit \<Rightarrow> token_bucket"
    and rate :: "rate_limit \<Rightarrow> rat"
    and counts :: "string \<Rightarrow> bool"
  assumes rate_kept: "allow key now r = (ok, r') \<Longrightarrow> rate r' = rate r"
    and counted: "allow key now r = (ok, r') \<Longrightarrow> counts key \<Longrightarrow> settled (rate r) now ok (view r) (view r')"
    and uncounted: "allow key now r = (ok, r') \<Longrightarrow> \<not> counts key \<Longrightarrow> view r' = view r"
begin

lemma run_kept:
  "admissions es r = (passed, r') \<Longrightarrow> rate r' = rate r"
  by (induction es r arbitrary: passed r' rule: admissions.induct)
     (auto simp: Let_def rate_kept split: prod.splits if_splits)

lemma step_ok:
  assumes "allow key now r = (ok, r')" "bucket_ok (rate r) now (view r)" "0 \<le> rate r"
  shows "bucket_ok (rate r) now (view r')"
  using assms counted settled_ok uncounted by (cases "counts key") metis+

lemma later_ok: "bucket_ok c t b \<Longrightarrow> t \<le> t' \<Longrightarrow> bucket_ok c t' b"
  by (auto simp: bucket_ok_def split: option.splits)

lemma run_ok:
  assumes "admissions es r = (passed, r')" "sorted (map snd es)" "0 \<le> rate r"
    "\<forall>e\<in>set es. snd e \<le> t" "\<forall>e\<in>set es. bucket_ok (rate r) (snd e) (view r)" "bucket_ok (rate r) t (view r)"
  shows "bucket_ok (rate r) t (view r')"
  using assms
proof (induction es arbitrary: r passed)
  case (Cons e es)
  obtain key now where e: "e = (key, now)" by (cases e)
  obtain ok r1 where a: "allow key now r = (ok, r1)" by (cases "allow key now r")
  obtain p1 where r': "admissions es r1 = (p1, r')"
    using Cons.prems(1) by (auto simp: e a Let_def split: prod.splits if_splits)
  have v: "bucket_ok (rate r) now (view r1)" using step_ok [OF a] Cons.prems e by auto
  have "\<forall>e\<in>set es. bucket_ok (rate r) (snd e) (view r1)" "bucket_ok (rate r) t (view r1)"
    using Cons.prems(2,4) e by (auto intro: later_ok [OF v])
  then show ?case
    using Cons.IH [OF r'] Cons.prems rate_kept [OF a] by auto
qed simp

lemma run_potential:
  assumes "admissions es r = (passed, r')" "sorted (map snd es)" "0 \<le> rate r"
    "\<forall>e\<in>set es. t0 \<le> snd e \<and> snd e \<le> t1 \<and> bucket_ok (rate r) (snd e) (view r)"
  shows "of_nat (length (filter (\<lambda>e. counts (fst e)) passed)) + potential (rate r) t0 t1 (view r')
    \<le> potential (rate r) t0 t1 (view r)"
  using assms
proof (induction es arbitrary: r passed)
  case (Cons e es)
  obtain key now where e: "e = (key, now)" by (cases e)
  obtain ok r1 where a: "allow key now r = (ok, r1)" by (cases "allow key now r")
  obtain p1 where r': "admissions es r1 = (p1, r')"
    using Cons.prems(1) by (auto simp: e a Let_def split: prod.splits if_splits)
  have p: "passed = (if ok then e # p1 else p1)" using Cons.prems(1) r' by (auto simp: e a)
  have v: "bucket_ok (rate r) now (view r1)" using step_ok [OF a] Cons.prems e by auto
  have "\<forall>e\<in>set es. t0 \<le> snd e \<and> snd e \<le> t1 \<and> bucket_ok (rate r1) (snd e) (view r1)"
    using Cons.prems(2,4) e rate_kept [OF a] by (auto intro: later_ok [OF v])
  then have "of_nat (length (filter (\<lambda>e. counts (fst e)) p1)) + potential (rate r) t0 t1 (view r')
    \<le> potential (rate r) t0 t1 (view r1)"
    using Cons.IH [OF r'] Cons.prems rate_kept [OF a] by auto
  moreover have "potential (rate r) t0 t1 (view r1) + (if ok \<and> counts key then 1 else 0)
    \<le> potential (rate r) t0 t1 (view r)"
    using counted [OF a] uncounted [OF a] Cons.prems(3,4) e
      settled_potential [of "rate r" now ok "view r" "view r1" t0 t1] by (cases "counts key") auto
  ultimately show ?case by (auto simp: p e)
qed simp

lemma window_bound:
  assumes "admissions es0 r = (passed0, r1)" "admissions es r1 = (passed, r')" "0 \<le> rate r"
    "used_at (view r) = None" "sorted (map snd (es0 @ es))" "\<forall>e\<in>set es. t0 \<le> snd e \<and> snd e \<le> t1" "t0 \<le> t1"
  shows "of_nat (length (filter (\<lambda>e. counts (fst e)) passed)) \<le> rate r * (1 + minutes (t1 - t0))"
proof (cases "es = []")
  case True
  with assms(2,3,7) show ?thesis by (simp add: add_nonneg_nonneg)
next
  case False
  have v1: "bucket_ok (rate r) t (view r1)" if "\<forall>e\<in>set es0. snd e \<le> t" for t
    using run_ok [OF assms(1)] assms(3-5) that by (auto simp: sorted_append bucket_ok_def)
  have k1: "rate r1 = rate r" using run_kept [OF assms(1)] .
  have b: "\<forall>e\<in>set es. t0 \<le> snd e \<and> snd e \<le> t1 \<and> bucket_ok (rate r1) (snd e) (view r1)"
    using assms(5,6) v1 k1 by (auto simp: sorted_append)
  have "potential (rate r) t0 t1 (view r1) \<le> rate r * (1 + minutes (t1 - t0))"
  proof (cases "\<exists>u. used_at (view r1) = Some u \<and> t0 \<le> u")
    case True
    then obtain u where u: "used_at (view r1) = Some u" "t0 \<le> u" by blast
    obtain t where "\<forall>e\<in>set es0. snd e \<le> t" using finite_set [of es0]
      by (metis finite_imageI imageI Max_ge)
    from v1 [OF this] u have "tokens (view r1) \<le> rate r" by (simp add: bucket_ok_def)
    moreover have "rate r * minutes (t1 - u) \<le> rate r * minutes (t1 - t0)"
      using assms(3) u by (intro mult_left_mono minutes_mono) auto
    ultimately show ?thesis using u by (simp add: potential_def distrib_left)
  qed (auto simp: potential_def distrib_left split: option.split)
  moreover have "of_nat (length (filter (\<lambda>e. counts (fst e)) passed)) + potential (rate r) t0 t1 (view r')
      \<le> potential (rate r) t0 t1 (view r1)"
    using run_potential [OF assms(2) _ _ b] assms(3,5) k1 by (simp add: sorted_append)
  moreover have "0 \<le> potential (rate r) t0 t1 (view r')"
  proof -
    have "\<forall>e\<in>set es0. snd e \<le> t1"
      using False assms(5,6) by (cases es) (auto simp: sorted_append intro: order_trans)
    then have "bucket_ok (rate r) t1 (view r')"
      using run_ok [OF assms(2)] b v1 assms(3,5) k1 by (auto simp: sorted_append)
    then show ?thesis using assms(3,7) by (auto simp: potential_def bucket_ok_def split: option.split)
  qed
  ultimately show ?thesis by linarith
qed

end

lemma allow_cases:
  assumes "allow key now r = (ok, r')"
  shows "per_key r' = per_key r" "global_rate r' = global_rate r"
    "settled (per_key r) now ok (key_bucket r key) (key_bucket r' key)"
    "settled (global_rate r) now ok (all_bucket r) (all_bucket r')"
    "k \<noteq> key \<Longrightarrow> key_bucket r' k = key_bucket r k"
  using assms
  by (auto simp: allow_def take_token_def settled_def key_bucket_def Let_def split: if_splits prod.splits option.splits)

interpretation each_key: metered "\<lambda>r. key_bucket r k" per_key "\<lambda>key. key = k" for k
  by unfold_locales (auto simp: allow_cases)

interpretation all_keys: metered all_bucket global_rate "\<lambda>_. True"
  by unfold_locales (auto simp: allow_cases)

section \<open>Properties\<close>

text \<open>
  Between any two instants, whatever was asked before, the limiter admits at most
  its rate times one more than the number of minutes between them: for one enclave at the
  enclave rate, and in all at the global rate. Calls are made under one lock on the
  monotonic clock, so their times are in order.
\<close>

lemma admissions_are_bounded:
  assumes "admissions es0 (new_rate_limit k g) = (passed0, r1)" "admissions es r1 = (passed, r2)"
    "0 \<le> k" "0 \<le> g" "sorted (map snd (es0 @ es))" "\<forall>e\<in>set es. t0 \<le> snd e \<and> snd e \<le> t1" "t0 \<le> t1"
  shows "of_nat (length (filter (\<lambda>e. fst e = key) passed)) \<le> of_int k * (1 + minutes (t1 - t0)) \<and>
    of_nat (length passed) \<le> of_int g * (1 + minutes (t1 - t0))"
  using each_key.window_bound [OF assms(1,2) _ _ assms(5,6,7), of key]
    all_keys.window_bound [OF assms(1,2) _ _ assms(5,6,7)] assms(3,4)
  by (simp add: new_rate_limit_def key_bucket_def fresh_bucket_def)

text \<open>Twelve reports for one enclave, six at once and one every ten seconds.\<close>

definition burst :: "(string \<times> int) list" where
  "burst = replicate 6 (''e1'', 0) @ map (\<lambda>i. (''e1'', 10000000000 * i)) [1..6]"

lemma burst_admitted: "fst (admissions burst (new_rate_limit 6 60)) = burst"
  by code_simp

text \<open>
  An event is admitted exactly when, after the refill, both the bucket of its enclave and
  the bucket of all hold a token; a refusal costs neither bucket one.
\<close>

lemma admitted_iff_both_hold_a_token:
  "fst (allow key now r) \<longleftrightarrow>
     1 \<le> tokens (refill (per_key r) now (key_bucket r key)) \<and>
     1 \<le> tokens (refill (global_rate r) now (all_bucket r))"
  "\<not> fst (allow key now r) \<longrightarrow>
     tokens (refill (per_key r) now (key_bucket (snd (allow key now r)) key)) =
       tokens (refill (per_key r) now (key_bucket r key)) \<and>
     tokens (refill (global_rate r) now (all_bucket (snd (allow key now r)))) =
       tokens (refill (global_rate r) now (all_bucket r))"
  by (auto simp: allow_def take_token_def key_bucket_def Let_def split: if_splits prod.splits)

end
