(* ===== verification/Wire.thy ===== *)
theory Wire
  imports Prelude
begin

text \<open>
  What the platform clock signs and how it is checked (\<open>internal/clock/wire.go\<close>): the bytes
  of a floor and of a receipt, the signer, \<open>VerifyFloor\<close> and \<open>VerifyReceipt\<close>, and the shape
  of an incident report. Ed25519 and SHA-256 are arguments; base64url is modelled.
\<close>

section \<open>base64url without padding\<close>

definition b64_char :: "nat \<Rightarrow> char" where
  "b64_char v =
     (if v < 26 then char_of (65 + v) else if v < 52 then char_of (71 + v)
      else if v < 62 then char_of (v - 4) else if v = 62 then CHR ''-'' else CHR ''_'')"

definition b64_value :: "char \<Rightarrow> nat option" where
  "b64_value c =
     (let n = of_char c :: nat in
      if 65 \<le> n \<and> n \<le> 90 then Some (n - 65) else if 97 \<le> n \<and> n \<le> 122 then Some (n - 71)
      else if 48 \<le> n \<and> n \<le> 57 then Some (n + 4)
      else if n = 45 then Some 62 else if n = 95 then Some 63 else None)"

text \<open>Bytes to sixtets and back. A last group of one sixtet is an error; left-over bits are dropped.\<close>

fun sixtets :: "nat list \<Rightarrow> nat list" where
  "sixtets [] = []"
| "sixtets [a] = [a div 4, a mod 4 * 16]"
| "sixtets [a, b] = [a div 4, a mod 4 * 16 + b div 16, b mod 16 * 4]"
| "sixtets (a # b # c # xs) =
     [a div 4, a mod 4 * 16 + b div 16, b mod 16 * 4 + c div 64, c mod 64] @ sixtets xs"

fun unsixtets :: "nat list \<Rightarrow> nat list option" where
  "unsixtets [] = Some []"
| "unsixtets [p] = None"
| "unsixtets [p, q] = Some [p * 4 + q div 16]"
| "unsixtets [p, q, r] = Some [p * 4 + q div 16, q mod 16 * 16 + r div 4]"
| "unsixtets (p # q # r # s # xs) =
     map_option (\<lambda>ys. [p * 4 + q div 16, q mod 16 * 16 + r div 4, r mod 4 * 64 + s] @ ys) (unsixtets xs)"

definition b64_encode :: "string \<Rightarrow> string" where
  "b64_encode s = map b64_char (sixtets (map of_char s))"

text \<open>\<open>DecodeString\<close> skips line ends and refuses every other byte outside the alphabet.\<close>

definition b64_decode :: "string \<Rightarrow> string option" where
  "b64_decode s =
     (let vs = map b64_value (filter (\<lambda>c. c \<noteq> CHR 0x0A \<and> c \<noteq> CHR 0x0D) s) in
      if None \<in> set vs then None else map_option (map char_of) (unsixtets (map the vs)))"

lemma of_b64_char:
  "v < 64 \<Longrightarrow> (of_char (b64_char v) :: nat) =
     (if v < 26 then 65 + v else if v < 52 then 71 + v else if v < 62 then v - 4 else if v = 62 then 45 else 95)"
  by (simp add: b64_char_def of_char_of)

lemma b64_char_facts:
  assumes "v < 64"
  shows "b64_value (b64_char v) = Some v" "b64_char v \<noteq> CHR 0x0A" "b64_char v \<noteq> CHR 0x0D" "b64_char v \<noteq> CHR ''=''"
proof -
  show "b64_value (b64_char v) = Some v"
    using assms by (simp add: b64_value_def of_b64_char Let_def) arith
  have "(of_char (b64_char v) :: nat) \<notin> {10, 13, 61}" using assms by (auto simp: of_b64_char)
  then show "b64_char v \<noteq> CHR 0x0A" "b64_char v \<noteq> CHR 0x0D" "b64_char v \<noteq> CHR ''=''" by auto
qed

lemma sixtet_bounds:
  fixes a b c :: nat
  assumes "a < 256" "b < 256" "c < 256"
  shows "a div 4 < 64" "a mod 4 * 16 + b div 16 < 64" "b mod 16 * 4 + c div 64 < 64" "c mod 64 < 64"
    "a mod 4 * 16 < 64" "b mod 16 * 4 < 64"
proof -
  have "a div 4 < 64" "b div 16 < 16" "c div 64 < 4" using assms by (auto simp: less_mult_imp_div_less)
  moreover have "a mod 4 < 4" "b mod 16 < 16" by simp_all
  ultimately show "a div 4 < 64" "a mod 4 * 16 + b div 16 < 64" "b mod 16 * 4 + c div 64 < 64" "c mod 64 < 64"
    "a mod 4 * 16 < 64" "b mod 16 * 4 < 64" by simp_all
qed

lemma sixtets_bound: "\<forall>a\<in>set xs. a < 256 \<Longrightarrow> \<forall>v\<in>set (sixtets xs). v < 64"
proof (induction xs rule: sixtets.induct)
  case (2 a)
  then show ?case using sixtet_bounds [of a 0 0] by simp
next
  case (3 a b)
  then show ?case using sixtet_bounds [of a b 0] by simp
next
  case (4 a b c xs)
  then show ?case using sixtet_bounds [of a b c] by simp
qed simp

lemma sixtet_digits:
  fixes a b c :: nat
  assumes "a < 256" "b < 256" "c < 256"
  shows "a div 4 * 4 + (a mod 4 * 16 + b div 16) div 16 = a"
    "(a mod 4 * 16 + b div 16) mod 16 * 16 + (b mod 16 * 4 + c div 64) div 4 = b"
    "(b mod 16 * 4 + c div 64) mod 4 * 64 + c mod 64 = c"
proof -
  have "b div 16 < 16" "c div 64 < 4" using assms by (auto simp: less_mult_imp_div_less)
  then show "a div 4 * 4 + (a mod 4 * 16 + b div 16) div 16 = a"
    "(a mod 4 * 16 + b div 16) mod 16 * 16 + (b mod 16 * 4 + c div 64) div 4 = b"
    "(b mod 16 * 4 + c div 64) mod 4 * 64 + c mod 64 = c"
    by (simp_all add: div_mult_mod_eq)
qed

lemma unsixtets_sixtets: "\<forall>a\<in>set xs. a < 256 \<Longrightarrow> unsixtets (sixtets xs) = Some xs"
proof (induction xs rule: sixtets.induct)
  case (3 a b)
  then show ?case using sixtet_digits [of a b 0] by simp
next
  case (4 a b c xs)
  then show ?case using sixtet_digits [of a b c] by simp
qed auto

lemma string_sixtets: "v \<in> set (sixtets (map of_char s)) \<Longrightarrow> v < 64"
  using sixtets_bound [of "map of_char s"] by simp

lemma b64_encode_chars:
  assumes "c \<in> set (b64_encode s)"
  shows "c \<noteq> CHR ''=''" "c \<noteq> CHR 0x0A" "c \<noteq> CHR 0x0D"
proof -
  obtain v where "v < 64" "c = b64_char v" using assms string_sixtets unfolding b64_encode_def set_map by blast
  then show "c \<noteq> CHR ''=''" "c \<noteq> CHR 0x0A" "c \<noteq> CHR 0x0D" by (simp_all only: b64_char_facts not_False_eq_True)
qed

lemma b64_encode_no_pad: "trim_right (\<lambda>c. c = CHR ''='') (b64_encode s) = b64_encode s"
proof (cases "b64_encode s = []")
  case False
  then have "last (b64_encode s) \<noteq> CHR ''=''" using b64_encode_chars(1) last_in_set by blast
  then have "dropWhile (\<lambda>c. c = CHR ''='') (rev (b64_encode s)) = rev (b64_encode s)"
    by (simp add: dropWhile_eq_self_iff hd_rev)
  then show ?thesis by (simp only: trim_right_def rev_rev_ident)
qed (simp add: trim_right_def)

lemma b64_round_trip [simp]: "b64_decode (b64_encode s) = Some s"
proof -
  let ?vs = "sixtets (map of_char s)"
  have "filter (\<lambda>c. c \<noteq> CHR 0x0A \<and> c \<noteq> CHR 0x0D) (b64_encode s) = b64_encode s"
    using b64_encode_chars by (simp only: filter_id_conv) blast
  moreover have "map b64_value (b64_encode s) = map Some ?vs"
    unfolding b64_encode_def map_map comp_def
    by (rule map_cong [OF refl]) (rule b64_char_facts(1) [OF string_sixtets])
  moreover have "unsixtets ?vs = Some (map of_char s)" by (rule unsixtets_sixtets) simp
  ultimately show ?thesis by (simp add: b64_decode_def Let_def comp_def image_iff)
qed

section \<open>Signed bytes\<close>

definition FloorDomain :: string where "FloorDomain = ''privasys-clock-floor/v1''"
definition ReceiptDomain :: string where "ReceiptDomain = ''privasys-clock-receipt/v1''"

abbreviation NL :: string where "NL \<equiv> [CHR 0x0A]"

definition floor_bytes :: "string \<Rightarrow> int \<Rightarrow> int \<Rightarrow> string" where
  "floor_bytes enclave t seq = FloorDomain @ NL @ enclave @ NL @ show_int t @ NL @ show_int seq"

definition receipt_bytes :: "string \<Rightarrow> string \<Rightarrow> string \<Rightarrow> string" where
  "receipt_bytes enclave nonce incident = ReceiptDomain @ NL @ enclave @ NL @ nonce @ NL @ incident"

record poll_request =
  rq_enclave :: string
  rq_t :: int
  rq_seq :: int
  rq_key_id :: string
  rq_sig :: string

record receipt =
  rc_incident :: string
  rc_nonce :: string
  rc_key_id :: string
  rc_sig :: string

text \<open>
  The signer: \<open>sg_sign\<close> is Ed25519 with the monitor's key, \<open>sg_key_id\<close> the name of that
  key; the checker: \<open>verify\<close> is Ed25519 with the pinned public key named \<open>key_id\<close>.
\<close>

record signer =
  sg_sign :: "string \<Rightarrow> string"
  sg_key_id :: string

definition sign_floor :: "signer \<Rightarrow> string \<Rightarrow> int \<Rightarrow> int \<Rightarrow> poll_request" where
  "sign_floor s enclave t seq =
     \<lparr>rq_enclave = enclave, rq_t = t, rq_seq = seq, rq_key_id = sg_key_id s,
      rq_sig = b64_encode (sg_sign s (floor_bytes enclave t seq))\<rparr>"

definition sign_receipt :: "signer \<Rightarrow> string \<Rightarrow> string \<Rightarrow> string \<Rightarrow> receipt" where
  "sign_receipt s enclave nonce incident =
     \<lparr>rc_incident = incident, rc_nonce = nonce, rc_key_id = sg_key_id s,
      rc_sig = b64_encode (sg_sign s (receipt_bytes enclave nonce incident))\<rparr>"

datatype wire_error = WrongKey | NotBase64 | BadSignature

definition verify_bytes :: "(string \<Rightarrow> string \<Rightarrow> bool) \<Rightarrow> string \<Rightarrow> string \<Rightarrow> string \<Rightarrow> string \<Rightarrow> wire_error option" where
  "verify_bytes verify key_id named payload sig =
     (if to_lower named \<noteq> to_lower key_id then Some WrongKey
      else case b64_decode (trim_right (\<lambda>c. c = CHR ''='') sig) of
        None \<Rightarrow> Some NotBase64
      | Some raw \<Rightarrow> if \<not> verify payload raw then Some BadSignature else None)"

definition verify_floor :: "(string \<Rightarrow> string \<Rightarrow> bool) \<Rightarrow> string \<Rightarrow> poll_request \<Rightarrow> wire_error option" where
  "verify_floor verify key_id rq =
     verify_bytes verify key_id (rq_key_id rq) (floor_bytes (rq_enclave rq) (rq_t rq) (rq_seq rq)) (rq_sig rq)"

definition verify_receipt :: "(string \<Rightarrow> string \<Rightarrow> bool) \<Rightarrow> string \<Rightarrow> string \<Rightarrow> receipt \<Rightarrow> wire_error option" where
  "verify_receipt verify key_id enclave rc =
     verify_bytes verify key_id (rc_key_id rc) (receipt_bytes enclave (rc_nonce rc) (rc_incident rc)) (rc_sig rc)"

section \<open>Incident reports\<close>

record incident_report =
  ir_enclave :: string
  ir_reason :: string
  ir_host :: int
  ir_floor :: int
  ir_nts :: int
  ir_nonce :: string

datatype report_error = NoEnclaveID | EnclaveIDTooLong | NoReason | ReasonTooLong | BadNonce

definition validate_report :: "incident_report \<Rightarrow> report_error + incident_report" where
  "validate_report r0 =
     (let r = r0\<lparr>ir_enclave := trim_space (ir_enclave r0), ir_reason := trim_space (ir_reason r0)\<rparr>;
          nonce = b64_decode (trim_right (\<lambda>c. c = CHR ''='') (ir_nonce r))
      in if ir_enclave r = [] then Inl NoEnclaveID
         else if length (ir_enclave r) > 96 then Inl EnclaveIDTooLong
         else if ir_reason r = [] then Inl NoReason
         else if length (ir_reason r) > 64 then Inl ReasonTooLong
         else case nonce of
           None \<Rightarrow> Inl BadNonce
         | Some n \<Rightarrow> if length n \<noteq> 32 \<or> length (ir_nonce r) > 64 then Inl BadNonce else Inr r)"

section \<open>Properties\<close>

lemma split_at_last:
  "a @ [c] @ b = a' @ [c] @ b' \<Longrightarrow> c \<notin> set b \<Longrightarrow> c \<notin> set b' \<Longrightarrow> a = a' \<and> b = b'"
proof (induction a arbitrary: a')
  case Nil
  then show ?case by (cases a') auto
next
  case (Cons x a)
  then show ?case by (cases a') auto
qed

lemma split_at_first:
  "a @ [c] @ b = a' @ [c] @ b' \<Longrightarrow> c \<notin> set a \<Longrightarrow> c \<notin> set a' \<Longrightarrow> a = a' \<and> b = b'"
proof (induction a arbitrary: a')
  case Nil
  then show ?case by (cases a') auto
next
  case (Cons x a)
  then show ?case by (cases a') auto
qed

lemma show_int_no_line [simp]: "CHR 0x0A \<notin> set (show_int x)"
  using show_int_chars [of "CHR 0x0A" x] by (auto simp: is_digit_def)

lemma floor_bytes_inject: "floor_bytes e t q = floor_bytes e' t' q' \<longleftrightarrow> e = e' \<and> t = t' \<and> q = q'"
proof
  assume "floor_bytes e t q = floor_bytes e' t' q'"
  then have "(e @ NL @ show_int t) @ NL @ show_int q = (e' @ NL @ show_int t') @ NL @ show_int q'"
    by (simp add: floor_bytes_def)
  then have q: "e @ NL @ show_int t = e' @ NL @ show_int t'" "show_int q = show_int q'"
    using split_at_last by (metis show_int_no_line)+
  with split_at_last [OF q(1)] show "e = e' \<and> t = t' \<and> q = q'" by simp
qed simp

lemma receipt_bytes_inject:
  assumes "CHR 0x0A \<notin> set e" "CHR 0x0A \<notin> set e'" "CHR 0x0A \<notin> set i" "CHR 0x0A \<notin> set i'"
  shows "receipt_bytes e n i = receipt_bytes e' n' i' \<longleftrightarrow> e = e' \<and> n = n' \<and> i = i'"
proof
  assume "receipt_bytes e n i = receipt_bytes e' n' i'"
  then have "e @ NL @ (n @ NL @ i) = e' @ NL @ (n' @ NL @ i')" by (simp add: receipt_bytes_def)
  from split_at_first [OF this assms(1,2)] have e: "e = e'" "n @ NL @ i = n' @ NL @ i'" by auto
  with split_at_last [OF e(2) assms(3,4)] show "e = e' \<and> n = n' \<and> i = i'" by simp
qed simp

lemma verify_signed:
  assumes "\<And>m. verify m (sg_sign s m)" "to_lower (sg_key_id s) = to_lower key_id"
  shows "verify_bytes verify key_id (sg_key_id s) payload (b64_encode (sg_sign s payload)) = None"
  using assms by (simp add: verify_bytes_def b64_encode_no_pad)

text \<open>
  Claim C37. What is signed names its content: two floors with the same signed bytes are the
  same floor, a floor never has the bytes of a receipt, and two receipts with the same bytes
  acknowledge the same incident of the same enclave for the same nonce, whatever bytes the
  sender put into the nonce, as long as enclave and incident ids hold no line end. What the
  signer signs, the checker with its public key accepts.
\<close>

theorem signatures_name_their_content:
  assumes "\<And>m. verify m (sg_sign s m)"
    and "CHR 0x0A \<notin> set e" "CHR 0x0A \<notin> set e'" "CHR 0x0A \<notin> set i" "CHR 0x0A \<notin> set i'"
  shows "(floor_bytes f t q = floor_bytes f' t' q' \<longleftrightarrow> f = f' \<and> t = t' \<and> q = q') \<and>
    floor_bytes f t q \<noteq> receipt_bytes f' n i \<and>
    (receipt_bytes e n i = receipt_bytes e' n' i' \<longleftrightarrow> e = e' \<and> n = n' \<and> i = i') \<and>
    verify_floor verify (sg_key_id s) (sign_floor s f t q) = None \<and>
    verify_receipt verify (sg_key_id s) e (sign_receipt s e n i) = None"
  using floor_bytes_inject receipt_bytes_inject [OF assms(2-5)] verify_signed [of verify s, OF assms(1)]
  by (simp add: verify_floor_def verify_receipt_def sign_floor_def sign_receipt_def)
     (simp add: floor_bytes_def receipt_bytes_def FloorDomain_def ReceiptDomain_def)

theorem signatures_name_their_content_witness:
  "\<forall>f t q. verify_floor (\<lambda>m sig. sig = rev m) ''0011223344556677''
     (sign_floor \<lparr>sg_sign = rev, sg_key_id = ''0011223344556677''\<rparr> f t q) = None"
proof (intro allI)
  fix f t q
  let ?s = "\<lparr>sg_sign = rev, sg_key_id = ''0011223344556677''\<rparr>"
  show "verify_floor (\<lambda>m sig. sig = rev m) ''0011223344556677'' (sign_floor ?s f t q) = None"
    using signatures_name_their_content [of "\<lambda>m sig. sig = rev m" ?s "''e1''" "''e1''" "''cki_1''" "''cki_1''" f t q]
    by simp
qed

end
