(* ===== verification/TimeSource.thy ===== *)
theory TimeSource
  imports Prelude
begin

text \<open>
  The platform clock's own time (\<open>internal/clock/timesource/timesource.go\<close>): two of the pinned
  NTS servers are asked, a third when they disagree, and the closest pair that agrees
  within two seconds gives the offset from the monotonic clock. Times and durations are
  nanoseconds; \<open>local\<close> is the monotonic clock at the call. What a server answers (the NTS
  exchange, a package outside the repository) is the argument \<open>query\<close>; \<open>order\<close> is the random
  permutation and \<open>swap\<close> whether the second of the two first answers came in first.
\<close>

section \<open>Data\<close>

definition Agreement :: int where "Agreement = 2000000000"
definition MaxRTT :: int where "MaxRTT = 2000000000"
definition MaxAge :: int where "MaxAge = 1800000000000"

text \<open>2026-09-18, in nanoseconds of Unix time.\<close>

definition MinTrustedTime :: int where "MinTrustedTime = 1789689600 * 1000000000"

record nts_sample =
  smp_server :: string
  smp_offset :: int
  smp_rtt :: int

datatype ts_error = TooFewServers | NoQuorum nat

record source =
  src_has :: bool
  src_offset :: int
  src_fetched :: int
  src_used :: "string list"
  src_floor :: int
  src_last_err :: "ts_error option"
  src_last_err_local :: int

section \<open>Selection\<close>

definition gap_of :: "nts_sample \<Rightarrow> nts_sample \<Rightarrow> int" where
  "gap_of a b = (let g = i64 (smp_offset a - smp_offset b) in if g < 0 then i64 (- g) else g)"

text \<open>The loop of \<open>agreeing\<close>: the best pair so far, over the pairs in the order of the two loops.\<close>

fun pairs_of :: "'a list \<Rightarrow> ('a \<times> 'a) list" where
  "pairs_of [] = []"
| "pairs_of (x # xs) = map (Pair x) xs @ pairs_of xs"

definition better_pair :: "(nts_sample \<times> nts_sample) option \<Rightarrow> nts_sample \<times> nts_sample \<Rightarrow>
    (nts_sample \<times> nts_sample) option" where
  "better_pair best p =
     (if gap_of (fst p) (snd p) \<le> Agreement \<and>
         (case best of None \<Rightarrow> True | Some q \<Rightarrow> gap_of (fst p) (snd p) < gap_of (fst q) (snd q))
      then Some p else best)"

definition agreeing :: "nts_sample list \<Rightarrow> (int \<times> nts_sample list) option" where
  "agreeing samples =
     (case foldl better_pair None (pairs_of samples) of
        None \<Rightarrow> None
      | Some (a, b) \<Rightarrow>
          Some (i64 (smp_offset a + go_quot (i64 (smp_offset b - smp_offset a)) 2), [a, b]))"

text \<open>One server asked: no answer, or one whose round trip is too long, counts as a failure.\<close>

definition ask_one :: "(string \<Rightarrow> nts_sample option) \<Rightarrow> string \<Rightarrow> nts_sample option" where
  "ask_one query host =
     (case query host of
        None \<Rightarrow> None
      | Some smp \<Rightarrow> if smp_rtt smp > MaxRTT then None else Some (smp\<lparr>smp_server := host\<rparr>))"

definition ask :: "(string \<Rightarrow> nts_sample option) \<Rightarrow> string list \<Rightarrow> nts_sample list" where
  "ask query hosts = List.map_filter (ask_one query) hosts"

definition quorum :: "(string \<Rightarrow> nts_sample option) \<Rightarrow> string list \<Rightarrow> nat list \<Rightarrow> bool \<Rightarrow>
    ts_error + (int \<times> nts_sample list)" where
  "quorum query servers order swap =
     (if length servers < 2 then Inl TooFewServers
      else
        let hosts = map (\<lambda>i. servers ! i) order;
            first = take 2 hosts;
            got = ask query (if swap then rev first else first)
        in case agreeing got of
             Some r \<Rightarrow> Inr r
           | None \<Rightarrow>
               let got' = got @ ask query (take 1 (drop 2 hosts)) in
               (case agreeing got' of Some r \<Rightarrow> Inr r | None \<Rightarrow> Inl (NoQuorum (length got'))))"

section \<open>The source\<close>

definition set_floor :: "int \<Rightarrow> source \<Rightarrow> source" where
  "set_floor t s = (if t > src_floor s then s\<lparr>src_floor := t\<rparr> else s)"

definition ts_now :: "int \<Rightarrow> source \<Rightarrow> int option" where
  "ts_now local s =
     (if \<not> src_has s then None
      else if local - src_fetched s > MaxAge then None
      else let t = local + src_offset s in Some (if t < src_floor s then src_floor s else t))"

definition ts_floor :: "int \<Rightarrow> source \<Rightarrow> int" where
  "ts_floor local s =
     (let f = (if src_floor s > MinTrustedTime then src_floor s else MinTrustedTime) in
      if src_has s \<and> local + src_offset s > f then local + src_offset s else f)"

definition verify_at :: "int \<Rightarrow> int \<Rightarrow> source \<Rightarrow> int" where
  "verify_at wall local s = (if wall > ts_floor local s then wall else ts_floor local s)"

definition refresh :: "int \<Rightarrow> ts_error + (int \<times> nts_sample list) \<Rightarrow> source \<Rightarrow> source" where
  "refresh local res s =
     (case res of
        Inl e \<Rightarrow> s\<lparr>src_last_err := Some e, src_last_err_local := local\<rparr>
      | Inr (offset, samples) \<Rightarrow>
          s\<lparr>src_has := True, src_offset := offset, src_fetched := local,
            src_used := map smp_server samples, src_last_err := None\<rparr>)"

section \<open>The closest pair\<close>

lemma foldl_better_pair:
  "foldl better_pair best ps = Some p \<Longrightarrow>
     best = Some p \<or> p \<in> set ps \<and> gap_of (fst p) (snd p) \<le> Agreement"
  by (induction ps arbitrary: best) (fastforce simp: better_pair_def split: if_splits)+

lemma better_pair_step:
  "better_pair (Some q) p \<noteq> None" "better_pair None p = None \<longleftrightarrow> \<not> gap_of (fst p) (snd p) \<le> Agreement"
  by (auto simp: better_pair_def)

lemma better_pair_mono: "foldl better_pair (Some q) ps \<noteq> None"
proof (induction ps arbitrary: q)
  case (Cons p ps)
  then show ?case using better_pair_step(1) [of q p] by auto
qed simp

lemma foldl_better_pair_None:
  "foldl better_pair None ps = None \<Longrightarrow> p \<in> set ps \<Longrightarrow> \<not> gap_of (fst p) (snd p) \<le> Agreement"
proof (induction ps)
  case (Cons q ps)
  then have "better_pair None q = None" using better_pair_mono by (cases "better_pair None q") auto
  with Cons show ?case using better_pair_step(2) by auto
qed simp

lemma pairs_of_two: "(a, b) \<in> set (pairs_of xs) \<Longrightarrow> \<exists>us vs ws. xs = us @ a # vs @ b # ws"
proof (induction xs)
  case (Cons x xs)
  then show ?case
    by (auto dest!: split_list) (metis append_Cons append_Nil, metis append_Cons)
qed simp

lemma pairs_ofI: "xs = us @ a # vs @ b # ws \<Longrightarrow> (a, b) \<in> set (pairs_of xs)"
  by (induction us arbitrary: xs) auto

definition moderate :: "nts_sample \<Rightarrow> bool" where
  "moderate s \<longleftrightarrow> \<bar>smp_offset s\<bar> < 2 ^ 62"

lemma gap_of_abs:
  assumes "moderate a" "moderate b"
  shows "gap_of a b = \<bar>smp_offset a - smp_offset b\<bar>"
proof -
  have "in_i64 (smp_offset a - smp_offset b)" "in_i64 (- (smp_offset a - smp_offset b))"
    using assms by (auto simp: moderate_def in_i64_def abs_less_iff)
  then show ?thesis by (simp add: gap_of_def Let_def i64_id abs_if)
qed

lemma half_bounds:
  fixes d :: int
  assumes "\<bar>d\<bar> \<le> 2 * m"
  shows "\<bar>go_quot d 2\<bar> \<le> m" "\<bar>d - go_quot d 2\<bar> \<le> m"
proof -
  have "go_quot d 2 = (if d < 0 then - (- d div 2) else d div 2)"
    by (auto simp: go_quot_def sgn_if)
  then show "\<bar>go_quot d 2\<bar> \<le> m" "\<bar>d - go_quot d 2\<bar> \<le> m" using assms by (auto split: if_splits)
qed

lemma agreeing_Some:
  assumes "agreeing xs = Some (off, pair)" "\<forall>s\<in>set xs. moderate s"
  shows "\<exists>us vs ws a b. xs = us @ a # vs @ b # ws \<and> pair = [a, b] \<and>
    \<bar>off - smp_offset a\<bar> \<le> 1000000000 \<and> \<bar>off - smp_offset b\<bar> \<le> 1000000000"
proof -
  obtain a b where f: "foldl better_pair None (pairs_of xs) = Some (a, b)"
    and off: "off = i64 (smp_offset a + go_quot (i64 (smp_offset b - smp_offset a)) 2)" and pr: "pair = [a, b]"
    using assms(1) by (auto simp: agreeing_def split: option.splits)
  from foldl_better_pair [OF f] have m: "(a, b) \<in> set (pairs_of xs)" and g: "gap_of a b \<le> Agreement" by auto
  obtain us vs ws where xs: "xs = us @ a # vs @ b # ws" using pairs_of_two [OF m] by blast
  have mo: "moderate a" "moderate b" using assms(2) xs by auto
  let ?d = "smp_offset b - smp_offset a"
  have d: "\<bar>?d\<bar> \<le> 2 * 1000000000" using g gap_of_abs [OF mo] by (simp add: Agreement_def abs_minus_commute)
  have "i64 ?d = ?d" by (rule i64_id) (use d in \<open>auto simp: in_i64_def\<close>)
  moreover have "i64 (smp_offset a + go_quot ?d 2) = smp_offset a + go_quot ?d 2"
    by (rule i64_id) (use half_bounds(1) [OF d] mo in \<open>auto simp: in_i64_def moderate_def\<close>)
  ultimately have o: "off = smp_offset a + go_quot ?d 2" using off by simp
  have "\<bar>off - smp_offset a\<bar> \<le> 1000000000" "\<bar>off - smp_offset b\<bar> \<le> 1000000000"
    using o half_bounds [OF d] by auto
  then show ?thesis using xs pr by blast
qed

lemma agreeing_None:
  assumes "agreeing xs = None" "xs = us @ a # vs @ b # ws" "moderate a" "moderate b"
  shows "Agreement < \<bar>smp_offset a - smp_offset b\<bar>"
proof -
  have "foldl better_pair None (pairs_of xs) = None" using assms(1) by (auto simp: agreeing_def split: option.splits)
  from foldl_better_pair_None [OF this pairs_ofI [OF assms(2)]] show ?thesis
    by (simp add: gap_of_abs assms(3,4))
qed

section \<open>The servers asked\<close>

lemma ask_one_Some:
  "ask_one query h = Some s \<Longrightarrow>
     smp_server s = h \<and> (\<exists>smp. query h = Some smp \<and> smp_offset s = smp_offset smp \<and> smp_rtt smp \<le> MaxRTT)"
  by (auto simp: ask_one_def split: option.splits if_splits)

lemma set_ask: "s \<in> set (ask query hs) \<longleftrightarrow> (\<exists>h\<in>set hs. ask_one query h = Some s)"
  by (auto simp: ask_def map_filter_def) (force intro: rev_image_eqI)

lemma distinct_ask: "distinct hs \<Longrightarrow> distinct (map smp_server (ask query hs))"
proof (induction hs)
  case (Cons h hs)
  have "h \<noteq> smp_server s" if "s \<in> set (ask query hs)" for s
    using that Cons.prems ask_one_Some by (auto simp: set_ask)
  with Cons show ?case
    using ask_one_Some by (auto simp: ask_def map_filter_def split: option.splits)
qed (simp add: ask_def map_filter_def)

lemma ask_append: "ask query (hs @ hs') = ask query hs @ ask query hs'"
  by (simp add: ask_def map_filter_def)

definition asked :: "string list \<Rightarrow> nat list \<Rightarrow> string list" where
  "asked servers order = take 3 (map (\<lambda>i. servers ! i) order)"

definition arrivals :: "string list \<Rightarrow> nat list \<Rightarrow> bool \<Rightarrow> string list" where
  "arrivals servers order swap =
     (let hosts = map (\<lambda>i. servers ! i) order in
      (if swap then rev (take 2 hosts) else take 2 hosts) @ take 1 (drop 2 hosts))"

lemma arrivals_asked:
  "set (arrivals servers order swap) = set (asked servers order)"
  "distinct (arrivals servers order swap) \<longleftrightarrow> distinct (asked servers order)"
proof -
  have "take 3 hosts = take 2 hosts @ take 1 (drop 2 hosts)" for hosts :: "string list"
    using take_add [of 2 1 hosts] by simp
  then show "set (arrivals servers order swap) = set (asked servers order)"
    "distinct (arrivals servers order swap) \<longleftrightarrow> distinct (asked servers order)"
    unfolding arrivals_def asked_def Let_def by (auto simp only: set_append set_rev distinct_append distinct_rev split: if_splits)
qed

lemma quorum_from:
  assumes "quorum query servers order swap = Inr r"
  shows "\<exists>hs hs'. arrivals servers order swap = hs @ hs' \<and> agreeing (ask query hs) = Some r"
  using assms
  by (auto simp: quorum_def arrivals_def Let_def ask_append [symmetric] split: if_splits option.splits)

lemma quorum_none:
  assumes "quorum query servers order swap = Inl e" "2 \<le> length servers"
  shows "agreeing (ask query (arrivals servers order swap)) = None"
  using assms by (auto simp: quorum_def arrivals_def Let_def ask_append split: if_splits option.splits)

lemma two_asked:
  assumes "distinct hs" "ask query hs = us @ a # vs @ b # ws"
  shows "smp_server a \<in> set hs \<and> smp_server b \<in> set hs \<and> smp_server a \<noteq> smp_server b"
proof -
  have "a \<in> set (ask query hs)" "b \<in> set (ask query hs)" using assms(2) by auto
  then have "smp_server a \<in> set hs" "smp_server b \<in> set hs" using ask_one_Some by (fastforce simp: set_ask)+
  then show ?thesis using distinct_ask [OF assms(1), of query] assms(2) by simp
qed

section \<open>Properties\<close>

lemma adopted_offset_near:
  assumes "distinct (asked servers order)"
    and "\<forall>h smp. query h = Some smp \<longrightarrow> \<bar>smp_offset smp\<bar> < 2 ^ 62"
    and "\<forall>h\<in>set (asked servers order). h \<noteq> liar \<longrightarrow>
      (\<forall>smp. query h = Some smp \<longrightarrow> \<bar>smp_offset smp - \<theta>\<bar> \<le> \<delta>)"
    and "quorum query servers order swap = Inr (off, pair)"
  shows "\<bar>off - \<theta>\<bar> \<le> \<delta> + Agreement div 2"
proof -
  obtain hs hs' where hs: "arrivals servers order swap = hs @ hs'" and ag: "agreeing (ask query hs) = Some (off, pair)"
    using quorum_from [OF assms(4)] by blast
  have d: "distinct hs" "set hs \<subseteq> set (asked servers order)"
    using arrivals_asked [of servers order swap] assms(1) hs by auto
  have ans: "\<exists>smp. query (smp_server s) = Some smp \<and> smp_offset s = smp_offset smp" if "s \<in> set (ask query hs)" for s
    using that ask_one_Some by (fastforce simp: set_ask)
  have "\<forall>s\<in>set (ask query hs). moderate s" using ans assms(2) by (fastforce simp: moderate_def)
  from agreeing_Some [OF ag this] obtain us vs ws a b where xs: "ask query hs = us @ a # vs @ b # ws"
    and near: "\<bar>off - smp_offset a\<bar> \<le> 1000000000" "\<bar>off - smp_offset b\<bar> \<le> 1000000000" by blast
  have honest: "\<bar>smp_offset s - \<theta>\<bar> \<le> \<delta>" if "s \<in> set (ask query hs)" "smp_server s \<in> set hs" "smp_server s \<noteq> liar" for s
    using ans [OF that(1)] assms(3) d(2) that(2,3) by fastforce
  have "\<bar>smp_offset a - \<theta>\<bar> \<le> \<delta> \<or> \<bar>smp_offset b - \<theta>\<bar> \<le> \<delta>"
    using two_asked [OF d(1) xs] honest [of a] honest [of b] xs by (metis in_set_conv_decomp append_Cons append_assoc)
  then show ?thesis using near by (auto simp: Agreement_def)
qed

lemma two_answers_agree:
  assumes "distinct (asked servers order)" "2 \<le> length servers" "2 * \<delta> \<le> Agreement"
    and "h \<in> set (asked servers order)" "k \<in> set (asked servers order)" "h \<noteq> k"
    and "ask_one query h = Some a" "ask_one query k = Some b" "moderate a" "moderate b"
    and "\<bar>smp_offset a - \<theta>\<bar> \<le> \<delta>" "\<bar>smp_offset b - \<theta>\<bar> \<le> \<delta>"
  shows "\<exists>r. quorum query servers order swap = Inr r"
proof (rule ccontr)
  assume "\<nexists>r. quorum query servers order swap = Inr r"
  then obtain e where "quorum query servers order swap = Inl e" by (metis sumE)
  from quorum_none [OF this assms(2)] have no: "agreeing (ask query (arrivals servers order swap)) = None" .
  let ?xs = "ask query (arrivals servers order swap)"
  have ab: "a \<in> set ?xs" "b \<in> set ?xs" "a \<noteq> b"
    using assms(4-8) ask_one_Some [OF assms(7)] ask_one_Some [OF assms(8)] by (auto simp: set_ask arrivals_asked)
  then obtain us vs where u: "?xs = us @ a # vs" by (meson split_list)
  have far: "Agreement < \<bar>smp_offset a - smp_offset b\<bar>"
  proof (cases "b \<in> set vs")
    case True
    then obtain vs1 vs2 where "vs = vs1 @ b # vs2" by (meson split_list)
    with u agreeing_None [OF no _ assms(9,10)] show ?thesis by simp
  next
    case False
    then obtain us1 us2 where "us = us1 @ b # us2" using ab u by (metis Un_iff list.set_cases set_ConsD set_append split_list)
    with u agreeing_None [OF no _ assms(10,9), of us1 us2 vs] show ?thesis by (simp add: abs_minus_commute)
  qed
  with assms(3,11,12) show False by linarith
qed

text \<open>
  Claim C23. One lying or broken server cannot move the monitor's time, nor keep it from having
  one: when every other server asked answers within \<open>\<delta>\<close> of the true offset, an offset the
  source adopts is within \<open>\<delta>\<close> and one second of it, and two such answers in time are enough
  for one to be adopted when \<open>\<delta>\<close> is at most a second; whatever the remaining server says and
  in whatever order the answers arrive. Offsets are taken below 146 years, where their
  differences fit an int64.
\<close>

theorem one_liar_cannot_move_the_time:
  assumes "distinct (asked servers order)"
    and "\<forall>h smp. query h = Some smp \<longrightarrow> \<bar>smp_offset smp\<bar> < 2 ^ 62"
    and "\<forall>h\<in>set (asked servers order). h \<noteq> liar \<longrightarrow>
      (\<forall>smp. query h = Some smp \<longrightarrow> \<bar>smp_offset smp - \<theta>\<bar> \<le> \<delta>)"
  shows "(\<forall>off pair. quorum query servers order swap = Inr (off, pair) \<longrightarrow> \<bar>off - \<theta>\<bar> \<le> \<delta> + Agreement div 2) \<and>
    (2 \<le> length servers \<and> 2 * \<delta> \<le> Agreement \<and>
     (\<exists>h\<in>set (asked servers order). \<exists>k\<in>set (asked servers order). h \<noteq> k \<and> h \<noteq> liar \<and> k \<noteq> liar \<and>
        ask_one query h \<noteq> None \<and> ask_one query k \<noteq> None) \<longrightarrow>
     (\<exists>r. quorum query servers order swap = Inr r))"
proof (intro conjI impI allI)
  fix off pair
  assume "quorum query servers order swap = Inr (off, pair)"
  with assms show "\<bar>off - \<theta>\<bar> \<le> \<delta> + Agreement div 2" by (rule adopted_offset_near)
next
  assume live: "2 \<le> length servers \<and> 2 * \<delta> \<le> Agreement \<and>
     (\<exists>h\<in>set (asked servers order). \<exists>k\<in>set (asked servers order). h \<noteq> k \<and> h \<noteq> liar \<and> k \<noteq> liar \<and>
        ask_one query h \<noteq> None \<and> ask_one query k \<noteq> None)"
  then obtain h k a b where hk: "h \<in> set (asked servers order)" "k \<in> set (asked servers order)" "h \<noteq> k"
      "h \<noteq> liar" "k \<noteq> liar" "ask_one query h = Some a" "ask_one query k = Some b" by blast
  have near: "moderate s \<and> \<bar>smp_offset s - \<theta>\<bar> \<le> \<delta>"
    if "ask_one query g = Some s" "g \<in> set (asked servers order)" "g \<noteq> liar" for g s
    using ask_one_Some [OF that(1)] assms(2,3) that(2,3) unfolding moderate_def by fastforce
  show "\<exists>r. quorum query servers order swap = Inr r"
    using two_answers_agree [OF assms(1) _ _ hk(1-3,6,7)] live near [OF hk(6,1,4)] near [OF hk(7,2,5)] by blast
qed

definition sample_servers :: "string list" where
  "sample_servers = [''nts.netnod.se'', ''ptbtime1.ptb.de'', ''nts.time.nl'', ''time.cloudflare.com'']"

definition sample_answers :: "string \<Rightarrow> nts_sample option" where
  "sample_answers h = Some \<lparr>smp_server = [], smp_offset = (if h = ''nts.netnod.se'' then 9000000000 else 5), smp_rtt = 40\<rparr>"

theorem one_liar_cannot_move_the_time_witness:
  "\<exists>off pair. quorum sample_answers sample_servers [0, 2, 1, 3] True = Inr (off, pair) \<and> \<bar>off - 5\<bar> \<le> 0 + Agreement div 2"
proof -
  have d: "distinct (asked sample_servers [0, 2, 1, 3])" by code_simp
  have m: "\<forall>h smp. sample_answers h = Some smp \<longrightarrow> \<bar>smp_offset smp\<bar> < 2 ^ 62" by (auto simp: sample_answers_def)
  have h: "\<forall>h\<in>set (asked sample_servers [0, 2, 1, 3]). h \<noteq> ''nts.netnod.se'' \<longrightarrow>
      (\<forall>smp. sample_answers h = Some smp \<longrightarrow> \<bar>smp_offset smp - 5\<bar> \<le> 0)" by (auto simp: sample_answers_def)
  have hk: "''nts.time.nl'' \<in> set (asked sample_servers [0, 2, 1, 3])"
    "''ptbtime1.ptb.de'' \<in> set (asked sample_servers [0, 2, 1, 3])"
    by (simp_all add: asked_def sample_servers_def)
  have "ask_one sample_answers g \<noteq> None" for g by (simp add: ask_one_def sample_answers_def MaxRTT_def)
  then have live: "\<exists>h\<in>set (asked sample_servers [0, 2, 1, 3]). \<exists>k\<in>set (asked sample_servers [0, 2, 1, 3]).
      h \<noteq> k \<and> h \<noteq> ''nts.netnod.se'' \<and> k \<noteq> ''nts.netnod.se'' \<and>
      ask_one sample_answers h \<noteq> None \<and> ask_one sample_answers k \<noteq> None"
    using hk by (intro bexI [of _ "''nts.time.nl''"] bexI [of _ "''ptbtime1.ptb.de''"]) simp_all
  have n: "2 \<le> length sample_servers" "2 * (0::int) \<le> Agreement"
    by (simp_all add: sample_servers_def Agreement_def)
  note r = one_liar_cannot_move_the_time [OF d m h, where swap = True]
  obtain off pair where q: "quorum sample_answers sample_servers [0, 2, 1, 3] True = Inr (off, pair)"
    using mp [OF r [THEN conjunct2] conjI [OF n(1) conjI [OF n(2) live]]] by (metis surj_pair)
  show ?thesis using r [THEN conjunct1, THEN spec, THEN spec, THEN mp, OF q] q by (intro exI conjI)
qed

text \<open>
  The operations of the source in any order, each at a reading of the monotonic clock.
\<close>

datatype ts_op = SetFloor int | Refresh int "ts_error + (int \<times> nts_sample list)"

fun ts_step :: "ts_op \<Rightarrow> source \<Rightarrow> source" where
  "ts_step (SetFloor t) s = set_floor t s"
| "ts_step (Refresh local res) s = refresh local res s"

definition ts_run :: "ts_op list \<Rightarrow> source \<Rightarrow> source" where
  "ts_run ops s = foldl (\<lambda>s op. ts_step op s) s ops"

lemma floor_grows: "src_floor s \<le> src_floor (ts_step op s)"
  by (cases op) (auto simp: set_floor_def refresh_def split: sum.split prod.split)

lemma floor_run: "src_floor s \<le> src_floor (ts_run ops s)"
proof (induction ops arbitrary: s)
  case (Cons op ops)
  then show ?case using floor_grows [of s op] by (simp add: ts_run_def) (meson order_trans)
qed (simp add: ts_run_def)

lemma floor_after_set: "src_floor (ts_run (ops @ SetFloor t # ops') s) \<ge> t"
proof -
  have "t \<le> src_floor (set_floor t (ts_run ops s))" by (simp add: set_floor_def)
  then show ?thesis using floor_run [of "set_floor t (ts_run ops s)" ops'] by (simp add: ts_run_def)
qed

text \<open>
  Once a floor is set, no time the source reports, and no time it checks a
  certificate at, is earlier, whatever is fetched afterwards and wherever the host sets its
  wall clock; the latter is also never before the build. The source reports a time exactly
  while its last successful fetch is at most thirty minutes old.
\<close>

lemma trusted_time_has_a_floor:
  fixes s0 :: source and ops ops' :: "ts_op list" and t :: int
  defines "s \<equiv> ts_run (ops @ SetFloor t # ops') s0"
  shows "(\<forall>local u. ts_now local s = Some u \<longrightarrow> t \<le> u) \<and>
    (\<forall>local wall. t \<le> verify_at wall local s \<and> MinTrustedTime \<le> verify_at wall local s \<and> wall \<le> verify_at wall local s) \<and>
    (\<forall>local. ts_now local s \<noteq> None \<longleftrightarrow> src_has s \<and> local \<le> src_fetched s + MaxAge)"
  using floor_after_set [where t = t and ops = ops and ops' = ops' and s = s0]
  by (auto simp: s_def [symmetric] ts_now_def ts_floor_def verify_at_def Let_def split: if_splits)

end
