(* ===== verification/Incident.thy ===== *)
theory Incident
  imports Clock RateLimit Wire "HOL-Library.Sublist"
begin

text \<open>
  The incident endpoint of the platform clock: \<open>Incident\<close>, \<open>pollAfterIncident\<close> and \<open>PollNow\<close> of
  \<open>internal/clock/service.go\<close>, and the enclave list behind them (\<open>refreshList\<close>, \<open>lookup\<close> and
  \<open>lookupOrRefresh\<close> of \<open>listing.go\<close>). Calls are taken one at a time: a fetch of the list has
  ended, and the report's background work is done, before the next call. What the world
  answers during a call is in the record \<open>incident_call\<close>.
\<close>

section \<open>Data\<close>

record clock_incident =
  ci_id :: string
  ci_enclave :: string
  ci_reason :: string
  ci_host :: int
  ci_floor :: int
  ci_nts :: int
  ci_nonce :: string
  ci_received :: int
  ci_known :: bool
  ci_remote :: string

definition incidentsPerEnclave :: int where "incidentsPerEnclave = 6"
definition incidentsGlobal :: int where "incidentsGlobal = 60"
definition incidentPollGap :: int where "incidentPollGap = minute_ns"
definition listRefreshGap :: int where "listRefreshGap = minute_ns"

text \<open>A poll a report caused: the enclave, the incident and when.\<close>

record incident_poll =
  ip_enclave :: string
  ip_incident :: string
  ip_at :: int

record incident_service =
  is_closing :: bool
  is_enabled :: bool
  is_enclaves :: "string \<rightharpoonup> enclave"
  is_list_tried :: "int option"
  is_limit :: rate_limit
  is_last_poll :: "string \<rightharpoonup> int"
  is_recorded :: "clock_incident list"
  is_polls :: "incident_poll list"

definition new_incident_service :: incident_service where
  "new_incident_service =
     \<lparr>is_closing = False, is_enabled = False, is_enclaves = Map.empty, is_list_tried = None,
      is_limit = new_rate_limit incidentsPerEnclave incidentsGlobal, is_last_poll = Map.empty,
      is_recorded = [], is_polls = []\<rparr>"

text \<open>
  What a call meets: the control plane's list (\<open>None\<close> for an error), the monotonic clock at
  the list, the limiter and the poll, the new id, the trusted time, whether background work
  is still taken, and whether the record took the incident.
\<close>

record incident_call =
  ic_report :: incident_report
  ic_remote :: string
  ic_fetch :: "enclave list option"
  ic_list_at :: int
  ic_now :: int
  ic_id :: "string option"
  ic_received :: int
  ic_background :: bool
  ic_recorded :: bool
  ic_poll_at :: int

datatype incident_error =
    ShuttingDown
  | ClockOff
  | BadReport report_error
  | UnknownEnclave
  | TooManyIncidents
  | NoID

section \<open>The list\<close>

definition refresh_list :: "bool \<Rightarrow> enclave list option \<Rightarrow> int \<Rightarrow> incident_service \<Rightarrow> incident_service" where
  "refresh_list force fetch now s =
     (if \<not> force \<and> (case is_list_tried s of None \<Rightarrow> False | Some t \<Rightarrow> now - t < listRefreshGap) then s
      else
        let s1 = s\<lparr>is_list_tried := Some now\<rparr> in
        case fetch of
          None \<Rightarrow> s1
        | Some listed \<Rightarrow> s1\<lparr>is_enclaves := foldl (\<lambda>m e. m(en_id e \<mapsto> e)) Map.empty listed\<rparr>)"

definition lookup_or_refresh :: "string \<Rightarrow> enclave list option \<Rightarrow> int \<Rightarrow> incident_service \<Rightarrow>
    enclave option \<times> incident_service" where
  "lookup_or_refresh i fetch now s =
     (case is_enclaves s i of
        Some e \<Rightarrow> (Some e, s)
      | None \<Rightarrow> (let s' = refresh_list False fetch now s in (is_enclaves s' i, s')))"

section \<open>A report\<close>

definition poll_after_incident :: "enclave \<Rightarrow> string \<Rightarrow> int \<Rightarrow> incident_service \<Rightarrow> incident_service" where
  "poll_after_incident e i now s =
     (let due = (case is_last_poll s (en_id e) of None \<Rightarrow> True | Some t \<Rightarrow> now - t \<ge> incidentPollGap) in
      if due then s\<lparr>is_last_poll := (is_last_poll s)(en_id e \<mapsto> now),
                    is_polls := is_polls s @ [\<lparr>ip_enclave = en_id e, ip_incident = i, ip_at = now\<rparr>]\<rparr>
      else s)"

definition incident_record :: "incident_report \<Rightarrow> string \<Rightarrow> int \<Rightarrow> string \<Rightarrow> clock_incident" where
  "incident_record r i received remote =
     \<lparr>ci_id = i, ci_enclave = ir_enclave r, ci_reason = ir_reason r, ci_host = ir_host r, ci_floor = ir_floor r,
      ci_nts = ir_nts r, ci_nonce = ir_nonce r, ci_received = received, ci_known = True, ci_remote = remote\<rparr>"

definition incident :: "signer \<Rightarrow> incident_call \<Rightarrow> incident_service \<Rightarrow>
    (incident_error + receipt) \<times> incident_service" where
  "incident sg c s =
     (if is_closing s then (Inl ShuttingDown, s)
      else if \<not> is_enabled s then (Inl ClockOff, s)
      else case validate_report (ic_report c) of
        Inl e \<Rightarrow> (Inl (BadReport e), s)
      | Inr r \<Rightarrow>
          (case lookup_or_refresh (ir_enclave r) (ic_fetch c) (ic_list_at c) s of
             (None, s1) \<Rightarrow> (Inl UnknownEnclave, s1)
           | (Some e, s1) \<Rightarrow>
               let (allowed, lim) = allow (ir_enclave r) (ic_now c) (is_limit s1);
                   s2 = s1\<lparr>is_limit := lim\<rparr>
               in if \<not> allowed then (Inl TooManyIncidents, s2)
                  else case ic_id c of
                    None \<Rightarrow> (Inl NoID, s2)
                  | Some i \<Rightarrow>
                      if \<not> ic_background c then (Inl ShuttingDown, s2)
                      else
                        let rec = incident_record r i (ic_received c) (ic_remote c);
                            s3 = (if ic_recorded c then s2\<lparr>is_recorded := is_recorded s2 @ [rec]\<rparr> else s2)
                        in (Inr (sign_receipt sg (ir_enclave r) (ir_nonce r) i),
                            poll_after_incident e i (ic_poll_at c) s3)))"

text \<open>\<open>PollNow\<close>: the enclave it would poll.\<close>

definition poll_now :: "string \<Rightarrow> enclave list option \<Rightarrow> int \<Rightarrow> incident_service \<Rightarrow> enclave option \<times> incident_service" where
  "poll_now i fetch now s = (if \<not> is_enabled s then (None, s) else lookup_or_refresh i fetch now s)"

text \<open>A sequence of reports.\<close>

definition serve :: "signer \<Rightarrow> incident_call list \<Rightarrow> incident_service \<Rightarrow> incident_service" where
  "serve sg cs s = foldl (\<lambda>s c. snd (incident sg c s)) s cs"

section \<open>Lemmas\<close>

lemma refresh_list_keeps [simp]:
  "is_limit (refresh_list f l n s) = is_limit s" "is_recorded (refresh_list f l n s) = is_recorded s"
  "is_polls (refresh_list f l n s) = is_polls s" "is_last_poll (refresh_list f l n s) = is_last_poll s"
  by (auto simp: refresh_list_def Let_def split: option.split)

lemma lookup_keeps:
  assumes "lookup_or_refresh i l n s = (r, s')"
  shows "is_limit s' = is_limit s" "is_recorded s' = is_recorded s" "is_polls s' = is_polls s"
    "is_last_poll s' = is_last_poll s" "r = is_enclaves s' i"
  using assms by (auto simp: lookup_or_refresh_def Let_def split: option.splits)

lemma poll_keeps [simp]:
  "is_limit (poll_after_incident e i n s) = is_limit s"
  "is_recorded (poll_after_incident e i n s) = is_recorded s"
  by (auto simp: poll_after_incident_def Let_def)

text \<open>
  What a call does to the limiter and the record: nothing, or one question to the limiter,
  and a new row only when the limiter said yes.
\<close>

lemma incident_cases:
  assumes "incident sg c s = (res, s')"
  obtains (refused) "s' = s" "\<exists>e. res = Inl e"
  | (unknown) r where "validate_report (ic_report c) = Inr r" "res = Inl UnknownEnclave"
      "lookup_or_refresh (ir_enclave r) (ic_fetch c) (ic_list_at c) s = (None, s')"
  | (stopped) r e s1 where "validate_report (ic_report c) = Inr r" "\<exists>x. res = Inl x"
      "lookup_or_refresh (ir_enclave r) (ic_fetch c) (ic_list_at c) s = (Some e, s1)"
      "s' = s1\<lparr>is_limit := snd (allow (ir_enclave r) (ic_now c) (is_limit s1))\<rparr>"
  | (taken) r e s1 i where "validate_report (ic_report c) = Inr r"
      "lookup_or_refresh (ir_enclave r) (ic_fetch c) (ic_list_at c) s = (Some e, s1)"
      "fst (allow (ir_enclave r) (ic_now c) (is_limit s1))" "ic_id c = Some i"
      "res = Inr (sign_receipt sg (ir_enclave r) (ir_nonce r) i)"
      "s' = poll_after_incident e i (ic_poll_at c)
         (s1\<lparr>is_limit := snd (allow (ir_enclave r) (ic_now c) (is_limit s1)),
             is_recorded := (if ic_recorded c
               then is_recorded s1 @ [incident_record r i (ic_received c) (ic_remote c)] else is_recorded s1)\<rparr>)"
proof (cases "is_closing s \<or> \<not> is_enabled s")
  case True
  with assms have "s' = s" "\<exists>e. res = Inl e" by (auto simp: incident_def split: if_splits)
  then show ?thesis by (rule refused)
next
  case on: False
  show ?thesis
  proof (cases "validate_report (ic_report c)")
    case (Inl e)
    with assms on refused show ?thesis by (auto simp: incident_def)
  next
    case v: (Inr r)
    obtain found s1 where l: "lookup_or_refresh (ir_enclave r) (ic_fetch c) (ic_list_at c) s = (found, s1)" by fastforce
    obtain ok lim where a: "allow (ir_enclave r) (ic_now c) (is_limit s1) = (ok, lim)" by fastforce
    show ?thesis
    proof (cases found)
      case None
      with assms on v l unknown show ?thesis by (auto simp: incident_def)
    next
      case e: (Some e)
      show ?thesis
      proof (cases "ok \<and> ic_id c \<noteq> None \<and> ic_background c")
        case True
        then obtain i where i: "ic_id c = Some i" by auto
        have "s1\<lparr>is_limit := lim\<rparr> = s1\<lparr>is_limit := lim, is_recorded := is_recorded s1\<rparr>" by simp
        with assms on v l e a i True show ?thesis
          using taken [OF v l [unfolded e] _ i] by (auto simp: incident_def Let_def)
      next
        case False
        with assms on v l e a show ?thesis
          using stopped [OF v _ l [unfolded e]] by (auto simp: incident_def Let_def split: if_splits option.splits)
      qed
    qed
  qed
qed

lemma incident_meters:
  assumes "incident sg c s = (res, s')"
  shows "is_limit s' = is_limit s \<and> is_recorded s' = is_recorded s \<or>
    (\<exists>key ok. allow key (ic_now c) (is_limit s) = (ok, is_limit s') \<and>
       (is_recorded s' = is_recorded s \<or>
        ok \<and> (\<exists>rec. ci_enclave rec = key \<and> is_recorded s' = is_recorded s @ [rec])))"
  using assms
proof (cases rule: incident_cases)
  case (unknown r)
  then show ?thesis using lookup_keeps [OF unknown(3)] by simp
next
  case (stopped r e s1)
  then show ?thesis
    using lookup_keeps [OF stopped(3)]
    by (intro disjI2 exI [of _ "ir_enclave r"] exI [of _ "fst (allow (ir_enclave r) (ic_now c) (is_limit s))"]) simp
next
  case (taken r e s1 i)
  then show ?thesis
    using lookup_keeps [OF taken(2)]
    by (intro disjI2 exI [of _ "ir_enclave r"] exI [of _ "fst (allow (ir_enclave r) (ic_now c) (is_limit s))"])
       (simp add: incident_record_def prod_eq_iff)
qed simp

lemma admissions_Cons:
  "allow key now r = (ok, r') \<Longrightarrow> admissions es r' = (passed, r'') \<Longrightarrow>
     admissions ((key, now) # es) r = (if ok then (key, now) # passed else passed, r'')"
  by simp

lemma serve_Cons: "serve sg (c # cs) s = serve sg cs (snd (incident sg c s))"
  by (simp add: serve_def)

lemma serve_append: "serve sg (cs @ cs') s = serve sg cs' (serve sg cs s)"
  by (simp add: serve_def)

text \<open>Over a run, the new rows are among the events the limiter admitted.\<close>

lemma serve_meters:
  "\<exists>es passed new. admissions es (is_limit s) = (passed, is_limit (serve sg cs s)) \<and>
     is_recorded (serve sg cs s) = is_recorded s @ new \<and>
     subseq (map snd es) (map ic_now cs) \<and> subseq (map ci_enclave new) (map fst passed)"
proof (induction cs arbitrary: s)
  case Nil
  show ?case by (intro exI [of _ "[]"]) (simp add: serve_def)
next
  case (Cons c cs)
  obtain res s1 where i: "incident sg c s = (res, s1)" by fastforce
  obtain es passed new where ih: "admissions es (is_limit s1) = (passed, is_limit (serve sg cs s1))"
    "is_recorded (serve sg cs s1) = is_recorded s1 @ new"
    "subseq (map snd es) (map ic_now cs)" "subseq (map ci_enclave new) (map fst passed)"
    using Cons.IH by blast
  from incident_meters [OF i] show ?case
  proof (elim disjE exE conjE)
    assume "is_limit s1 = is_limit s" "is_recorded s1 = is_recorded s"
    then show ?thesis using ih i by (intro exI [of _ es] exI [of _ passed] exI [of _ new]) (auto simp: serve_Cons)
  next
    fix key ok
    assume a: "allow key (ic_now c) (is_limit s) = (ok, is_limit s1)" and r: "is_recorded s1 = is_recorded s"
    have "subseq (map ci_enclave new) (map fst (if ok then (key, ic_now c) # passed else passed))"
      using ih(4) by auto
    then show ?thesis using admissions_Cons [OF a ih(1)] ih(2,3) r i
      by (intro exI [of _ "(key, ic_now c) # es"] exI [of _ "if ok then (key, ic_now c) # passed else passed"]
          exI [of _ new]) (simp add: serve_Cons)
  next
    fix key ok rec
    assume a: "allow key (ic_now c) (is_limit s) = (ok, is_limit s1)" "ok" "ci_enclave rec = key"
      and r: "is_recorded s1 = is_recorded s @ [rec]"
    show ?thesis using admissions_Cons [OF a(1) ih(1)] a(2,3) ih(2-4) r i
      by (intro exI [of _ "(key, ic_now c) # es"] exI [of _ "(key, ic_now c) # passed"] exI [of _ "rec # new"])
         (simp add: serve_Cons)
  qed
qed

text \<open>Polls of one enclave are a minute apart.\<close>

definition polls_spaced :: "incident_service \<Rightarrow> bool" where
  "polls_spaced s \<longleftrightarrow>
     sorted_wrt (\<lambda>p q. ip_enclave p = ip_enclave q \<longrightarrow> ip_at p + incidentPollGap \<le> ip_at q) (is_polls s) \<and>
     (\<forall>p\<in>set (is_polls s). \<exists>t. is_last_poll s (ip_enclave p) = Some t \<and> ip_at p \<le> t)"

lemma polls_spaced_poll: "polls_spaced s \<Longrightarrow> polls_spaced (poll_after_incident e i now s)"
  by (fastforce simp: polls_spaced_def poll_after_incident_def Let_def sorted_wrt_append incidentPollGap_def
      minute_ns_def split: option.splits if_splits)

lemma polls_spaced_incident:
  assumes "incident sg c s = (res, s')" "polls_spaced s"
  shows "polls_spaced s'"
  using assms(1)
proof (cases rule: incident_cases)
  case (unknown r)
  show ?thesis using assms(2) lookup_keeps(3,4) [OF unknown(3)] by (simp add: polls_spaced_def)
next
  case (stopped r e s1)
  show ?thesis unfolding stopped(4) using assms(2) lookup_keeps(3,4) [OF stopped(3)] by (simp add: polls_spaced_def)
next
  case (taken r e s1 i)
  show ?thesis unfolding taken(6)
    by (rule polls_spaced_poll) (use assms(2) lookup_keeps(3,4) [OF taken(2)] in \<open>simp add: polls_spaced_def\<close>)
qed (use assms in simp)

lemma polls_spaced_serve: "polls_spaced s \<Longrightarrow> polls_spaced (serve sg cs s)"
proof (induction cs arbitrary: s)
  case (Cons c cs)
  then show ?case using polls_spaced_incident [OF surjective_pairing] by (simp add: serve_Cons)
qed (simp add: serve_def)

section \<open>Properties\<close>

lemma sorted_subseq: "subseq xs ys \<Longrightarrow> sorted ys \<Longrightarrow> sorted xs"
proof (induction rule: list_emb.induct)
  case (list_emb_Cons2 x y xs ys)
  then show ?case using list_emb_set [OF list_emb_Cons2(2)] by fastforce
qed auto

lemma subseq_filter_le: "subseq xs ys \<Longrightarrow> length (filter P xs) \<le> length (filter P ys)"
  by (meson list_emb_length subseq_filter)

text \<open>
  What unauthenticated reports can cost is bounded. Between any two instants, and
  whatever was sent before, the incidents recorded are at most 6 for each minute and 6 more
  for one enclave, and 60 for each minute and 60 more in all; and two polls of one
  enclave that reports caused are at least a minute apart.
\<close>

lemma incident_cost_is_bounded:
  assumes "sorted (map ic_now (cs0 @ cs))" "\<forall>c\<in>set cs. t0 \<le> ic_now c \<and> ic_now c \<le> t1" "t0 \<le> t1"
    and "is_limit s0 = is_limit new_incident_service" "is_polls s0 = []"
    and "is_recorded (serve sg (cs0 @ cs) s0) = is_recorded (serve sg cs0 s0) @ new"
  shows "of_nat (length (filter (\<lambda>r. ci_enclave r = key) new)) \<le> 6 * (1 + minutes (t1 - t0)) \<and>
    of_nat (length new) \<le> 60 * (1 + minutes (t1 - t0)) \<and>
    sorted_wrt (\<lambda>p q. ip_enclave p = ip_enclave q \<longrightarrow> ip_at p + minute_ns \<le> ip_at q)
      (is_polls (serve sg (cs0 @ cs) s0))"
proof -
  let ?s1 = "serve sg cs0 s0"
  obtain es0 passed0 new0 where a0: "admissions es0 (is_limit s0) = (passed0, is_limit ?s1)"
    "subseq (map snd es0) (map ic_now cs0)" using serve_meters [of s0 sg cs0] by blast
  obtain es passed new' where a: "admissions es (is_limit ?s1) = (passed, is_limit (serve sg cs ?s1))"
    "is_recorded (serve sg cs ?s1) = is_recorded ?s1 @ new'" "subseq (map snd es) (map ic_now cs)"
    "subseq (map ci_enclave new') (map fst passed)" using serve_meters [of ?s1 sg cs] by blast
  have new: "new' = new" using a(2) assms(6) by (simp add: serve_append)
  have srt: "sorted (map snd (es0 @ es))"
    using sorted_subseq [OF list_emb_append_mono [OF a0(2) a(3)]] assms(1) by (simp only: map_append)
  have win: "\<forall>e\<in>set es. t0 \<le> snd e \<and> snd e \<le> t1"
  proof
    fix e assume "e \<in> set es"
    then have "snd e \<in> set (map snd es)" by simp
    then obtain y where "y \<in> set (map ic_now cs)" "snd e = y" using list_emb_set [OF a(3)] by metis
    then show "t0 \<le> snd e \<and> snd e \<le> t1" using assms(2) by auto
  qed
  note bound = each_key.window_bound [OF a0(1) a(1) _ _ srt win assms(3), of key]
    all_keys.window_bound [OF a0(1) a(1) _ _ srt win assms(3)]
  have cap: "of_nat (length (filter (\<lambda>e. fst e = key) passed)) \<le> 6 * (1 + minutes (t1 - t0))"
    "of_nat (length passed) \<le> 60 * (1 + minutes (t1 - t0))"
    using bound by (simp_all add: assms(4) new_incident_service_def new_rate_limit_def key_bucket_def fresh_bucket_def
        incidentsPerEnclave_def incidentsGlobal_def)
  have le: "length (filter (\<lambda>r. ci_enclave r = key) new) \<le> length (filter (\<lambda>e. fst e = key) passed)"
    "length new \<le> length passed"
    using subseq_filter_le [OF a(4), of "\<lambda>k. k = key"] list_emb_length [OF a(4)] new by (simp_all add: filter_map comp_def)
  have "polls_spaced (serve sg (cs0 @ cs) s0)"
    by (rule polls_spaced_serve) (simp add: polls_spaced_def assms(5))
  then show ?thesis
    unfolding polls_spaced_def incidentPollGap_def
    by (intro conjI order_trans [OF of_nat_mono [OF le(1)] cap(1)] order_trans [OF of_nat_mono [OF le(2)] cap(2)])
       (rule conjunct1)
qed

definition sample_report :: incident_report where
  "sample_report = \<lparr>ir_enclave = ''e1'', ir_reason = ''host_behind_floor'', ir_host = 5, ir_floor = 9, ir_nts = 0,
     ir_nonce = replicate 43 (CHR ''A'')\<rparr>"

definition sample_call :: "int \<Rightarrow> incident_call" where
  "sample_call now = \<lparr>ic_report = sample_report, ic_remote = [], ic_fetch = None, ic_list_at = now, ic_now = now,
     ic_id = Some ''cki_1'', ic_received = 7, ic_background = True, ic_recorded = True, ic_poll_at = now\<rparr>"

definition sample_incident_service :: incident_service where
  "sample_incident_service = new_incident_service\<lparr>is_enabled := True, is_enclaves := [''e1'' \<mapsto> sample_enclave]\<rparr>"

abbreviation sample_signer :: signer where
  "sample_signer \<equiv> \<lparr>sg_sign = rev, sg_key_id = ''k''\<rparr>"

lemma sample_report_valid: "validate_report sample_report = Inr sample_report"
  by code_simp

lemma sample_served:
  "snd (incident sample_signer (sample_call 0) sample_incident_service) = x \<Longrightarrow>
   map ci_enclave (is_recorded x) = [''e1''] \<and> map ip_at (is_polls x) = [0]"
  by (auto simp: incident_def sample_incident_service_def new_incident_service_def sample_call_def sample_report_valid
      lookup_or_refresh_def poll_after_incident_def incident_record_def allow_def take_token_def refill_def key_bucket_def
      fresh_bucket_def new_rate_limit_def incidentsPerEnclave_def incidentsGlobal_def)
     (simp_all add: sample_report_def)

text \<open>
  A report that is refused, for whatever reason, records nothing and causes no
  poll. One that is taken names an enclave the list has, carries a nonce of 32 bytes, and
  is answered with a receipt for exactly that nonce, as the runtime spelled it, that the
  monitor's public key verifies.
\<close>

lemma refused_reports_leave_no_trace:
  assumes "incident sg c s = (res, s')" "\<And>m. verify m (sg_sign sg m)"
  shows "(case res of
      Inl e \<Rightarrow> is_recorded s' = is_recorded s \<and> is_polls s' = is_polls s
    | Inr rc \<Rightarrow> \<exists>i. is_enclaves s' i \<noteq> None \<and> ic_id c = Some (rc_incident rc) \<and>
        i = trim_space (ir_enclave (ic_report c)) \<and> rc_nonce rc = ir_nonce (ic_report c) \<and>
        (\<exists>raw. b64_decode (trim_right (\<lambda>c. c = CHR ''='') (rc_nonce rc)) = Some raw \<and> length raw = 32) \<and>
        verify_receipt verify (sg_key_id sg) i rc = None)"
  using assms(1)
proof (cases rule: incident_cases)
  case (unknown r)
  then show ?thesis using lookup_keeps [OF unknown(3)] by simp
next
  case (stopped r e s1)
  then show ?thesis using lookup_keeps [OF stopped(3)] by auto
next
  case (taken r e s1 i)
  have keep: "is_enclaves (poll_after_incident e i n x) = is_enclaves x" for n x
    by (simp add: poll_after_incident_def Let_def)
  have "ir_enclave r = trim_space (ir_enclave (ic_report c))" "ir_nonce r = ir_nonce (ic_report c)"
    "\<exists>raw. b64_decode (trim_right (\<lambda>c. c = CHR ''='') (ir_nonce r)) = Some raw \<and> length raw = 32"
    using taken(1) by (auto simp: validate_report_def Let_def split: if_splits option.splits)
  then show ?thesis
    using taken lookup_keeps(5) [OF taken(2), symmetric] verify_signed [of verify sg, OF assms(2)]
    by (auto simp: keep sign_receipt_def verify_receipt_def)
qed auto

end
