(* ===== verification/Auth.thy ===== *)
theory Auth
  imports Ledger
begin

text \<open>
  The role model (\<open>internal/auth/rbac.go\<close>, \<open>roles.go\<close>): how declared roles become a model, how a
  verified identity becomes a principal, and what a principal may do. The maps of the code
  are association lists in declaration order; a name is looked up, never iterated over,
  except where the code sorts first.
\<close>

section \<open>Data\<close>

record role_spec =
  rs_name :: string
  rs_title :: string
  rs_oidc :: "string list"
  rs_perms :: "string list"
  rs_pii :: bool
  rs_incompatible :: "string list"

record role_model =
  am_roles :: "(string \<times> role_spec) list"
  am_by_role :: "(string \<times> string) list"

text \<open>What the identity provider vouched for.\<close>

record identity =
  idn_sub :: string
  idn_display :: string
  idn_email :: string
  idn_issuer :: string
  idn_roles :: "string list"

record principal =
  pr_sub :: string
  pr_display :: string
  pr_email :: string
  pr_tenant :: string
  pr_roles :: "string list"
  pr_acting :: string
  pr_pii :: bool
  pr_perms :: "string list"

datatype model_error = RoleUnnamed | RoleTwice string | IncompatibleUnknown string string

datatype resolve_error = NoRegisterRole | SeparationOfDuties string string | ActingNotHeld string

section \<open>Building the model\<close>

fun add_roles :: "role_spec list \<Rightarrow> role_model \<Rightarrow> model_error + role_model" where
  "add_roles [] m = Inr m"
| "add_roles (s # ss) m =
     (if rs_name s = [] then Inl RoleUnnamed
      else if map_of (am_roles m) (rs_name s) \<noteq> None then Inl (RoleTwice (rs_name s))
      else add_roles ss (m\<lparr>am_roles := am_roles m @ [(rs_name s, s)],
                           am_by_role := am_by_role m @ map (\<lambda>r. (r, rs_name s)) (rs_oidc s)\<rparr>))"

definition unknown_incompatible :: "role_model \<Rightarrow> (string \<times> string) option" where
  "unknown_incompatible m =
     find (\<lambda>(n, other). map_of (am_roles m) other = None)
       (concat (map (\<lambda>(n, s). map (Pair n) (rs_incompatible s)) (am_roles m)))"

definition new_model :: "role_spec list \<Rightarrow> model_error + role_model" where
  "new_model specs =
     bind_res (add_roles specs \<lparr>am_roles = [], am_by_role = []\<rparr>)
       (\<lambda>m. case unknown_incompatible m of
          Some (n, other) \<Rightarrow> Inl (IncompatibleUnknown n other)
        | None \<Rightarrow> Inr m)"

section \<open>Resolving an identity\<close>

definition held_roles :: "role_model \<Rightarrow> identity \<Rightarrow> string list" where
  "held_roles m i =
     sort (remdups (concat (map (\<lambda>r. map snd (filter (\<lambda>(o', n). o' = r) (am_by_role m))) (idn_roles i))))"

definition spec_of :: "role_model \<Rightarrow> string \<Rightarrow> role_spec" where
  "spec_of m n = the (map_of (am_roles m) n)"

definition breach :: "role_model \<Rightarrow> string list \<Rightarrow> (string \<times> string) option" where
  "breach m names =
     find (\<lambda>(n, other). other \<in> set names)
       (concat (map (\<lambda>n. map (Pair n) (rs_incompatible (spec_of m n))) names))"

definition resolve :: "role_model \<Rightarrow> identity \<Rightarrow> string \<Rightarrow> string \<Rightarrow> resolve_error + principal" where
  "resolve m i tenant requested =
     (let names = held_roles m i in
      if names = [] then Inl NoRegisterRole
      else case breach m names of
        Some (n, other) \<Rightarrow> Inl (SeparationOfDuties n other)
      | None \<Rightarrow>
          if requested \<noteq> [] \<and> requested \<notin> set names then Inl (ActingNotHeld requested)
          else Inr \<lparr>pr_sub = idn_sub i,
                    pr_display = (if idn_display i = [] then idn_sub i else idn_display i),
                    pr_email = idn_email i, pr_tenant = tenant, pr_roles = names,
                    pr_acting = (if requested = [] then hd names else requested),
                    pr_pii = (\<exists>n\<in>set names. rs_pii (spec_of m n)),
                    pr_perms = concat (map (\<lambda>n. rs_perms (spec_of m n)) names)\<rparr>)"

section \<open>What a principal may do\<close>

definition can :: "principal \<Rightarrow> string \<Rightarrow> bool" where
  "can p perm \<longleftrightarrow> perm \<in> set (pr_perms p)"

definition can_on :: "principal \<Rightarrow> string \<Rightarrow> string \<Rightarrow> bool" where
  "can_on p perm scope \<longleftrightarrow> can p perm \<or> can p (perm @ '':*'') \<or> can p (perm @ '':'' @ scope)"

definition grant :: "string list \<Rightarrow> principal \<Rightarrow> principal" where
  "grant perms p = p\<lparr>pr_perms := pr_perms p @ perms\<rparr>"

definition permissions :: "principal \<Rightarrow> string list" where
  "permissions p = sort (remdups (pr_perms p))"

definition author_of :: "principal \<Rightarrow> author" where
  "author_of p = \<lparr>au_sub = pr_sub p, au_display = pr_display p, au_role = pr_acting p\<rparr>"

section \<open>The built-in roles\<close>

abbreviation PermModel :: string where "PermModel \<equiv> ''model''"
abbreviation PermSecrets :: string where "PermSecrets \<equiv> ''secrets''"
abbreviation PermRun :: string where "PermRun \<equiv> ''run''"
abbreviation PermRespond :: string where "PermRespond \<equiv> ''respond''"
abbreviation PermMaintenance :: string where "PermMaintenance \<equiv> ''maintenance''"
abbreviation PermExplorer :: string where "PermExplorer \<equiv> ''explorer''"
abbreviation PermProofs :: string where "PermProofs \<equiv> ''proofs''"
abbreviation PermCheckpoints :: string where "PermCheckpoints \<equiv> ''checkpoints''"
abbreviation PermReports :: string where "PermReports \<equiv> ''reports''"
abbreviation PermRetention :: string where "PermRetention \<equiv> ''retention''"
abbreviation PermAdmin :: string where "PermAdmin \<equiv> ''admin''"

definition role :: "string \<Rightarrow> string \<Rightarrow> string list \<Rightarrow> role_spec" where
  "role name title perms =
     \<lparr>rs_name = name, rs_title = title,
      rs_oidc = [''monitoring:'' @ name, ''privasys-platform:monitoring:'' @ name],
      rs_perms = perms, rs_pii = False, rs_incompatible = []\<rparr>"

definition Roles :: "role_spec list" where
  "Roles =
     [role ''owner'' ''Owner''
        [PermModel, PermSecrets, PermRun, PermRespond, PermMaintenance, PermExplorer, PermProofs,
         PermCheckpoints, PermReports, PermRetention, PermAdmin],
      role ''editor'' ''Editor''
        [PermModel, PermSecrets, PermRun, PermRespond, PermMaintenance, PermExplorer, PermProofs,
         PermCheckpoints, PermReports],
      role ''responder'' ''Responder''
        [PermRun, PermRespond, PermMaintenance, PermExplorer, PermProofs, PermCheckpoints],
      role ''auditor'' ''Auditor'' [PermExplorer, PermProofs, PermCheckpoints, PermReports],
      role ''viewer'' ''Viewer'' [PermExplorer, PermProofs, PermCheckpoints]]"

definition anonymous :: "string \<Rightarrow> principal" where
  "anonymous tenant =
     \<lparr>pr_sub = ''anonymous'', pr_display = ''Anonymous'', pr_email = [], pr_tenant = tenant,
      pr_roles = [''anonymous''], pr_acting = ''anonymous'', pr_pii = False, pr_perms = []\<rparr>"

definition system :: "string \<Rightarrow> principal" where
  "system tenant =
     grant [PermModel, PermRun, PermRespond, PermExplorer, PermProofs, PermCheckpoints, PermReports, PermRetention]
       \<lparr>pr_sub = ''system'', pr_display = ''Monitor'', pr_email = [], pr_tenant = tenant,
        pr_roles = [''system''], pr_acting = ''system'', pr_pii = False, pr_perms = []\<rparr>"

section \<open>Lemmas\<close>

definition model_ok :: "role_model \<Rightarrow> bool" where
  "model_ok m \<longleftrightarrow> distinct (map fst (am_roles m)) \<and> (\<forall>(n, s)\<in>set (am_roles m). n = rs_name s) \<and>
     set (am_by_role m) = {(r, n). \<exists>s. (n, s) \<in> set (am_roles m) \<and> r \<in> set (rs_oidc s)}"

lemma add_roles_ok:
  "add_roles ss m = Inr m' \<Longrightarrow> model_ok m \<Longrightarrow>
     model_ok m' \<and> set (am_roles m') = set (am_roles m) \<union> (\<lambda>s. (rs_name s, s)) ` set ss"
proof (induction ss arbitrary: m)
  case (Cons s ss)
  let ?m1 = "m\<lparr>am_roles := am_roles m @ [(rs_name s, s)],
               am_by_role := am_by_role m @ map (\<lambda>r. (r, rs_name s)) (rs_oidc s)\<rparr>"
  have r: "add_roles ss ?m1 = Inr m'" and new: "map_of (am_roles m) (rs_name s) = None"
    using Cons.prems(1) by (auto split: if_splits)
  have "model_ok ?m1"
    using Cons.prems(2) new by (auto simp: model_ok_def map_of_eq_None_iff)
  from Cons.IH [OF r this] show ?case by auto
qed auto

lemma new_model_ok:
  assumes "new_model specs = Inr m"
  shows "model_ok m" "set (am_roles m) = (\<lambda>s. (rs_name s, s)) ` set specs"
proof -
  have "add_roles specs \<lparr>am_roles = [], am_by_role = []\<rparr> = Inr m"
    using assms by (auto simp: new_model_def bind_res_Inr_iff split: option.splits)
  moreover have "model_ok \<lparr>am_roles = [], am_by_role = []\<rparr>" by (simp add: model_ok_def)
  ultimately show "model_ok m" "set (am_roles m) = (\<lambda>s. (rs_name s, s)) ` set specs"
    using add_roles_ok by fastforce+
qed

lemma spec_of_declared:
  assumes "new_model specs = Inr m" "s \<in> set specs"
  shows "spec_of m (rs_name s) = s"
proof -
  have "(rs_name s, s) \<in> set (am_roles m)" "distinct (map fst (am_roles m))"
    using new_model_ok [OF assms(1)] assms(2) by (auto simp: model_ok_def)
  then show ?thesis by (simp add: spec_of_def)
qed

lemma held_iff:
  assumes "new_model specs = Inr m"
  shows "n \<in> set (held_roles m i) \<longleftrightarrow>
      (\<exists>s\<in>set specs. rs_name s = n \<and> set (rs_oidc s) \<inter> set (idn_roles i) \<noteq> {})"
proof -
  have "n \<in> set (held_roles m i) \<longleftrightarrow> (\<exists>r\<in>set (idn_roles i). (r, n) \<in> set (am_by_role m))"
    by (force simp: held_roles_def)
  also have "\<dots> \<longleftrightarrow> (\<exists>r\<in>set (idn_roles i). \<exists>s\<in>set specs. rs_name s = n \<and> r \<in> set (rs_oidc s))"
    using new_model_ok [OF assms] by (auto simp: model_ok_def)
  also have "\<dots> \<longleftrightarrow> (\<exists>s\<in>set specs. rs_name s = n \<and> set (rs_oidc s) \<inter> set (idn_roles i) \<noteq> {})"
    by blast
  finally show ?thesis .
qed

lemma breach_None:
  "breach m names = None \<longleftrightarrow> (\<forall>n\<in>set names. \<forall>k\<in>set names. k \<notin> set (rs_incompatible (spec_of m n)))"
  by (auto simp: breach_def find_None_iff)

lemma resolve_cases:
  assumes "resolve m i tenant requested = Inr p"
  shows "pr_roles p = held_roles m i" "held_roles m i \<noteq> []" "breach m (held_roles m i) = None"
    "pr_acting p \<in> set (held_roles m i)"
    "can p perm \<longleftrightarrow> (\<exists>n\<in>set (held_roles m i). perm \<in> set (rs_perms (spec_of m n)))"
    "requested \<noteq> [] \<Longrightarrow> pr_acting p = requested"
  using assms by (auto simp: resolve_def Let_def can_def split: if_splits option.splits)

section \<open>Properties\<close>

text \<open>
  Claim C24. A principal that comes from a token can do exactly what the declared roles give
  whose identity-provider roles the token carries; it holds at least one of them, acts under
  one of them, and no two of them are declared incompatible. Acting under another held role
  changes who the author is said to be, not what is permitted.
\<close>

theorem permissions_come_from_held_roles:
  assumes "new_model specs = Inr m" "resolve m i tenant requested = Inr p"
  defines "held \<equiv> {s \<in> set specs. set (rs_oidc s) \<inter> set (idn_roles i) \<noteq> {}}"
  shows "held \<noteq> {} \<and> (\<forall>perm. can p perm \<longleftrightarrow> (\<exists>s\<in>held. perm \<in> set (rs_perms s))) \<and>
    pr_acting p \<in> rs_name ` held \<and> (requested \<noteq> [] \<longrightarrow> au_role (author_of p) = requested) \<and>
    (\<forall>s\<in>held. \<forall>s'\<in>held. rs_name s' \<notin> set (rs_incompatible s)) \<and>
    (\<forall>requested' p'. resolve m i tenant requested' = Inr p' \<longrightarrow> can p' = can p)"
proof -
  have names: "set (held_roles m i) = rs_name ` held"
    unfolding held_def by (rule set_eqI) (simp add: held_iff [OF assms(1)] image_iff conj_ac Bex_def, blast)
  have sp: "spec_of m (rs_name s) = s" if "s \<in> held" for s using spec_of_declared [OF assms(1)] that by (simp add: held_def)
  have c: "can q perm \<longleftrightarrow> (\<exists>s\<in>held. perm \<in> set (rs_perms s))" if "resolve m i tenant req = Inr q" for q req perm
    using resolve_cases(5) [OF that] sp by (simp add: names)
  have "held \<noteq> {}" using resolve_cases(2) [OF assms(2)] names by (metis image_empty set_empty)
  moreover have "\<forall>s\<in>held. \<forall>s'\<in>held. rs_name s' \<notin> set (rs_incompatible s)"
    using resolve_cases(3) [OF assms(2)] sp by (simp add: breach_None names)
  moreover have "can p' = can p" if "resolve m i tenant r' = Inr p'" for r' p' using c that assms(2) by (intro ext) simp
  ultimately show ?thesis
    using c [OF assms(2)] resolve_cases(4,6) [OF assms(2)] by (auto simp: names author_of_def)
qed

definition sample_identity :: identity where
  "sample_identity = \<lparr>idn_sub = ''u1'', idn_display = [], idn_email = [], idn_issuer = [],
     idn_roles = [''monitoring:responder'', ''monitoring:viewer'']\<rparr>"

lemma built_in_model: "\<exists>m. new_model Roles = Inr m"
  by (simp add: new_model_def Roles_def role_def unknown_incompatible_def)

definition sample_principal :: "principal option" where
  "sample_principal =
     (case new_model Roles of
        Inl e \<Rightarrow> None
      | Inr m \<Rightarrow> (case resolve m sample_identity ''t'' ''viewer'' of Inl e \<Rightarrow> None | Inr p \<Rightarrow> Some p))"

theorem permissions_come_from_held_roles_witness:
  "\<exists>m p. new_model Roles = Inr m \<and> resolve m sample_identity ''t'' ''viewer'' = Inr p \<and>
     can p PermMaintenance \<and> \<not> can p PermModel \<and> au_role (author_of p) = ''viewer''"
proof -
  obtain m where m: "new_model Roles = Inr m" using built_in_model by blast
  have "case sample_principal of Some p \<Rightarrow> can p PermMaintenance \<and> \<not> can p PermModel | None \<Rightarrow> False" by code_simp
  then obtain p where p: "resolve m sample_identity ''t'' ''viewer'' = Inr p" "can p PermMaintenance" "\<not> can p PermModel"
    using m by (auto simp: sample_principal_def split: option.splits sum.splits)
  have "au_role (author_of p) = ''viewer''"
    using permissions_come_from_held_roles [OF m p(1)] by simp
  with p m show ?thesis by blast
qed

end
