(* ===== verification/Maintenance.thy ===== *)
theory Maintenance
  imports Auth Detect
begin

text \<open>
  Maintenance windows (\<open>internal/core/maintenance.go\<close>): declaring and cancelling them, and the
  reads the scheduler, the reports and the status page make. The decision whether a window
  leaves the agreed service time is made here.
\<close>

section \<open>Data\<close>

record maintenance_window =
  mw_id :: string
  mw_service :: string
  mw_components :: "string list"
  mw_class :: string
  mw_title :: string
  mw_description :: string
  mw_declared :: int
  mw_starts :: int
  mw_ends :: int
  mw_excluded :: bool
  mw_lead :: int
  mw_published :: bool
  mw_cancelled :: bool
  mw_txid :: string

record service =
  svc_id :: string
  svc_tenant :: string
  svc_name :: string
  svc_slug :: string
  svc_description :: string
  svc_timezone :: string
  svc_schedule :: string
  svc_visibility :: string
  svc_lead :: int
  svc_coverage_floor :: int
  svc_callback :: string
  svc_created :: int
  svc_updated :: int

abbreviation ClassPlannedMaintenance :: string where "ClassPlannedMaintenance \<equiv> ''planned_maintenance''"

definition ExclusionClasses :: "string list" where
  "ExclusionClasses =
     [ClassPlannedMaintenance, ''third_party'', ''force_majeure'', ''customer_caused'', ''monitoring_fault'']"

definition valid_class :: "string \<Rightarrow> bool" where
  "valid_class c \<longleftrightarrow> c \<in> set ExclusionClasses"

definition DefaultMaintenanceLeadTime :: int where "DefaultMaintenanceLeadTime = 24 * 60 * 60"

abbreviation KindMaintenanceDeclare :: string where "KindMaintenanceDeclare \<equiv> ''maintenance.declare''"
abbreviation KindMaintenanceCancel :: string where "KindMaintenanceCancel \<equiv> ''maintenance.cancel''"

definition split_csv :: "string \<Rightarrow> string list" where
  "split_csv s =
     (if trim_space s = [] then [] else filter (\<lambda>p. p \<noteq> []) (map trim_space (str_split (CHR '','') s)))"

section \<open>Reading\<close>

definition service_from_row :: "outside \<Rightarrow> sql_row \<Rightarrow> service" where
  "service_from_row x r =
     (let s = row_str (x_ftext x) r in
      \<lparr>svc_id = s ''id'', svc_tenant = s ''tenant'', svc_name = s ''name'', svc_slug = s ''slug'',
       svc_description = s ''description'', svc_timezone = s ''timezone'', svc_schedule = s ''schedule_id'',
       svc_visibility = s ''visibility'', svc_lead = row_int r ''maintenance_lead_time'',
       svc_coverage_floor = row_int r ''coverage_floor_ppm'', svc_callback = s ''callback_url'',
       svc_created = row_int r ''created_at'', svc_updated = row_int r ''updated_at''\<rparr>)"

definition read_service :: "outside \<Rightarrow> tables \<Rightarrow> string \<Rightarrow> service option" where
  "read_service x t i =
     (if i = [] then None else map_option (service_from_row x) (row_at [(''id'', SStr i)] (t ''services'')))"

definition maintenance_from_row :: "outside \<Rightarrow> sql_row \<Rightarrow> maintenance_window" where
  "maintenance_from_row x r =
     (let s = row_str (x_ftext x) r in
      \<lparr>mw_id = s ''id'', mw_service = s ''service_id'', mw_components = split_csv (s ''components''),
       mw_class = s ''class'', mw_title = s ''title'', mw_description = s ''description'',
       mw_declared = row_int r ''declared_at'', mw_starts = row_int r ''starts_at'', mw_ends = row_int r ''ends_at'',
       mw_excluded = row_bool r ''excluded'', mw_lead = row_int r ''lead_time'',
       mw_published = row_bool r ''published'', mw_cancelled = row_bool r ''cancelled'', mw_txid = s ''txid''\<rparr>)"

definition read_maintenance :: "outside \<Rightarrow> tables \<Rightarrow> string \<Rightarrow> maintenance_window option" where
  "read_maintenance x t i =
     map_option (maintenance_from_row x) (row_at [(''id'', SStr i)] (t ''maintenance_windows''))"

text \<open>\<open>cancelled = FALSE\<close> and comparisons of a column with a number, as SQL evaluates them.\<close>

definition sql_lt :: "sqlv \<Rightarrow> int \<Rightarrow> bool" where
  "sql_lt v i = (case v of SInt j \<Rightarrow> j < i | _ \<Rightarrow> False)"

definition sql_gt :: "sqlv \<Rightarrow> int \<Rightarrow> bool" where
  "sql_gt v i = (case v of SInt j \<Rightarrow> i < j | _ \<Rightarrow> False)"

definition sort_by_start :: "sql_row list \<Rightarrow> sql_row list" where
  "sort_by_start rows = sort_key (\<lambda>r. row_int r ''starts_at'') rows"

definition active_maintenance :: "outside \<Rightarrow> tables \<Rightarrow> int \<Rightarrow> maintenance_window list" where
  "active_maintenance x t instant =
     map (maintenance_from_row x)
       (filter (\<lambda>r. r ''cancelled'' = SInt 0 \<and> sql_lt (r ''starts_at'') (instant + 1) \<and> sql_gt (r ''ends_at'') instant)
          (t ''maintenance_windows''))"

definition maintenance_between :: "outside \<Rightarrow> tables \<Rightarrow> string \<Rightarrow> int \<Rightarrow> int \<Rightarrow> maintenance_window list" where
  "maintenance_between x t service frm to =
     map (maintenance_from_row x) (sort_by_start
       (filter (\<lambda>r. r ''service_id'' = SStr service \<and> r ''cancelled'' = SInt 0 \<and>
                  sql_lt (r ''starts_at'') to \<and> sql_gt (r ''ends_at'') frm) (t ''maintenance_windows'')))"

definition upcoming_maintenance :: "outside \<Rightarrow> tables \<Rightarrow> string \<Rightarrow> int \<Rightarrow> maintenance_window list" where
  "upcoming_maintenance x t service instant =
     map (maintenance_from_row x) (take 50 (sort_by_start
       (filter (\<lambda>r. r ''service_id'' = SStr service \<and> r ''cancelled'' = SInt 0 \<and>
                  r ''published'' = SInt 1 \<and> sql_gt (r ''ends_at'') instant) (t ''maintenance_windows''))))"

section \<open>Declaring and cancelling\<close>

datatype maintenance_error =
    NotPermitted string
  | NoServiceNamed
  | NoTitle
  | EndsBeforeStart
  | NotAClass string
  | NoSuchService string
  | NoSuchWindow string
  | NoNewID
  | NotCommitted commit_error

text \<open>\<open>fresh\<close> is what \<open>NewID\<close> came back with, \<open>now\<close> the monitor's clock.\<close>

definition decide_window :: "int \<Rightarrow> int \<Rightarrow> maintenance_window \<Rightarrow> maintenance_window" where
  "decide_window now lead0 w =
     (let lead = (if lead0 \<le> 0 then DefaultMaintenanceLeadTime else lead0);
          w1 = w\<lparr>mw_declared := now, mw_lead := i64 (mw_starts w - now)\<rparr>
      in w1\<lparr>mw_excluded := (mw_class w1 = ClassPlannedMaintenance \<and> mw_lead w1 \<ge> lead),
            mw_published := (mw_published w \<or> mw_class w1 = ClassPlannedMaintenance)\<rparr>)"

definition declare_op :: "maintenance_window \<Rightarrow> write_op" where
  "declare_op w =
     \<lparr>w_table = ''maintenance_windows'', w_key = [(''id'', VStr (mw_id w))],
      w_values =
        [(''service_id'', VStr (mw_service w)), (''components'', VStr (clip_str (csv (mw_components w)) 1024)),
         (''class'', VStr (mw_class w)), (''title'', VStr (clip_str (mw_title w) 255)),
         (''description'', VStr (clip_str (mw_description w) 4096)), (''declared_at'', VInt64 (mw_declared w)),
         (''starts_at'', VInt64 (mw_starts w)), (''ends_at'', VInt64 (mw_ends w)),
         (''excluded'', VBool (mw_excluded w)), (''lead_time'', VInt64 (mw_lead w)),
         (''published'', VBool (mw_published w)), (''cancelled'', VBool False),
         (''txid'', VStr TxIDPlaceholder)],
      w_delete = False\<rparr>"

definition maintenance_envelope :: "string \<Rightarrow> string \<Rightarrow> string \<Rightarrow> principal \<Rightarrow> int \<Rightarrow> string \<Rightarrow> ref list \<Rightarrow> envelope" where
  "maintenance_envelope kind service i p now message refs =
     \<lparr>env_kind = kind, env_tenant = [], env_service = service, env_object_ids = [i],
      env_author = author_of p, env_timestamp = now, env_message = message, env_refs = refs\<rparr>"

definition declare_maintenance :: "outside \<Rightarrow> string \<Rightarrow> int \<Rightarrow> string option \<Rightarrow> register \<Rightarrow> principal \<Rightarrow>
    maintenance_window \<Rightarrow> string \<Rightarrow> (maintenance_error + (maintenance_window \<times> tx_row)) \<times> register" where
  "declare_maintenance x tenant now fresh reg p w0 message =
     (if \<not> can p PermMaintenance then (Inl (NotPermitted (pr_acting p)), reg)
      else if mw_service w0 = [] then (Inl NoServiceNamed, reg)
      else if trim_space (mw_title w0) = [] then (Inl NoTitle, reg)
      else if mw_ends w0 \<le> mw_starts w0 then (Inl EndsBeforeStart, reg)
      else
        let w1 = (if mw_class w0 = [] then w0\<lparr>mw_class := ClassPlannedMaintenance\<rparr> else w0) in
        if \<not> valid_class (mw_class w1) then (Inl (NotAClass (mw_class w1)), reg)
        else case read_service x (reg_tables reg) (mw_service w1) of
          None \<Rightarrow> (Inl (NoSuchService (mw_service w1)), reg)
        | Some svc \<Rightarrow>
            let w2 = decide_window now (svc_lead svc) w1 in
            (case (if mw_id w2 = [] then fresh else Some (mw_id w2)) of
               None \<Rightarrow> (Inl NoNewID, reg)
             | Some i \<Rightarrow>
                 let w3 = w2\<lparr>mw_id := i\<rparr> in
                 (case commit x tenant now reg
                    (maintenance_envelope KindMaintenanceDeclare (mw_service w3) i p now message []) [declare_op w3] of
                    (Inl e, reg') \<Rightarrow> (Inl (NotCommitted e), reg')
                  | (Inr tr, reg') \<Rightarrow> (Inr (w3\<lparr>mw_txid := t_txid tr\<rparr>, tr), reg'))))"

definition cancel_op :: "string \<Rightarrow> write_op" where
  "cancel_op i =
     \<lparr>w_table = ''maintenance_windows'', w_key = [(''id'', VStr i)], w_values = [(''cancelled'', VBool True)],
      w_delete = False\<rparr>"

definition cancel_maintenance :: "outside \<Rightarrow> string \<Rightarrow> int \<Rightarrow> register \<Rightarrow> principal \<Rightarrow> string \<Rightarrow> string \<Rightarrow>
    (maintenance_error + tx_row) \<times> register" where
  "cancel_maintenance x tenant now reg p i message =
     (if \<not> can p PermMaintenance then (Inl (NotPermitted (pr_acting p)), reg)
      else case read_maintenance x (reg_tables reg) i of
        None \<Rightarrow> (Inl (NoSuchWindow i), reg)
      | Some w \<Rightarrow>
          (case commit x tenant now reg
             (maintenance_envelope KindMaintenanceCancel (mw_service w) i p now message
                [\<lparr>ref_type = ''supersedes'', ref_target = mw_txid w\<rparr>]) [cancel_op i] of
             (Inl e, reg') \<Rightarrow> (Inl (NotCommitted e), reg')
           | (Inr tr, reg') \<Rightarrow> (Inr tr, reg')))"

section \<open>Properties\<close>

lemma decide_window_fields:
  "mw_declared (decide_window now lead w) = now" "mw_class (decide_window now lead w) = mw_class w"
  "mw_starts (decide_window now lead w) = mw_starts w" "mw_ends (decide_window now lead w) = mw_ends w"
  "mw_service (decide_window now lead w) = mw_service w" "mw_id (decide_window now lead w) = mw_id w"
  "mw_lead (decide_window now lead w) = i64 (mw_starts w - now)"
  by (simp_all add: decide_window_def Let_def)

text \<open>The notice a service requires.\<close>

definition required_lead :: "outside \<Rightarrow> register \<Rightarrow> string \<Rightarrow> int" where
  "required_lead x reg service =
     (case read_service x (reg_tables reg) service of
        None \<Rightarrow> 0
      | Some svc \<Rightarrow> if svc_lead svc \<le> 0 then DefaultMaintenanceLeadTime else svc_lead svc)"

lemma declare_cases:
  assumes "declare_maintenance x tenant now fresh reg p w message = (Inr (w', tr), reg')"
  obtains cls i where "can p PermMaintenance" "mw_starts w < mw_ends w"
    "cls = (if mw_class w = [] then ClassPlannedMaintenance else mw_class w)"
    "mw_declared w' = now" "mw_starts w' = mw_starts w" "mw_ends w' = mw_ends w" "mw_class w' = cls"
    "mw_service w' = mw_service w" "mw_id w' = i" "mw_lead w' = i64 (mw_starts w - now)"
    "mw_excluded w' \<longleftrightarrow> cls = ClassPlannedMaintenance \<and> required_lead x reg (mw_service w) \<le> i64 (mw_starts w - now)"
    "commit x tenant now reg (maintenance_envelope KindMaintenanceDeclare (mw_service w) i p now message [])
       [declare_op w'] = (Inr tr, reg')"
proof -
  define w1 where "w1 = (if mw_class w = [] then w\<lparr>mw_class := ClassPlannedMaintenance\<rparr> else w)"
  have w1: "mw_service w1 = mw_service w" "mw_starts w1 = mw_starts w" "mw_ends w1 = mw_ends w"
    "mw_class w1 = (if mw_class w = [] then ClassPlannedMaintenance else mw_class w)" by (simp_all add: w1_def)
  have ok: "can p PermMaintenance" "mw_starts w < mw_ends w"
    using assms by (auto simp: declare_maintenance_def split: if_splits)
  obtain svc i where svc: "read_service x (reg_tables reg) (mw_service w1) = Some svc"
    and c: "commit x tenant now reg
        (maintenance_envelope KindMaintenanceDeclare (mw_service w1) i p now message [])
        [declare_op ((decide_window now (svc_lead svc) w1)\<lparr>mw_id := i\<rparr>)] = (Inr tr, reg')"
    and w': "w' = (decide_window now (svc_lead svc) w1)\<lparr>mw_id := i, mw_txid := t_txid tr\<rparr>"
    using assms unfolding declare_maintenance_def Let_def w1_def [symmetric]
    by (auto simp: decide_window_fields split: if_splits option.splits prod.splits sum.splits)
  have e: "mw_excluded w' \<longleftrightarrow> mw_class w1 = ClassPlannedMaintenance \<and>
      required_lead x reg (mw_service w) \<le> i64 (mw_starts w - now)"
    using svc by (simp add: w' decide_window_def required_lead_def Let_def w1)
  have "declare_op w' = declare_op ((decide_window now (svc_lead svc) w1)\<lparr>mw_id := i\<rparr>)"
    by (simp add: w' declare_op_def)
  with c w1 have "commit x tenant now reg (maintenance_envelope KindMaintenanceDeclare (mw_service w) i p now message [])
       [declare_op w'] = (Inr tr, reg')" by simp
  then show thesis
    by (rule that [of "mw_class w1" i, rotated -1])
       (use ok w1 w' e in \<open>simp_all add: decide_window_fields\<close>)
qed

lemma declare_op_entry:
  assumes "TxIDPlaceholder \<notin> {mw_id w, mw_service w, clip_str (csv (mw_components w)) 1024, mw_class w,
      clip_str (mw_title w) 255, clip_str (mw_description w) 4096}"
  shows "entry_ok x txid (declare_op w)" "entry_key x txid (declare_op w) = [(''id'', SStr (mw_id w))]"
    "entry_fields x txid (declare_op w) =
       [(''service_id'', SStr (mw_service w)), (''components'', SStr (clip_str (csv (mw_components w)) 1024)),
        (''class'', SStr (mw_class w)), (''title'', SStr (clip_str (mw_title w) 255)),
        (''description'', SStr (clip_str (mw_description w) 4096)), (''declared_at'', SInt (mw_declared w)),
        (''starts_at'', SInt (mw_starts w)), (''ends_at'', SInt (mw_ends w)),
        (''excluded'', SInt (if mw_excluded w then 1 else 0)), (''lead_time'', SInt (mw_lead w)),
        (''published'', SInt (if mw_published w then 1 else 0)), (''cancelled'', SInt 0), (''txid'', SStr txid)]"
  using assms
  by (auto simp: entry_ok_def declare_op_def pk_columns_def entry_key_def entry_fields_def
      subst_fields_def substitute_def lit_fields_def valid_key_def valid_fields_def)

lemma declared_row_reads_back:
  assumes "x_engine x = (\<lambda>_. None)" "commit x tenant now reg env [declare_op w] = (Inr tr, reg')" "reg' \<noteq> reg"
    and "TxIDPlaceholder \<notin> {mw_id w, mw_service w, clip_str (csv (mw_components w)) 1024, mw_class w,
      clip_str (mw_title w) 255, clip_str (mw_description w) 4096}"
    and "list_all in_i64 [mw_declared w, mw_starts w, mw_ends w]"
  shows "\<exists>r. read_maintenance x (reg_tables reg') (mw_id w) = Some r \<and> mw_service r = mw_service w \<and>
    mw_class r = mw_class w \<and> mw_excluded r = mw_excluded w \<and> mw_declared r = mw_declared w \<and>
    mw_starts r = mw_starts w \<and> mw_ends r = mw_ends w \<and> \<not> mw_cancelled r \<and> mw_txid r = t_txid tr"
proof -
  have tab: "w_table (declare_op w) = ''maintenance_windows''" "\<not> w_delete (declare_op w)"
    by (simp_all add: declare_op_def)
  obtain t' where t': "apply_one x (t_txid tr) (reg_tables reg) (declare_op w) = Inr t'"
    "reg_tables reg' ''maintenance_windows'' = t' ''maintenance_windows''"
    using commit_one [OF assms(2,3)] tab by auto
  note op = declare_op_entry [OF assms(4), of x "t_txid tr"]
  obtain row where row: "row_at [(''id'', SStr (mw_id w))] (reg_tables reg' ''maintenance_windows'') = Some row"
    "\<forall>c v. map_of (entry_fields x (t_txid tr) (declare_op w)) c = Some v \<longrightarrow> row c = v"
    using written_row [OF assms(1) op(1) tab(2) t'(1)] t'(2) tab(1) op(2) by auto
  show ?thesis
    using row assms(5)
    by (intro exI [of _ "maintenance_from_row x row"])
       (simp add: read_maintenance_def maintenance_from_row_def Let_def op(3) row_str_def row_int_def row_bool_def
         as_int_def i64_id i64_nonneg)
qed


definition sample_manager :: principal where
  "sample_manager = grant [PermMaintenance] (anonymous ''t'')"

definition sample_service_register :: register where
  "sample_service_register =
     \<lparr>reg_tables = (\<lambda>tab. if tab = ''services'' then [sample_row [(''id'', SStr ''svc''), (''maintenance_lead_time'', SInt 3600)]] else []),
      reg_log = [], reg_root = [], reg_version = 0\<rparr>"

definition sample_window :: "int \<Rightarrow> int \<Rightarrow> maintenance_window" where
  "sample_window starts ends =
     \<lparr>mw_id = ''mw_1'', mw_service = ''svc'', mw_components = [], mw_class = [], mw_title = ''Upgrade'',
      mw_description = [], mw_declared = 0, mw_starts = starts, mw_ends = ends, mw_excluded = False, mw_lead = 0,
      mw_published = False, mw_cancelled = False, mw_txid = []\<rparr>"

lemma sample_declared:
  assumes "starts < ends"
  shows "\<exists>w' tr reg'. declare_maintenance sample_outside ''t'' 1790000000 None sample_service_register sample_manager
      (sample_window starts ends) ''Declare the upgrade'' = (Inr (w', tr), reg') \<and> reg' \<noteq> sample_service_register \<and>
    mw_id w' = ''mw_1'' \<and> mw_service w' = ''svc'' \<and> mw_components w' = [] \<and>
    mw_title w' = ''Upgrade'' \<and> mw_description w' = [] \<and> mw_class w' = ClassPlannedMaintenance"
proof -
  define w3 where "w3 = decide_window 1790000000 3600 ((sample_window starts ends)\<lparr>mw_class := ClassPlannedMaintenance\<rparr>)"
  have w3: "mw_id w3 = ''mw_1'' \<and> mw_service w3 = ''svc'' \<and> mw_components w3 = [] \<and> mw_title w3 = ''Upgrade'' \<and>
      mw_description w3 = [] \<and> mw_class w3 = ClassPlannedMaintenance"
    by (simp add: w3_def decide_window_def Let_def sample_window_def)
  let ?env = "maintenance_envelope KindMaintenanceDeclare ''svc'' ''mw_1'' sample_manager 1790000000 ''Declare the upgrade'' []"
  have "TxIDPlaceholder \<notin> {mw_id w3, mw_service w3, clip_str (csv (mw_components w3)) 1024, mw_class w3,
      clip_str (mw_title w3) 255, clip_str (mw_description w3) 4096}"
    using w3 by (auto simp: TxIDPlaceholder_def csv_def clip_str_def)
  then have "list_all (entry_ok sample_outside txid) [declare_op w3]" for txid using declare_op_entry(1) by simp
  moreover have "validate_envelope (fill_envelope ''t'' 1790000000 ?env) = None" by code_simp
  moreover have "check_ops [declare_op w3] = None" by (simp add: declare_op_def pk_columns_def)
  ultimately obtain tr reg' where c: "commit sample_outside ''t'' 1790000000 sample_service_register ?env [declare_op w3] = (Inr tr, reg')"
    "reg' \<noteq> sample_service_register"
    using commit_goes_through [of sample_outside "''t''" 1790000000 ?env "[declare_op w3]" sample_service_register]
    by (auto simp: sample_outside_def maintenance_envelope_def sample_service_register_def)
  have "map_option svc_lead (read_service sample_outside (reg_tables sample_service_register) ''svc'') = Some 3600"
    by code_simp
  then obtain svc where svc: "read_service sample_outside (reg_tables sample_service_register) ''svc'' = Some svc"
    "svc_lead svc = 3600" by auto
  have g: "can sample_manager PermMaintenance" "trim_space ''Upgrade'' \<noteq> []" "valid_class ClassPlannedMaintenance"
    by code_simp+
  have same: "w3\<lparr>mw_id := ''mw_1''\<rparr> = w3" using w3 by (cases w3) simp
  have w: "mw_service (sample_window starts ends) = ''svc''" "mw_title (sample_window starts ends) = ''Upgrade''"
    "mw_class (sample_window starts ends) = []" "mw_starts (sample_window starts ends) = starts"
    "mw_ends (sample_window starts ends) = ends" by (simp_all add: sample_window_def)
  have "declare_maintenance sample_outside ''t'' 1790000000 None sample_service_register sample_manager
      (sample_window starts ends) ''Declare the upgrade'' = (Inr (w3\<lparr>mw_txid := t_txid tr\<rparr>, tr), reg')"
    using assms w w3 g svc c
    by (simp add: declare_maintenance_def Let_def w3_def [symmetric] same)
  then show ?thesis using w3 c(2) by simp
qed


text \<open>
  Before 1970 the notice wraps around: a window said to start at the earliest
  int64 second and to end in the past is recorded as excluded, with any notice a service
  may require, although it was declared after everything it covers.
\<close>

lemma wrapped_notice_excludes_the_past:
  assumes "declare_maintenance x tenant now fresh reg p w message = (Inr (w', tr), reg')"
    and "mw_class w = ClassPlannedMaintenance" "mw_starts w = - (2 ^ 63) + 1" "mw_ends w \<le> now"
    and "2 \<le> now" "now < 2 ^ 62" "required_lead x reg (mw_service w) \<le> 2 ^ 62"
  shows "mw_excluded w' \<and> mw_ends w' \<le> mw_declared w'"
proof -
  have "(1 - now) mod 2 ^ 64 = (1 - now + 2 ^ 64) mod 2 ^ 64" by (rule mod_add_self2 [symmetric])
  also have "\<dots> = 1 - now + 2 ^ 64" by (rule mod_pos_pos_trivial) (use assms(5,6) in auto)
  finally have "i64 (mw_starts w - now) = 2 ^ 63 + 1 - now" using assms(3) by (simp add: i64_def algebra_simps)
  then show ?thesis using assms by (elim declare_cases) auto
qed

end
