(* ===== verification/Scheduler.thy ===== *)
theory Scheduler
  imports Maintenance
begin

text \<open>
  The scheduler (\<open>internal/probe/scheduler.go\<close>) and the recording of a tick's readings
  (\<open>RecordSamples\<close>, \<open>sampleOp\<close> of \<open>internal/core/samples.go\<close>). What a journey finds is the
  argument \<open>engine\<close>; \<open>digest\<close> is the first eight bytes of the SHA-256 of a monitor's id.
\<close>

section \<open>Which monitors are due\<close>

record scheduler =
  sd_monitors :: "monitor list"
  sd_last :: "string \<rightharpoonup> int"

definition offset_of :: "(string \<Rightarrow> nat) \<Rightarrow> string \<Rightarrow> int \<Rightarrow> int" where
  "offset_of digest i interval = int (digest i mod 2 ^ 64) mod interval"

definition due_now :: "(string \<Rightarrow> nat) \<Rightarrow> int \<Rightarrow> (string \<rightharpoonup> int) \<Rightarrow> monitor \<Rightarrow> bool" where
  "due_now digest now lst m \<longleftrightarrow>
     mon_enabled m \<and> mon_interval m > 0 \<and>
     go_rem (i64 (now + offset_of digest (mon_id m) (mon_interval m))) (mon_interval m) = 0 \<and>
     \<not> (case lst (mon_id m) of Some l \<Rightarrow> i64 (now - l) < mon_interval m | None \<Rightarrow> False)"

fun due_loop :: "(string \<Rightarrow> nat) \<Rightarrow> int \<Rightarrow> monitor list \<Rightarrow> (string \<rightharpoonup> int) \<Rightarrow> monitor list \<times> (string \<rightharpoonup> int)" where
  "due_loop digest now [] lst = ([], lst)"
| "due_loop digest now (m # ms) lst =
     (if due_now digest now lst m
      then let (out, lst') = due_loop digest now ms (lst(mon_id m \<mapsto> now)) in (m # out, lst')
      else due_loop digest now ms lst)"

definition due :: "(string \<Rightarrow> nat) \<Rightarrow> int \<Rightarrow> scheduler \<Rightarrow> monitor list \<times> scheduler" where
  "due digest now s =
     (let (out, lst) = due_loop digest now (sd_monitors s) (sd_last s) in (out, s\<lparr>sd_last := lst\<rparr>))"

section \<open>Recording a tick\<close>

record run_result =
  rr_duration :: int
  rr_verdict :: string
  rr_failed_step :: string
  rr_error_class :: string
  rr_detail :: string
  rr_steps :: json
  rr_captures :: json

definition run_monitor_once :: "string \<Rightarrow> (monitor \<Rightarrow> run_result) \<Rightarrow> int \<Rightarrow> bool \<Rightarrow> bool \<Rightarrow> monitor \<Rightarrow> sample" where
  "run_monitor_once vantage engine now maint manual m =
     (let res = engine m in
      \<lparr>sm_id = [], sm_monitor = mon_id m, sm_version = mon_version m, sm_component = mon_component m,
       sm_service = mon_service m, sm_vantage = vantage, sm_started = now, sm_duration = rr_duration res,
       sm_verdict = rr_verdict res, sm_failed_step = rr_failed_step res, sm_error_class = rr_error_class res,
       sm_detail = rr_detail res, sm_steps = rr_steps res, sm_manual = manual, sm_maint = maint,
       sm_captures = rr_captures res\<rparr>)"

definition sample_op :: "outside \<Rightarrow> sample \<Rightarrow> write_op option" where
  "sample_op x s =
     (case (write_json (x_fmt x) (sm_steps s), write_json (x_fmt x) (sm_captures s)) of
        (Some steps, Some captures) \<Rightarrow> Some
          \<lparr>w_table = ''samples'', w_key = [(''id'', VStr (sm_id s))],
           w_values =
             [(''monitor_id'', VStr (sm_monitor s)), (''monitor_version'', VUint64 (sm_version s)),
              (''component_id'', VStr (sm_component s)), (''service_id'', VStr (sm_service s)),
              (''vantage'', VStr (sm_vantage s)), (''started_at'', VInt64 (sm_started s)),
              (''duration_ms'', VInt64 (sm_duration s)), (''verdict'', VStr (sm_verdict s)),
              (''failed_step'', VStr (sm_failed_step s)), (''error_class'', VStr (sm_error_class s)),
              (''detail'', VStr (clip_str (sm_detail s) 1024)), (''steps'', VBinary steps),
              (''captures'', VBinary captures), (''manual'', VBool (sm_manual s)),
              (''in_maintenance'', VBool (sm_maint s)), (''pruned'', VBool False)],
           w_delete = False\<rparr>
      | _ \<Rightarrow> None)"

text \<open>The readings that have no id yet draw one each, in order.\<close>

fun name_samples :: "(nat \<Rightarrow> string) \<Rightarrow> nat \<Rightarrow> sample list \<Rightarrow> sample list \<times> nat" where
  "name_samples ids n [] = ([], n)"
| "name_samples ids n (s # ss) =
     (let (s', n') = (if sm_id s = [] then (s\<lparr>sm_id := new_id ids ''smp'' n\<rparr>, n + 1) else (s, n));
          (ss', n'') = name_samples ids n' ss
      in (s' # ss', n''))"

definition summarise :: "string \<Rightarrow> nat \<Rightarrow> string" where
  "summarise s n = trim_right (\<lambda>c. c = CHR ''.'' \<or> c = CHR '' '') (clip_str (trim_space s) n)"

definition monitor_name :: "outside \<Rightarrow> tables \<Rightarrow> string \<Rightarrow> string" where
  "monitor_name x t i =
     (case row_at [(''id'', SStr i)] (t ''monitors'') of None \<Rightarrow> i | Some r \<Rightarrow> row_str (x_ftext x) r ''name'')"

definition samples_message :: "outside \<Rightarrow> tables \<Rightarrow> sample list \<Rightarrow> string" where
  "samples_message x t samples =
     (case samples of
        [s] \<Rightarrow> ''Record a reading of '' @ summarise (monitor_name x t (sm_monitor s)) 40
      | _ \<Rightarrow> ''Record '' @ show_int (int (length samples)) @ '' readings'')"

definition samples_envelope :: "outside \<Rightarrow> tables \<Rightarrow> int \<Rightarrow> sample list \<Rightarrow> envelope" where
  "samples_envelope x t now samples =
     \<lparr>env_kind = ''samples'', env_tenant = [], env_service = sm_service (hd samples),
      env_object_ids = map sm_id samples, env_author = system_author, env_timestamp = now,
      env_message = samples_message x t samples, env_refs = []\<rparr>"

datatype record_error = SampleNotEncoded | DetectFailed | SamplesNotCommitted commit_error

text \<open>
  \<open>RecordSamples\<close>: the transaction and the alerts, which carry the root and the version
  after the commit. The captures are as \<open>storeCaptures\<close> left them.
\<close>

definition record_samples :: "outside \<Rightarrow> (nat \<Rightarrow> string) \<Rightarrow> nat \<Rightarrow> string \<Rightarrow> int \<Rightarrow> register \<Rightarrow> sample list \<Rightarrow>
    (record_error + (tx_row option \<times> (alert \<times> string \<times> int) list)) \<times> register" where
  "record_samples x ids n tenant now reg samples0 =
     (if samples0 = [] then (Inr (None, []), reg)
      else
        let (samples, n') = name_samples ids n samples0 in
        case those (map (sample_op x) samples) of
          None \<Rightarrow> (Inl SampleNotEncoded, reg)
        | Some ops \<Rightarrow>
            (case detect x ids n' (reg_root reg, reg_version reg) (reg_tables reg) samples now of
               None \<Rightarrow> (Inl DetectFailed, reg)
             | Some (alerts, ops') \<Rightarrow>
                 (case commit x tenant now reg (samples_envelope x (reg_tables reg) now samples) (ops @ ops') of
                    (Inl e, reg') \<Rightarrow> (Inl (SamplesNotCommitted e), reg')
                  | (Inr tr, reg') \<Rightarrow>
                      (Inr (Some tr, map (\<lambda>a. (a, reg_root reg', reg_version reg')) alerts), reg'))))"

section \<open>A tick\<close>

text \<open>\<open>windows\<close> are the active windows the tick read, none when the read failed.\<close>

definition under_maintenance :: "maintenance_window list \<Rightarrow> monitor \<Rightarrow> bool" where
  "under_maintenance windows m \<longleftrightarrow>
     (\<exists>w\<in>set windows. mon_component m \<in> set (mw_components w)) \<or> (\<exists>w\<in>set windows. mw_components w = [])"

definition tick :: "outside \<Rightarrow> (nat \<Rightarrow> string) \<Rightarrow> nat \<Rightarrow> string \<Rightarrow> string \<Rightarrow> (monitor \<Rightarrow> run_result) \<Rightarrow>
    (string \<Rightarrow> nat) \<Rightarrow> int \<Rightarrow> int \<Rightarrow> scheduler \<times> register \<Rightarrow> scheduler \<times> register" where
  "tick x ids n tenant vantage engine digest now recorded_at sr =
     (case sr of (s, reg) \<Rightarrow>
        let (ms, s') = due digest now s in
        if ms = [] then (s', reg)
        else
          let windows = active_maintenance x (reg_tables reg) now;
              readings = map (\<lambda>m. run_monitor_once vantage engine now (under_maintenance windows m) False m) ms
          in (s', snd (record_samples x ids n tenant recorded_at reg readings)))"

text \<open>\<open>RunOnce\<close>: one monitor out of band, marked manual.\<close>

definition run_once :: "outside \<Rightarrow> (nat \<Rightarrow> string) \<Rightarrow> nat \<Rightarrow> string \<Rightarrow> string \<Rightarrow> (monitor \<Rightarrow> run_result) \<Rightarrow>
    int \<Rightarrow> int \<Rightarrow> string \<Rightarrow> register \<Rightarrow> sample option \<times> register" where
  "run_once x ids n tenant vantage engine now recorded_at i reg =
     (case read_monitor x (reg_tables reg) i of
        None \<Rightarrow> (None, reg)
      | Some m \<Rightarrow>
          let s = run_monitor_once vantage engine now False True m in
          (case record_samples x ids n tenant recorded_at reg [s] of
             (Inl e, reg') \<Rightarrow> (None, reg')
           | (Inr _, reg') \<Rightarrow> (Some (s\<lparr>sm_id := new_id ids ''smp'' n\<rparr>), reg')))"

section \<open>Slots\<close>

text \<open>The runs of a list of ticks: which monitors each tick ran.\<close>

fun run_ticks :: "(string \<Rightarrow> nat) \<Rightarrow> int list \<Rightarrow> scheduler \<Rightarrow> (int \<times> monitor list) list" where
  "run_ticks digest [] s = []"
| "run_ticks digest (t # ts) s = (let (ms, s') = due digest t s in (t, ms) # run_ticks digest ts s')"

definition in_slot :: "(string \<Rightarrow> nat) \<Rightarrow> monitor \<Rightarrow> int \<Rightarrow> bool" where
  "in_slot digest m t \<longleftrightarrow> (t + offset_of digest (mon_id m) (mon_interval m)) mod mon_interval m = 0"

definition steady :: "monitor \<Rightarrow> bool" where
  "steady m \<longleftrightarrow> mon_enabled m \<and> 0 < mon_interval m \<and> mon_interval m < 2 ^ 62"

lemma due_now_slot:
  assumes "steady m" "0 \<le> now" "now < 2 ^ 62" "case lst (mon_id m) of Some l \<Rightarrow> 0 \<le> l \<and> l \<le> now | None \<Rightarrow> True"
  shows "due_now digest now lst m \<longleftrightarrow> in_slot digest m now \<and>
    (case lst (mon_id m) of Some l \<Rightarrow> mon_interval m \<le> now - l | None \<Rightarrow> True)"
proof -
  have off: "0 \<le> offset_of digest (mon_id m) (mon_interval m)" "offset_of digest (mon_id m) (mon_interval m) < 2 ^ 62"
    using assms(1) pos_mod_bound [of "mon_interval m"] unfolding offset_of_def steady_def
    by (simp, meson order_less_trans)
  have "i64 (now + offset_of digest (mon_id m) (mon_interval m)) = now + offset_of digest (mon_id m) (mon_interval m)"
    by (rule i64_nonneg) (use off assms in auto)
  moreover have "i64 (now - l) = now - l" if "0 \<le> l" "l \<le> now" for l
    by (rule i64_nonneg) (use that assms(3) in auto)
  ultimately show ?thesis
    using assms off by (auto simp: due_now_def in_slot_def steady_def split: option.splits)
qed

lemma due_loop_Cons:
  "fst (due_loop digest now (k # ms) lst) =
      (if due_now digest now lst k then [k] else []) @
      fst (due_loop digest now ms (if due_now digest now lst k then lst(mon_id k \<mapsto> now) else lst))"
  "snd (due_loop digest now (k # ms) lst) =
      snd (due_loop digest now ms (if due_now digest now lst k then lst(mon_id k \<mapsto> now) else lst))"
  by (simp_all add: Let_def split: prod.split)

lemma due_loop_other: "i \<notin> mon_id ` set ms \<Longrightarrow> snd (due_loop digest now ms lst) i = lst i"
  by (induction ms arbitrary: lst) (simp_all add: due_loop_Cons del: due_loop.simps(2))

lemma due_loop_subset: "set (fst (due_loop digest now ms lst)) \<subseteq> set ms"
  by (induction ms arbitrary: lst) (auto simp: due_loop_Cons simp del: due_loop.simps(2))

lemma due_now_other: "i \<noteq> mon_id m \<Longrightarrow> due_now digest now (lst(i \<mapsto> t)) m = due_now digest now lst m"
  by (simp add: due_now_def)

lemma due_loop_mem:
  assumes "distinct (map mon_id ms)" "m \<in> set ms"
  shows "(m \<in> set (fst (due_loop digest now ms lst)) \<longleftrightarrow> due_now digest now lst m) \<and>
    snd (due_loop digest now ms lst) (mon_id m) = (if due_now digest now lst m then Some now else lst (mon_id m))"
  using assms
proof (induction ms arbitrary: lst)
  case (Cons k ms)
  let ?lst = "if due_now digest now lst k then lst(mon_id k \<mapsto> now) else lst"
  note step = due_loop_Cons [of digest now k ms lst]
  show ?case
  proof (cases "m = k")
    case True
    then have "m \<notin> set ms" "mon_id m \<notin> mon_id ` set ms" using Cons.prems(1) by auto
    then show ?thesis using True due_loop_subset [of digest now ms ?lst] due_loop_other [of "mon_id m" ms digest now ?lst] unfolding step by auto
  next
    case False
    then have m: "m \<in> set ms" "mon_id k \<noteq> mon_id m" using Cons.prems by auto
    then show ?thesis
      using Cons.IH [of ?lst] Cons.prems(1) False due_now_other [of "mon_id k" m digest now lst now] unfolding step by auto
  qed
qed simp

section \<open>Properties\<close>

text \<open>
  Between two ticks in the same slot pattern at least one interval passes, so the guard on
  the last run never holds a run back.
\<close>

lemma slots_apart:
  assumes "in_slot digest m s" "in_slot digest m t" "s < t" "0 < mon_interval m"
  shows "mon_interval m \<le> t - s"
proof -
  have "(t + offset_of digest (mon_id m) (mon_interval m) - (s + offset_of digest (mon_id m) (mon_interval m))) mod mon_interval m = 0"
    using assms(1,2) unfolding in_slot_def by (metis mod_diff_eq diff_zero mod_0)
  then have "mon_interval m dvd t - s" by (simp add: mod_eq_0_iff_dvd)
  then show ?thesis using assms(3) by (simp add: zdvd_imp_le)
qed

definition last_ok :: "(string \<Rightarrow> nat) \<Rightarrow> monitor \<Rightarrow> int \<Rightarrow> scheduler \<Rightarrow> bool" where
  "last_ok digest m t s \<longleftrightarrow>
     (case sd_last s (mon_id m) of Some l \<Rightarrow> 0 \<le> l \<and> l < t \<and> in_slot digest m l | None \<Rightarrow> True)"

lemma due_step:
  assumes "distinct (map mon_id (sd_monitors s))" "m \<in> set (sd_monitors s)" "steady m" "0 \<le> t" "t < 2 ^ 62"
    "last_ok digest m t s" "due digest t s = (ms, s')"
  shows "m \<in> set ms \<longleftrightarrow> in_slot digest m t" "sd_monitors s' = sd_monitors s" "t < u \<Longrightarrow> last_ok digest m u s'"
proof -
  have d: "due_now digest t (sd_last s) m \<longleftrightarrow> in_slot digest m t"
    using due_now_slot [OF assms(3-5), of "sd_last s" digest] assms(3,6) slots_apart [of digest m _ t]
    by (auto simp: last_ok_def steady_def split: option.splits)
  have eqs: "ms = fst (due_loop digest t (sd_monitors s) (sd_last s))"
    "s' = s\<lparr>sd_last := snd (due_loop digest t (sd_monitors s) (sd_last s))\<rparr>"
    using assms(7) by (auto simp: due_def Let_def split: prod.splits)
  show "m \<in> set ms \<longleftrightarrow> in_slot digest m t" "sd_monitors s' = sd_monitors s"
    using due_loop_mem [OF assms(1,2), of digest t "sd_last s"] d by (simp_all add: eqs)
  show "last_ok digest m u s'" if "t < u"
    using due_loop_mem [OF assms(1,2), of digest t "sd_last s"] d that assms(4,6)
    by (auto simp: eqs last_ok_def split: option.splits)
qed

lemma run_ticks_slots:
  assumes "distinct (map mon_id (sd_monitors s))" "m \<in> set (sd_monitors s)" "steady m"
    "sorted_wrt (<) ts" "\<forall>t\<in>set ts. 0 \<le> t \<and> t < 2 ^ 62 \<and> last_ok digest m t s" "(t, ms) \<in> set (run_ticks digest ts s)"
  shows "m \<in> set ms \<longleftrightarrow> in_slot digest m t"
  using assms
proof (induction ts arbitrary: s)
  case (Cons u us)
  obtain out s' where d: "due digest u s = (out, s')" by fastforce
  have step: "m \<in> set out \<longleftrightarrow> in_slot digest m u" "sd_monitors s' = sd_monitors s"
    "\<And>v. u < v \<Longrightarrow> last_ok digest m v s'"
    using due_step [OF Cons.prems(1-3) _ _ _ d] Cons.prems(5) by auto
  show ?case
  proof (cases "(t, ms) = (u, out)")
    case False
    then have "(t, ms) \<in> set (run_ticks digest us s')" using Cons.prems(6) d by auto
    then show ?thesis using Cons.IH [of s'] Cons.prems step by auto
  qed (use step in auto)
qed simp

text \<open>
  Claim C38. A monitor that stays enabled runs at a tick exactly when the second of that tick is
  one of its slots, those a whole number of intervals apart and shifted by its own offset;
  and every tick in a slot runs it, since the guard on the last run never holds one back. A
  slot whose second is not ticked, because the loop was busy, is therefore lost: the monitor
  waits for the next slot.
\<close>

theorem a_monitor_runs_exactly_at_its_slots:
  assumes "distinct (map mon_id (sd_monitors s))" "m \<in> set (sd_monitors s)" "steady m" "sd_last s = Map.empty"
    and "sorted_wrt (<) ts" "\<forall>t\<in>set ts. 0 \<le> t \<and> t < 2 ^ 62"
  shows "\<forall>(t, ms)\<in>set (run_ticks digest ts s). m \<in> set ms \<longleftrightarrow>
    (t + offset_of digest (mon_id m) (mon_interval m)) mod mon_interval m = 0"
  using run_ticks_slots [OF assms(1-3,5)] assms(4,6) by (fastforce simp: last_ok_def in_slot_def)

definition sample_monitor :: "string \<Rightarrow> monitor" where
  "sample_monitor i =
     \<lparr>mon_id = i, mon_service = ''shop'', mon_component = ''api'', mon_name = ''API'', mon_version = 1,
      mon_enabled = True, mon_interval = 30, mon_timeout = 10, mon_failure = 3, mon_recovery = 2, mon_budget = 0,
      mon_engine = [], mon_created = 0, mon_updated = 0\<rparr>"

text \<open>The tick at second 60, a slot, is missed: the monitor does not run until 90.\<close>

theorem a_monitor_runs_exactly_at_its_slots_witness:
  "map (\<lambda>(t, ms). (t, map mon_id ms))
     (run_ticks (\<lambda>_. 0) [30, 59, 61, 90] \<lparr>sd_monitors = [sample_monitor ''m1''], sd_last = Map.empty\<rparr>) =
   [(30, [''m1'']), (59, []), (61, []), (90, [''m1''])] \<and>
   list_all (\<lambda>(t, ms). sample_monitor ''m1'' \<in> set ms \<longleftrightarrow> t mod 30 = 0)
     (run_ticks (\<lambda>_. 0) [30, 59, 61, 90] \<lparr>sd_monitors = [sample_monitor ''m1''], sd_last = Map.empty\<rparr>)"
proof -
  let ?s = "\<lparr>sd_monitors = [sample_monitor ''m1''], sd_last = Map.empty\<rparr>"
  have "\<forall>(t, ms)\<in>set (run_ticks (\<lambda>_. 0) [30, 59, 61, 90] ?s). sample_monitor ''m1'' \<in> set ms \<longleftrightarrow>
      (t + offset_of (\<lambda>_. 0) (mon_id (sample_monitor ''m1'')) (mon_interval (sample_monitor ''m1''))) mod
        mon_interval (sample_monitor ''m1'') = 0"
    by (rule a_monitor_runs_exactly_at_its_slots) (simp_all add: sample_monitor_def steady_def)
  moreover have "map (\<lambda>(t, ms). (t, map mon_id ms)) (run_ticks (\<lambda>_. 0) [30, 59, 61, 90] ?s) =
      [(30, [''m1'']), (59, []), (61, []), (90, [''m1''])]"
    by (simp add: due_def due_now_def offset_of_def sample_monitor_def i64_nonneg)
  ultimately show ?thesis unfolding list_all_iff by (simp add: sample_monitor_def offset_of_def)
qed

text \<open>
  A window without components covers every monitor at a tick, whichever service declared it.
\<close>

lemma blanket_window_reaches_every_service:
  assumes "r \<in> set (reg_tables reg ''maintenance_windows'')" "r ''cancelled'' = SInt 0" "r ''components'' = SStr []"
    and "r ''starts_at'' = SInt a" "r ''ends_at'' = SInt b" "a \<le> now" "now < b"
  shows "sm_maint (run_monitor_once vantage engine now
    (under_maintenance (active_maintenance x (reg_tables reg) now) m) False m)"
proof -
  have "maintenance_from_row x r \<in> set (active_maintenance x (reg_tables reg) now)"
    using assms by (auto simp: active_maintenance_def sql_lt_def sql_gt_def)
  moreover have "mw_components (maintenance_from_row x r) = []"
    using assms(3) by (simp add: maintenance_from_row_def Let_def row_str_def split_csv_def trim_space_def
        trim_left_def trim_right_def)
  ultimately show ?thesis by (auto simp: run_monitor_once_def under_maintenance_def Let_def)
qed

end
