(* ===== verification/Schedule.thy ===== *)
theory Schedule
  imports Compute
begin

text \<open>
  Agreed service time (\<open>internal/availability/schedule.go\<close>): a weekly schedule with its
  exceptions, expanded to the intervals of a period, and the named reporting periods. A
  timezone is an argument: the local day an instant falls on, and the instant of a minute of
  a local day, as the zone database gives them. Days are numbered from 1970-01-01; the
  Gregorian calendar that names them is modelled.
\<close>

section \<open>The calendar\<close>

definition leap :: "int \<Rightarrow> bool" where
  "leap y \<longleftrightarrow> y mod 4 = 0 \<and> (y mod 100 \<noteq> 0 \<or> y mod 400 = 0)"

definition year_length :: "int \<Rightarrow> nat" where
  "year_length y = (if leap y then 366 else 365)"

definition month_length :: "int \<Rightarrow> nat \<Rightarrow> nat" where
  "month_length y m =
     (if m = 2 then (if leap y then 29 else 28) else if m \<in> {4, 6, 9, 11} then 30 else 31)"

text \<open>The year and the month a day falls in, counted from the first of January of \<open>y\<close>.\<close>

function year_of :: "nat \<Rightarrow> int \<Rightarrow> int \<times> nat" where
  "year_of d y = (if d < year_length y then (y, d) else year_of (d - year_length y) (y + 1))"
  by pat_completeness auto

termination
  by (relation "measure fst") (auto simp: year_length_def split: if_splits)

declare year_of.simps [simp del]

function month_of :: "nat \<Rightarrow> int \<Rightarrow> nat \<Rightarrow> nat \<times> nat" where
  "month_of d y m = (if m \<ge> 12 \<or> d < month_length y m then (m, d) else month_of (d - month_length y m) y (m + 1))"
  by pat_completeness auto

termination
  by (relation "measure (\<lambda>(d, y, m). 12 - m)") auto

declare month_of.simps [simp del]

text \<open>Four hundred years have 146097 days, whichever year they start with.\<close>

definition civil :: "int \<Rightarrow> int \<times> nat \<times> nat" where
  "civil d =
     (let (y, r) = year_of (nat (d mod 146097)) 1970;
          (m, k) = month_of r y 1
      in (y + 400 * (d div 146097), m, k + 1))"

definition days_before_year :: "int \<Rightarrow> int" where
  "days_before_year y =
     146097 * ((y - 1970) div 400) + (\<Sum>i<nat ((y - 1970) mod 400). int (year_length (1970 + int i)))"

definition days_before_month :: "int \<Rightarrow> nat \<Rightarrow> int" where
  "days_before_month y m = (\<Sum>i\<in>{1..<m}. int (month_length y i))"

text \<open>\<open>time.Date\<close> on a year, a month that may run past December, and a day.\<close>

definition day_number :: "int \<Rightarrow> nat \<Rightarrow> int \<Rightarrow> int" where
  "day_number y m d =
     (let y' = y + int ((m - 1) div 12); m' = (m - 1) mod 12 + 1
      in days_before_year y' + days_before_month y' m' + d - 1)"

text \<open>1970-01-01 was a Thursday, Sunday is 0.\<close>

definition weekday :: "int \<Rightarrow> int" where
  "weekday d = (d + 4) mod 7"

definition date_text :: "int \<Rightarrow> string" where
  "date_text d =
     (case civil d of (y, m, k) \<Rightarrow>
        show_int_pad 4 y @ ''-'' @ show_int_pad 2 (int m) @ ''-'' @ show_int_pad 2 (int k))"

section \<open>Schedules\<close>

record schedule_window =
  sw_weekday :: int
  sw_start :: int
  sw_end :: int

record schedule_exception =
  se_date :: string
  se_include :: bool
  se_start :: int
  se_end :: int
  se_reason :: string

record schedule =
  sc_id :: string
  sc_service :: string
  sc_name :: string
  sc_timezone :: string
  sc_version :: int
  sc_windows :: "schedule_window list"
  sc_exceptions :: "schedule_exception list"
  sc_created :: int
  sc_updated :: int

definition always_on :: "string \<Rightarrow> string \<Rightarrow> string \<Rightarrow> int \<Rightarrow> schedule" where
  "always_on i service timezone now =
     \<lparr>sc_id = i, sc_service = service, sc_name = ''24x7'', sc_timezone = timezone, sc_version = 1,
      sc_windows = map (\<lambda>d. \<lparr>sw_weekday = d, sw_start = 0, sw_end = 1440\<rparr>) [0..6],
      sc_exceptions = [], sc_created = now, sc_updated = now\<rparr>"

record zone =
  z_day :: "int \<Rightarrow> int"
  z_at :: "int \<Rightarrow> int \<Rightarrow> int"

datatype schedule_error = UnknownTimezone string | NotAPeriod string

section \<open>Expand\<close>

definition day_window :: "zone \<Rightarrow> int \<Rightarrow> int \<Rightarrow> int \<Rightarrow> interval" where
  "day_window z d start_min end_min =
     (let e = (if end_min \<le> start_min then start_min else end_min) in Iv (z_at z d start_min) (z_at z d e))"

definition exception_end :: "schedule_exception \<Rightarrow> int" where
  "exception_end e = (if se_end e = 0 \<and> se_start e = 0 then 1440 else se_end e)"

definition day_windows :: "zone \<Rightarrow> schedule \<Rightarrow> int \<Rightarrow> interval list" where
  "day_windows z s d =
     (let windows = filter (\<lambda>w. sw_weekday w = weekday d) (sc_windows s);
          excs = filter (\<lambda>e. se_date e = date_text d) (sc_exceptions s);
          excluded = list_ex (\<lambda>e. \<not> se_include e) excs
      in (if excluded then [] else map (\<lambda>w. day_window z d (sw_start w) (sw_end w)) windows) @
         map (\<lambda>e. day_window z d (se_start e) (exception_end e)) (filter se_include excs))"

function day_loop :: "zone \<Rightarrow> schedule \<Rightarrow> int \<Rightarrow> int \<Rightarrow> interval list" where
  "day_loop z s d last_day = (if d > last_day then [] else day_windows z s d @ day_loop z s (d + 1) last_day)"
  by pat_completeness auto

termination
  by (relation "measure (\<lambda>(z, s, d, last_day). nat (last_day + 1 - d))") auto

declare day_loop.simps [simp del]

definition expand :: "(string \<Rightarrow> zone option) \<Rightarrow> schedule \<Rightarrow> int \<Rightarrow> int \<Rightarrow> schedule_error + interval list" where
  "expand zones s frm to =
     (if to \<le> frm then Inr []
      else case zones (sc_timezone s) of
        None \<Rightarrow> Inl (UnknownTimezone (sc_timezone s))
      | Some z \<Rightarrow> Inr (clip (day_loop z s (z_day z frm - 1) (z_day z to + 1)) frm to))"

section \<open>Periods\<close>

abbreviation WindowCalendarMonth :: string where "WindowCalendarMonth \<equiv> ''calendar_month''"
abbreviation WindowCalendarQuarter :: string where "WindowCalendarQuarter \<equiv> ''calendar_quarter''"
abbreviation WindowCalendarWeek :: string where "WindowCalendarWeek \<equiv> ''calendar_week''"

text \<open>
  \<open>Period\<close> for the calendar windows; \<open>iso_week\<close> is the label of the ISO week that starts on
  a Monday. The rolling window is \<open>rolling\<close>: the same local time thirty days before.
\<close>

definition midnight :: "zone \<Rightarrow> int \<Rightarrow> int" where
  "midnight z d = z_at z d 0"

definition iso_week :: "int \<Rightarrow> int \<times> int" where
  "iso_week monday =
     (let y = fst (civil (monday + 3)) in (y, (monday + 3 - day_number y 1 1) div 7 + 1))"

definition period_of :: "(string \<Rightarrow> zone option) \<Rightarrow> (zone \<Rightarrow> int \<Rightarrow> int) \<Rightarrow> string \<Rightarrow> int \<Rightarrow> string \<Rightarrow>
    schedule_error + period" where
  "period_of zones rolling kind instant timezone =
     (case zones timezone of
        None \<Rightarrow> Inl (UnknownTimezone timezone)
      | Some z \<Rightarrow>
          (case civil (z_day z instant) of (y, m, k) \<Rightarrow>
             if kind = WindowCalendarMonth \<or> kind = ''month'' then
               Inr \<lparr>p_label = show_int_pad 4 y @ ''-'' @ show_int_pad 2 (int m),
                    p_from = midnight z (day_number y m 1), p_to = midnight z (day_number y (m + 1) 1),
                    p_timezone = timezone\<rparr>
             else if kind = WindowCalendarQuarter \<or> kind = ''quarter'' then
               let q = (m - 1) div 3 in
               Inr \<lparr>p_label = show_int y @ ''Q'' @ show_int (int q + 1),
                    p_from = midnight z (day_number y (q * 3 + 1) 1), p_to = midnight z (day_number y (q * 3 + 4) 1),
                    p_timezone = timezone\<rparr>
             else if kind = WindowCalendarWeek \<or> kind = ''week'' then
               let offset = (weekday (z_day z instant) + 6) mod 7;
                   start = z_day z instant - offset
               in Inr \<lparr>p_label = show_int (fst (iso_week start)) @ ''-W'' @ show_int_pad 2 (snd (iso_week start)),
                       p_from = midnight z start, p_to = midnight z (start + 7), p_timezone = timezone\<rparr>
             else if kind = ''rolling_30d'' \<or> kind = ''30d'' then
               Inr \<lparr>p_label = ''rolling 30 days'', p_from = rolling z instant, p_to = instant, p_timezone = timezone\<rparr>
             else Inl (NotAPeriod kind)))"

text \<open>
  \<open>Previous\<close>: the period of the day before the one \<open>p\<close> starts on; \<open>day_before\<close> is the same
  local time a day earlier.
\<close>

definition previous_period :: "(string \<Rightarrow> zone option) \<Rightarrow> (zone \<Rightarrow> int \<Rightarrow> int) \<Rightarrow> (zone \<Rightarrow> int \<Rightarrow> int) \<Rightarrow> period \<Rightarrow>
    string \<Rightarrow> string \<Rightarrow> schedule_error + period" where
  "previous_period zones rolling day_before p kind timezone =
     (case zones timezone of
        None \<Rightarrow> Inl (UnknownTimezone timezone)
      | Some z \<Rightarrow>
          if kind \<in> {WindowCalendarMonth, ''month'', WindowCalendarQuarter, ''quarter'', WindowCalendarWeek, ''week''}
          then period_of zones rolling kind (day_before z (p_from p)) timezone
          else Inr p)"

section \<open>The agreed time of a day\<close>

text \<open>
  What the zone database is relied on for: every local day has a length, every instant lies between the midnights around
  its local day, and the minutes of a day lie between them too.
\<close>

definition zone_ok :: "zone \<Rightarrow> bool" where
  "zone_ok z \<longleftrightarrow>
     (\<forall>d. midnight z d < midnight z (d + 1)) \<and>
     (\<forall>t. midnight z (z_day z t) \<le> t \<and> t < midnight z (z_day z t + 1)) \<and>
     (\<forall>d m. 0 \<le> m \<longrightarrow> m \<le> 1440 \<longrightarrow> midnight z d \<le> z_at z d m \<and> z_at z d m \<le> midnight z (d + 1))"

definition minutes_ok :: "schedule \<Rightarrow> bool" where
  "minutes_ok s \<longleftrightarrow>
     list_all (\<lambda>w. 0 \<le> sw_start w \<and> sw_start w \<le> 1440 \<and> sw_end w \<le> 1440) (sc_windows s) \<and>
     list_all (\<lambda>e. 0 \<le> se_start e \<and> se_start e \<le> 1440 \<and> se_end e \<le> 1440) (sc_exceptions s)"

lemma midnight_mono: "zone_ok z \<Longrightarrow> d \<le> e \<Longrightarrow> midnight z d \<le> midnight z e"
proof (induction "nat (e - d)" arbitrary: e)
  case (Suc n)
  then have "midnight z d \<le> midnight z (e - 1)" by simp
  also have "\<dots> \<le> midnight z (e - 1 + 1)"
    using Suc.prems(1) unfolding zone_ok_def by (metis (no_types, lifting) midnight_def order_refl order_trans zero_le_numeral)
  finally show ?case by simp
qed simp

lemma day_unique:
  assumes "zone_ok z" "midnight z d \<le> t" "t < midnight z (d + 1)"
  shows "d = z_day z t"
proof -
  have t: "midnight z (z_day z t) \<le> t" "t < midnight z (z_day z t + 1)" using assms(1) by (auto simp: zone_ok_def)
  have "\<not> d < z_day z t" using midnight_mono [OF assms(1), of "d + 1" "z_day z t"] assms(3) t by linarith
  moreover have "\<not> z_day z t < d" using midnight_mono [OF assms(1), of "z_day z t + 1" d] assms(2) t by linarith
  ultimately show ?thesis by simp
qed

lemma z_day_mono: "zone_ok z \<Longrightarrow> t \<le> u \<Longrightarrow> z_day z t \<le> z_day z u"
proof (rule ccontr)
  assume z: "zone_ok z" "t \<le> u" "\<not> z_day z t \<le> z_day z u"
  then have "midnight z (z_day z u + 1) \<le> midnight z (z_day z t)" by (intro midnight_mono) auto
  then show False using z unfolding zone_ok_def by (meson not_le order_trans)
qed

lemma day_windows_within:
  assumes "zone_ok z" "minutes_ok s" "t \<in> instants (day_windows z s d)"
  shows "d = z_day z t"
proof -
  have "\<exists>a b. 0 \<le> a \<and> a \<le> 1440 \<and> b \<le> 1440 \<and> t \<in> instants [day_window z d a b]"
    using assms(2,3)
    by (auto simp: day_windows_def minutes_ok_def instants_iff list_all_iff exception_end_def Let_def split: if_splits)
  then obtain a b where ab: "0 \<le> a" "a \<le> 1440" "b \<le> 1440" "t \<in> instants [day_window z d a b]" by blast
  define e where "e = (if b \<le> a then a else b)"
  have e: "0 \<le> e" "e \<le> 1440" "z_at z d a \<le> t" "t < z_at z d e" using ab by (auto simp: day_window_def e_def Let_def)
  have "midnight z d \<le> z_at z d a" "z_at z d e \<le> midnight z (d + 1)" using assms(1) ab e by (auto simp: zone_ok_def)
  with e show ?thesis using day_unique [OF assms(1), of d t] by linarith
qed

lemma day_loop_instants: "t \<in> instants (day_loop z s d e) \<longleftrightarrow> (\<exists>k\<in>{d..e}. t \<in> instants (day_windows z s k))"
proof (induction z s d e rule: day_loop.induct)
  case (1 z s d e)
  have split: "{d..e} = insert d {d + 1..e}" if "d \<le> e" using that by auto
  show ?case
  proof (cases "d > e")
    case False
    then show ?thesis using 1 split by (subst day_loop.simps) auto
  qed (simp add: day_loop.simps)
qed

section \<open>Years and months\<close>

lemma year_length_pos [simp]: "0 < year_length y" by (simp add: year_length_def)

lemma month_length_pos [simp]: "0 < month_length y m" by (simp add: month_length_def)

lemma leap_400: "leap (y + 400 * q) = leap y"
proof -
  have "(y + 400 * q) mod 4 = y mod 4" "(y + 400 * q) mod 100 = y mod 100" "(y + 400 * q) mod 400 = y mod 400"
    using mod_mult_self1 [of y "100 * q" 4] mod_mult_self1 [of y "4 * q" 100] mod_mult_self1 [of y q 400]
    by (simp_all add: mult.assoc mult.commute [of _ q] mult.left_commute)
  then show ?thesis by (simp add: leap_def)
qed

lemma lengths_400: "year_length (y + 400 * q) = year_length y" "month_length (y + 400 * q) m = month_length y m"
  by (simp_all add: year_length_def month_length_def leap_400)

lemma year_is_months: "int (year_length y) = days_before_month y 13"
proof -
  have "{1..<13} = set [1, 2, 3, 4, 5, 6, 7, 8, 9, 10, 11, 12::nat]" by (auto simp: atLeastLessThan_iff) arith
  then show ?thesis by (simp add: days_before_month_def year_length_def month_length_def)
qed

lemma days_before_month_Suc: "1 \<le> m \<Longrightarrow> days_before_month y (Suc m) = days_before_month y m + int (month_length y m)"
  by (simp add: days_before_month_def atLeastLessThanSuc)

lemma year_of_spec:
  "year_of d y = (y', r) \<Longrightarrow> r < year_length y' \<and> y \<le> y' \<and>
     int d = (\<Sum>i<nat (y' - y). int (year_length (y + int i))) + int r"
proof (induction d y arbitrary: y' r rule: year_of.induct)
  case (1 d y)
  show ?case
  proof (cases "d < year_length y")
    case True
    then show ?thesis using 1(2) by (auto simp: year_of.simps)
  next
    case False
    then have rec: "year_of (d - year_length y) (y + 1) = (y', r)" using 1(2) by (simp add: year_of.simps [of d y])
    note ih = 1(1) [OF False rec]
    have n: "nat (y' - y) = Suc (nat (y' - (y + 1)))" using ih by auto
    have "(\<Sum>i<nat (y' - y). int (year_length (y + int i))) =
        int (year_length y) + (\<Sum>i<nat (y' - (y + 1)). int (year_length (y + 1 + int i)))"
      unfolding n by (subst sum.lessThan_Suc_shift) (simp add: algebra_simps)
    then show ?thesis using ih False by auto
  qed
qed

lemma month_of_spec:
  "month_of d y m = (m', k) \<Longrightarrow> 1 \<le> m \<Longrightarrow> m \<le> 12 \<Longrightarrow> int d + days_before_month y m < days_before_month y 13 \<Longrightarrow>
     m \<le> m' \<and> m' \<le> 12 \<and> k < month_length y m' \<and> int d + days_before_month y m = days_before_month y m' + int k"
proof (induction d y m arbitrary: m' k rule: month_of.induct)
  case (1 d y m)
  show ?case
  proof (cases "m \<ge> 12 \<or> d < month_length y m")
    case True
    then have "m' = m" "k = d" using 1(2) by (auto simp: month_of.simps)
    moreover have "d < month_length y m" using True 1(4,5) days_before_month_Suc [of 12 y] by (cases "m = 12") auto
    ultimately show ?thesis using 1(4) by simp
  next
    case False
    then have rec: "month_of (d - month_length y m) y (m + 1) = (m', k)" using 1(2) by (simp add: month_of.simps [of d y m])
    have e: "int (d - month_length y m) + days_before_month y (m + 1) = int d + days_before_month y m"
      using False days_before_month_Suc [OF 1(3), of y] by simp
    show ?thesis using 1(1) [OF False rec] False 1(5) e by simp
  qed
qed

lemma cycle: "(\<Sum>i<400. int (year_length (1970 + int i))) = 146097"
proof -
  have "(\<Sum>i<400. int (year_length (1970 + int i))) = sum_list (map (\<lambda>i. int (year_length (1970 + int i))) [0..<400])"
    by (simp add: interv_sum_list_conv_sum_set_nat atLeast0LessThan)
  also have "\<dots> = 146097" by code_simp
  finally show ?thesis .
qed

lemma days_before_year_Suc: "days_before_year (y + 1) = days_before_year y + int (year_length y)"
proof -
  define q r where "q = (y - 1970) div 400" and "r = nat ((y - 1970) mod 400)"
  have y: "y = 1970 + int r + 400 * q" "r < 400" by (auto simp: q_def r_def)
  have len: "year_length y = year_length (1970 + int r)" using lengths_400(1) [of "1970 + int r" q] y by simp
  show ?thesis
  proof (cases "r = 399")
    case True
    then have "(y + 1 - 1970) div 400 = q + 1" "(y + 1 - 1970) mod 400 = 0" using y by auto
    then show ?thesis
      using cycle len True sum.lessThan_Suc [of "\<lambda>i. int (year_length (1970 + int i))" 399]
      by (simp add: days_before_year_def q_def [symmetric] r_def [symmetric] distrib_left)
  next
    case False
    have e: "y + 1 - 1970 = int (Suc r) + q * 400" and b: "int (Suc r) < 400" using y False by simp_all
    have "(y + 1 - 1970) div 400 = q" using b unfolding e by (subst div_mult_self1) simp_all
    moreover have "(y + 1 - 1970) mod 400 = int (Suc r)" using b unfolding e by (subst mod_mult_self1) simp
    ultimately show ?thesis
      unfolding days_before_year_def by (simp only: nat_int sum.lessThan_Suc q_def [symmetric] r_def [symmetric] len add.assoc)
  qed
qed


text \<open>Months numbered in one line, twelve to a year.\<close>

definition month_start :: "int \<Rightarrow> int" where
  "month_start i = days_before_year (i div 12) + days_before_month (i div 12) (nat (i mod 12) + 1)"

definition month_index :: "int \<Rightarrow> int" where
  "month_index d = (case civil d of (y, m, k) \<Rightarrow> 12 * y + int m - 1)"

lemma split_12: "0 \<le> n \<Longrightarrow> n < 12 \<Longrightarrow> (12 * y + n) div 12 = y" "0 \<le> n \<Longrightarrow> n < 12 \<Longrightarrow> (12 * y + n) mod 12 = n"
  for y n :: int
  by simp_all

lemma month_start_split: "0 \<le> n \<Longrightarrow> n < 12 \<Longrightarrow> month_start (12 * y + n) = days_before_year y + days_before_month y (nat n + 1)"
  by (simp only: month_start_def split_12)

lemma month_start_Suc: "month_start (i + 1) = month_start i + int (month_length (i div 12) (nat (i mod 12) + 1))"
proof -
  define y n where "y = i div 12" and "n = i mod 12"
  have i: "i = 12 * y + n" and n: "0 \<le> n" "n < 12" by (simp_all add: y_def n_def)
  have "month_start (i + 1) = days_before_year y + days_before_month y (Suc (nat n + 1))"
  proof (cases "n = 11")
    case True
    then have e: "i + 1 = 12 * (y + 1) + 0" using i by simp
    have "month_start (i + 1) = days_before_year (y + 1)"
      unfolding e by (subst month_start_split) (simp_all add: days_before_month_def)
    with True show ?thesis by (simp add: days_before_year_Suc year_is_months)
  next
    case False
    then have e: "i + 1 = 12 * y + (n + 1)" "n + 1 < 12" using i n by simp_all
    show ?thesis unfolding e(1) using month_start_split [of "n + 1" y] e(2) n by (simp add: nat_add_distrib)
  qed
  also have "\<dots> = month_start i + int (month_length y (nat n + 1))"
    using days_before_month_Suc [of "nat n + 1" y] month_start_split [OF n, of y] i by simp
  finally show ?thesis by (simp only: y_def n_def)
qed

lemma month_start_mono: "i \<le> j \<Longrightarrow> month_start i \<le> month_start j"
proof (induction "nat (j - i)" arbitrary: j)
  case (Suc n)
  then have "month_start i \<le> month_start (j - 1)" by simp
  also have "\<dots> \<le> month_start (j - 1 + 1)" unfolding month_start_Suc by simp
  finally show ?case by simp
qed simp

lemma day_number_month_start: "1 \<le> m \<Longrightarrow> day_number y m 1 = month_start (12 * y + int m - 1)"
proof -
  assume m: "1 \<le> m"
  define n where "n = m - 1"
  have e: "12 * y + int m - 1 = 12 * y + int n" using m by (simp add: n_def)
  have "(12 * y + int n) div 12 = y + int (n div 12)" "nat ((12 * y + int n) mod 12) = n mod 12"
    by (simp_all add: zdiv_int nat_mod_as_int)
  then show ?thesis by (simp only: day_number_def month_start_def e n_def [symmetric] Let_def)
qed

lemma days_before_year_cycle: "days_before_year (y + 400 * q) = days_before_year y + 146097 * q"
proof -
  have e: "y + 400 * q - 1970 = (y - 1970) + q * 400" by simp
  show ?thesis unfolding days_before_year_def e by (simp only: div_mult_self1 mod_mult_self1) simp
qed

lemma days_before_year_1970: "0 \<le> n \<Longrightarrow> n < 400 \<Longrightarrow> days_before_year (1970 + n) = (\<Sum>i<nat n. int (year_length (1970 + int i)))"
  by (simp add: days_before_year_def)

lemma days_before_month_400: "days_before_month (y + 400 * q) m = days_before_month y m"
  by (simp add: days_before_month_def lengths_400)

lemma year_of_400:
  assumes "d < 146097" "year_of d 1970 = (y, r)"
  shows "y < 2370"
proof (rule ccontr)
  assume "\<not> y < 2370"
  then have sub: "{..<400} \<subseteq> {..<nat (y - 1970)}" by auto
  have "(\<Sum>i<400. int (year_length (1970 + int i))) \<le> (\<Sum>i<nat (y - 1970). int (year_length (1970 + int i)))"
    by (rule sum_mono2) (use sub in auto)
  then show False using year_of_spec [OF assms(2)] assms(1) cycle by linarith
qed

lemma month_of_day:
  "month_start (month_index d) \<le> d \<and> d < month_start (month_index d + 1) \<and> 1 \<le> fst (snd (civil d)) \<and> fst (snd (civil d)) \<le> 12"
proof -
  define q c where "q = d div 146097" and "c = nat (d mod 146097)"
  obtain y r where yr: "year_of c 1970 = (y, r)" by fastforce
  obtain m k where mk: "month_of r y 1 = (m, k)" by fastforce
  have civ: "civil d = (y + 400 * q, m, k + 1)" by (simp add: civil_def q_def [symmetric] c_def [symmetric] yr mk [simplified])
  have c: "c < 146097" "d = int c + 146097 * q" by (simp_all add: c_def q_def)
  note y = year_of_spec [OF yr]
  have dby: "days_before_year y = int c - int r"
    using days_before_year_1970 [of "y - 1970"] y year_of_400 [OF c(1) yr] by simp
  have m: "1 \<le> m" "m \<le> 12" "k < month_length y m" "int r = days_before_month y m + int k"
    using month_of_spec [OF mk] conjunct1 [OF y] year_is_months [of y] days_before_month_def [of y "Suc 0"] by simp_all
  define i where "i = month_index d"
  have ie: "i = 12 * (y + 400 * q) + (int m - 1)" by (simp add: i_def month_index_def civ)
  have i: "i div 12 = y + 400 * q" "nat (i mod 12) + 1 = m" using m unfolding ie by (subst split_12; simp)+
  have "month_start i = d - int k"
    unfolding month_start_def i by (simp add: days_before_year_cycle days_before_month_400 dby m c)
  moreover have "month_start (i + 1) = month_start i + int (month_length y m)"
    unfolding month_start_Suc i by (simp add: lengths_400)
  ultimately show ?thesis using m by (simp add: i_def civ)
qed

lemma month_index_unique: "month_start i \<le> d \<Longrightarrow> d < month_start (i + 1) \<Longrightarrow> month_index d = i"
  using month_of_day [of d] month_start_mono [of "i + 1" "month_index d"] month_start_mono [of "month_index d + 1" i] by force


section \<open>Calendar periods partition time\<close>

text \<open>The days of the period a day falls in, and the period they make.\<close>

definition period_days :: "string \<Rightarrow> int \<Rightarrow> int \<times> int" where
  "period_days kind d =
     (let i = month_index d in
      if kind \<in> {WindowCalendarMonth, ''month''} then (month_start i, month_start (i + 1))
      else if kind \<in> {WindowCalendarQuarter, ''quarter''} then (month_start (3 * (i div 3)), month_start (3 * (i div 3) + 3))
      else (d - (weekday d + 6) mod 7, d - (weekday d + 6) mod 7 + 7))"

abbreviation calendar_kinds :: "string set" where
  "calendar_kinds \<equiv> {WindowCalendarMonth, ''month'', WindowCalendarQuarter, ''quarter'', WindowCalendarWeek, ''week''}"

lemma civil_index:
  assumes "civil d = (y, m, k)"
  shows "1 \<le> m" "m \<le> 12" "month_index d = 12 * y + (int m - 1)"
  using month_of_day [of d] assms by (auto simp: month_index_def)

lemma quarter_index:
  assumes "civil d = (y, m, k)"
  shows "month_index d div 3 = 4 * y + int ((m - 1) div 3)"
proof -
  have "month_index d = int (m - 1) + 3 * (4 * y)" using civil_index [OF assms] by simp
  then show ?thesis by (simp add: zdiv_int)
qed

lemma same_month: "month_index d = month_index e \<Longrightarrow> civil d = (y, m, k) \<Longrightarrow> \<exists>k'. civil e = (y, m, k')"
proof -
  assume a: "month_index d = month_index e" "civil d = (y, m, k)"
  obtain y' m' k' where e: "civil e = (y', m', k')" by (metis surj_pair)
  have "12 * y + (int m - 1) = 12 * y' + (int m' - 1)" using a civil_index [OF a(2)] civil_index [OF e] by simp
  moreover from this have "y = y'"
    using split_12(1) [of "int m - 1" y] split_12(1) [of "int m' - 1" y'] civil_index [OF a(2)] civil_index [OF e] by simp
  ultimately show ?thesis using e by simp
qed

lemma same_quarter:
  assumes "month_index d div 3 = month_index e div 3" "civil d = (y, m, k)"
  shows "\<exists>m' k'. civil e = (y, m', k') \<and> (m' - 1) div 3 = (m - 1) div 3"
proof -
  obtain y' m' k' where e: "civil e = (y', m', k')" by (metis surj_pair)
  have "4 * y + int ((m - 1) div 3) = 4 * y' + int ((m' - 1) div 3)"
    using assms quarter_index [OF assms(2)] quarter_index [OF e] by simp
  moreover have "(m - 1) div 3 < 4" "(m' - 1) div 3 < 4" using civil_index [OF assms(2)] civil_index [OF e] by simp_all
  moreover have "y = y' \<and> a = b" if "4 * y + int a = 4 * y' + int b" "a < 4" "b < 4" for a b using that by presburger
  ultimately show ?thesis using e by metis
qed

lemma week_start: "d - (weekday d + 6) mod 7 = 7 * ((d + 3) div 7) - 3"
proof -
  have "(weekday d + 6) mod 7 = (d + 3 + 7) mod 7" by (simp add: weekday_def mod_simps)
  then have "(weekday d + 6) mod 7 = (d + 3) mod 7" by (simp only: mod_add_self2)
  then show ?thesis using mult_div_mod_eq [of 7 "d + 3"] by linarith
qed

lemma same_week:
  assumes "e \<in> {d - (weekday d + 6) mod 7..<d - (weekday d + 6) mod 7 + 7}"
  shows "e - (weekday e + 6) mod 7 = d - (weekday d + 6) mod 7"
proof -
  define q where "q = (d + 3) div 7"
  have "7 * q \<le> e + 3" "e + 3 < 7 * q + 7" using assms unfolding week_start q_def by auto
  then have "(e + 3) div 7 = q" by linarith
  then show ?thesis by (simp only: week_start q_def)
qed

lemma quarter_around: "3 * (i div 3) \<le> i" "i + 1 \<le> 3 * (i div 3) + 3" for i :: int
  by presburger+

lemma period_days_contains: "fst (period_days kind d) \<le> d \<and> d < snd (period_days kind d)"
  using month_of_day [of d] month_start_mono [OF quarter_around(1) [of "month_index d"]]
    month_start_mono [OF quarter_around(2) [of "month_index d"]] pos_mod_bound [of 7 "weekday d + 6"] pos_mod_sign [of 7 "weekday d + 6"]
  by (auto simp: period_days_def Let_def)

lemma month_index_range: "month_start i \<le> d \<Longrightarrow> d < month_start j \<Longrightarrow> i \<le> month_index d \<and> month_index d < j"
  using month_of_day [of d] month_start_mono [of "month_index d + 1" i] month_start_mono [of j "month_index d"] by force

lemma period_days_same:
  assumes "e \<in> {fst (period_days kind d)..<snd (period_days kind d)}"
  shows "period_days kind e = period_days kind d"
    "kind \<in> {WindowCalendarMonth, ''month''} \<Longrightarrow> month_index e = month_index d"
    "kind \<in> {WindowCalendarQuarter, ''quarter''} \<Longrightarrow> month_index e div 3 = month_index d div 3"
proof -
  show m: "month_index e = month_index d" if "kind \<in> {WindowCalendarMonth, ''month''}"
    using assms that month_index_unique [of "month_index d" e] by (auto simp: period_days_def Let_def)
  show q: "month_index e div 3 = month_index d div 3" if "kind \<in> {WindowCalendarQuarter, ''quarter''}"
  proof -
    have "month_start (3 * (month_index d div 3)) \<le> e" "e < month_start (3 * (month_index d div 3) + 3)"
      using assms that by (auto simp: period_days_def Let_def)
    then show ?thesis using month_index_range [of "3 * (month_index d div 3)" e "3 * (month_index d div 3) + 3"] by presburger
  qed
  show "period_days kind e = period_days kind d"
  proof (cases "kind \<in> {WindowCalendarMonth, ''month'', WindowCalendarQuarter, ''quarter''}")
    case True
    then show ?thesis using m q by (auto simp: period_days_def Let_def)
  next
    case False
    then have "e - (weekday e + 6) mod 7 = d - (weekday d + 6) mod 7"
      using assms by (intro same_week) (auto simp: period_days_def Let_def)
    with False show ?thesis by (simp add: period_days_def Let_def)
  qed
qed

lemma period_days_before: "snd (period_days kind (fst (period_days kind d) - 1)) = fst (period_days kind d)"
proof -
  let ?a = "fst (period_days kind d)" and ?e = "fst (period_days kind d) - 1"
  have "?a \<le> snd (period_days kind ?e)" using period_days_contains [of kind ?e] by simp
  moreover have "\<not> ?a < snd (period_days kind ?e)"
  proof
    assume "?a < snd (period_days kind ?e)"
    then have "period_days kind ?a = period_days kind ?e" using period_days_same(1) [of ?a kind ?e] period_days_contains [of kind ?e] by simp
    moreover have "period_days kind ?a = period_days kind d"
      using period_days_same(1) [of ?a kind d] period_days_contains [of kind d] by simp
    ultimately show False using period_days_contains [of kind ?e] by simp
  qed
  ultimately show ?thesis by simp
qed

lemma period_of_bounds:
  assumes "zones tz = Some z" "kind \<in> calendar_kinds"
  shows "\<exists>p. period_of zones rolling kind t tz = Inr p \<and> p_from p = midnight z (fst (period_days kind (z_day z t))) \<and>
    p_to p = midnight z (snd (period_days kind (z_day z t)))"
proof -
  define d where "d = z_day z t"
  obtain y m k where c: "civil d = (y, m, k)" by (metis surj_pair)
  note i = civil_index [OF c] and q = quarter_index [OF c]
  have n: "day_number y m 1 = month_start (month_index d)" "day_number y (m + 1) 1 = month_start (month_index d + 1)"
    using i by (simp_all add: day_number_month_start add_diff_eq)
  have "3 * (month_index d div 3) = 12 * y + int ((m - 1) div 3 * 3 + 1) - 1" unfolding q by simp
  then have n3: "day_number y ((m - 1) div 3 * 3 + 1) 1 = month_start (3 * (month_index d div 3))"
    "day_number y ((m - 1) div 3 * 3 + 4) 1 = month_start (3 * (month_index d div 3) + 3)"
    by (simp_all add: day_number_month_start add.commute)
  show ?thesis using assms n n3 c unfolding d_def [symmetric]
    by (elim insertE emptyE; simp add: period_of_def period_days_def Let_def d_def [symmetric])
qed

lemma period_of_same:
  assumes "zones tz = Some z" "kind \<in> calendar_kinds"
    "z_day z u \<in> {fst (period_days kind (z_day z t))..<snd (period_days kind (z_day z t))}"
  shows "period_of zones rolling kind u tz = period_of zones rolling kind t tz"
proof -
  obtain y m k where c: "civil (z_day z t) = (y, m, k)" by (metis surj_pair)
  obtain y' m' k' where c': "civil (z_day z u) = (y', m', k')" by (metis surj_pair)
  note s = period_days_same [OF assms(3)]
  have m: "y' = y \<and> m' = m" if "kind \<in> {WindowCalendarMonth, ''month''}" using same_month [OF s(2) [symmetric] c] that c' by simp
  have q: "y' = y \<and> (m' - 1) div 3 = (m - 1) div 3" if "kind \<in> {WindowCalendarQuarter, ''quarter''}"
    using same_quarter [OF s(3) [symmetric] c] that c' by simp
  show ?thesis using assms(1,2) c c' m q s(1)
    by (elim insertE emptyE; simp add: period_of_def period_days_def Let_def)
qed

lemma midnight_strict: "zone_ok z \<Longrightarrow> d < e \<Longrightarrow> midnight z d < midnight z e"
proof -
  assume z: "zone_ok z" and "d < e"
  then have "midnight z d < midnight z (d + 1)" "midnight z (d + 1) \<le> midnight z e"
    using midnight_mono [of z "d + 1" e] by (auto simp: zone_ok_def)
  then show ?thesis by simp
qed

lemma day_between:
  assumes "zone_ok z"
  shows "midnight z a \<le> t \<and> t < midnight z b \<longleftrightarrow> a \<le> z_day z t \<and> z_day z t < b"
proof -
  have t: "midnight z (z_day z t) \<le> t" "t < midnight z (z_day z t + 1)" using assms by (auto simp: zone_ok_def)
  have "midnight z a \<le> t \<longleftrightarrow> a \<le> z_day z t"
    using t midnight_mono [OF assms, of a "z_day z t"] midnight_mono [OF assms, of "z_day z t + 1" a] by fastforce
  moreover have "t < midnight z b \<longleftrightarrow> z_day z t < b"
    using t midnight_mono [OF assms, of b "z_day z t"] midnight_mono [OF assms, of "z_day z t + 1" b] by fastforce
  ultimately show ?thesis by simp
qed

text \<open>
  The calendar periods partition time: the month, quarter or week of an instant
  contains it, every instant inside resolves to the same period, and the previous period ends
  exactly where it starts.\<close>

lemma calendar_periods_tile:
  assumes "zones tz = Some z" "zone_ok z" "\<forall>t. z_day z (day_before z t) = z_day z t - 1" "kind \<in> calendar_kinds"
  shows "\<exists>p q. period_of zones rolling kind t tz = Inr p \<and> p_from p \<le> t \<and> t < p_to p \<and>
    (\<forall>u. p_from p \<le> u \<and> u < p_to p \<longrightarrow> period_of zones rolling kind u tz = Inr p) \<and>
    previous_period zones rolling day_before p kind tz = Inr q \<and> p_from q < p_to q \<and> p_to q = p_from p"
proof -
  let ?D = "period_days kind"
  obtain p where p: "period_of zones rolling kind t tz = Inr p" "p_from p = midnight z (fst (?D (z_day z t)))"
    "p_to p = midnight z (snd (?D (z_day z t)))"
    using period_of_bounds [of zones tz z kind rolling t] assms by blast
  have day: "z_day z (day_before z (p_from p)) = fst (?D (z_day z t)) - 1"
    using assms(2,3) day_unique [of z "fst (?D (z_day z t))" "p_from p"] p(2) by (simp add: zone_ok_def)
  obtain q where q: "period_of zones rolling kind (day_before z (p_from p)) tz = Inr q"
    "p_from q = midnight z (fst (?D (fst (?D (z_day z t)) - 1)))" "p_to q = midnight z (fst (?D (z_day z t)))"
    using period_of_bounds [of zones tz z kind rolling "day_before z (p_from p)"] assms unfolding day period_days_before by blast
  have "p_from p \<le> t \<and> t < p_to p" using p period_days_contains [of kind "z_day z t"] by (simp add: day_between [OF assms(2)])
  moreover have "period_of zones rolling kind u tz = Inr p" if "p_from p \<le> u \<and> u < p_to p" for u
    using period_of_same [of zones tz z kind u t rolling] that assms p by (simp add: day_between)
  moreover have "previous_period zones rolling day_before p kind tz = Inr q" using assms(1,4) q(1) by (auto simp: previous_period_def)
  moreover have "p_from q < p_to q"
    using q(2,3) midnight_strict [OF assms(2)] period_days_contains [of kind "fst (?D (z_day z t)) - 1"] by simp
  ultimately show ?thesis using p(1,2) q(3) by metis
qed

definition utc :: zone where
  "utc = \<lparr>z_day = (\<lambda>t. t div 86400), z_at = (\<lambda>d m. 86400 * d + 60 * m)\<rparr>"

lemma utc_ok: "zone_ok utc"
proof -
  have "86400 * (t div 86400) \<le> t" "t < 86400 * (t div 86400) + 86400" for t :: int by linarith+
  then show ?thesis by (simp add: zone_ok_def utc_def midnight_def)
qed

section \<open>The agreed time of a period\<close>

lemma expand_instants:
  assumes "zones (sc_timezone s) = Some z" "zone_ok z" "minutes_ok s" "expand zones s frm to = Inr xs"
  shows "t \<in> instants xs \<longleftrightarrow> frm \<le> t \<and> t < to \<and> t \<in> instants (day_windows z s (z_day z t))"
proof (cases "to \<le> frm")
  case False
  then have xs: "xs = clip (day_loop z s (z_day z frm - 1) (z_day z to + 1)) frm to"
    using assms(1,4) by (simp add: expand_def)
  have "z_day z t \<in> {z_day z frm - 1..z_day z to + 1}" if "frm \<le> t" "t < to"
    using z_day_mono [OF assms(2), of frm t] z_day_mono [OF assms(2), of t to] that by simp
  moreover have "k = z_day z t" if "t \<in> instants (day_windows z s k)" for k using day_windows_within [OF assms(2,3) that] .
  ultimately show ?thesis unfolding xs instants_clip Int_iff day_loop_instants atLeastLessThan_iff by metis
qed (use assms(4) in \<open>auto simp: expand_def\<close>)

text \<open>Whether an instant is agreed service time, read off the schedule.\<close>

definition agreed_at :: "zone \<Rightarrow> schedule \<Rightarrow> int \<Rightarrow> bool" where
  "agreed_at z s t =
     (let d = z_day z t; covers = (\<lambda>a b. a < b \<and> z_at z d a \<le> t \<and> t < z_at z d b)
      in (\<not> (\<exists>e\<in>set (sc_exceptions s). se_date e = date_text d \<and> \<not> se_include e) \<and>
          (\<exists>w\<in>set (sc_windows s). sw_weekday w = weekday d \<and> covers (sw_start w) (sw_end w))) \<or>
         (\<exists>e\<in>set (sc_exceptions s). se_date e = date_text d \<and> se_include e \<and> covers (se_start e) (exception_end e)))"

lemma day_window_covers:
  "iv_from (day_window z d a b) \<le> t \<and> t < iv_to (day_window z d a b) \<longleftrightarrow> a < b \<and> z_at z d a \<le> t \<and> t < z_at z d b"
  by (auto simp: day_window_def Let_def)

lemma instants_map_filter:
  "t \<in> instants (map f (filter P xs)) \<longleftrightarrow> (\<exists>x\<in>set xs. P x \<and> iv_from (f x) \<le> t \<and> t < iv_to (f x))"
  by (auto simp: instants_iff)

lemma instants_append: "t \<in> instants (xs @ ys) \<longleftrightarrow> t \<in> instants xs \<or> t \<in> instants ys"
  by (auto simp: instants_iff)

lemma instants_day_windows: "t \<in> instants (day_windows z s (z_day z t)) \<longleftrightarrow> agreed_at z s t"
proof -
  let ?d = "z_day z t"
  let ?X = "list_ex (\<lambda>e. \<not> se_include e) (filter (\<lambda>e. se_date e = date_text ?d) (sc_exceptions s))"
  have X: "?X \<longleftrightarrow> (\<exists>e\<in>set (sc_exceptions s). se_date e = date_text ?d \<and> \<not> se_include e)" by (auto simp: list_ex_iff)
  have "t \<in> instants (day_windows z s ?d) \<longleftrightarrow>
    (\<not> ?X \<and> t \<in> instants (map (\<lambda>w. day_window z ?d (sw_start w) (sw_end w)) (filter (\<lambda>w. sw_weekday w = weekday ?d) (sc_windows s)))) \<or>
    t \<in> instants (map (\<lambda>e. day_window z ?d (se_start e) (exception_end e))
      (filter (\<lambda>e. se_date e = date_text ?d \<and> se_include e) (sc_exceptions s)))"
    by (cases ?X) (simp_all only: day_windows_def Let_def filter_filter instants_append if_True if_False, simp_all)
  then show ?thesis
    unfolding X instants_map_filter day_window_covers agreed_at_def Let_def by (simp only: conj_assoc)
qed


definition office :: schedule where
  "office =
     \<lparr>sc_id = ''s'', sc_service = ''v'', sc_name = ''office'', sc_timezone = ''UTC'', sc_version = 1,
      sc_windows = [\<lparr>sw_weekday = 3, sw_start = 540, sw_end = 1020\<rparr>, \<lparr>sw_weekday = 4, sw_start = 540, sw_end = 1020\<rparr>],
      sc_exceptions = [\<lparr>se_date = ''1970-01-08'', se_include = False, se_start = 0, se_end = 0, se_reason = ''holiday''\<rparr>,
        \<lparr>se_date = ''1970-01-09'', se_include = True, se_start = 600, se_end = 660, se_reason = ''release''\<rparr>],
      sc_created = 0, sc_updated = 0\<rparr>"

lemma first_days:
  "civil 5 = (1970, 1, 6)" "civil 6 = (1970, 1, 7)" "civil 7 = (1970, 1, 8)"
  "civil 8 = (1970, 1, 9)" "civil 9 = (1970, 1, 10)" "civil 10 = (1970, 1, 11)"
  by code_simp+

lemma first_dates:
  "date_text 5 = ''1970-01-06''" "date_text 6 = ''1970-01-07''" "date_text 7 = ''1970-01-08''"
  "date_text 8 = ''1970-01-09''" "date_text 9 = ''1970-01-10''" "date_text 10 = ''1970-01-11''"
  by (simp_all add: date_text_def first_days show_int_pad_def show_nat.simps digits)

lemma office_days:
  "day_windows utc office 5 = []" "day_windows utc office 6 = [Iv 550800 579600]" "day_windows utc office 7 = []"
  "day_windows utc office 8 = [Iv 727200 730800]" "day_windows utc office 9 = []" "day_windows utc office 10 = []"
  by (simp_all add: day_windows_def office_def first_dates weekday_def day_window_def exception_end_def utc_def)

lemma office_expanded: "expand (\<lambda>n. Some utc) office 518400 777600 = Inr [Iv 550800 579600, Iv 727200 730800]"
proof -
  have "day_loop utc office 5 10 = [Iv 550800 579600, Iv 727200 730800]" by (simp add: day_loop.simps office_days)
  moreover have "clip [Iv 550800 579600, Iv 727200 730800] 518400 777600 = [Iv 550800 579600, Iv 727200 730800]" by code_simp
  moreover have "z_day utc 518400 = 6" "z_day utc 777600 = 9" by (simp_all add: utc_def)
  ultimately show ?thesis by (simp add: expand_def)
qed


lemma leap_day: "z_day utc 68169600 = 789" "civil 789 = (1972, 2, 29)" "day_number 1972 2 1 = 761" "day_number 1972 3 1 = 790"
  by (simp add: utc_def) code_simp+


end
