(* ===== verification/Report.thy ===== *)
theory Report
  imports Fold Maintenance Schedule
begin

text \<open>
  Building a report (\<open>internal/core/reports.go\<close>, with the reads of \<open>internal/core/read.go\<close> and
  \<open>catalogue.go\<close>): the period asked for, the agreed time, the exclusions, the folded readings
  that serve as evidence, the calculation and the worst day and week inside the period. JSON
  columns are read by the decoders of \<open>codec\<close>.
\<close>

section \<open>Data\<close>

record codec =
  j_schedule :: "string \<Rightarrow> schedule option"
  j_credits :: "string \<Rightarrow> credit_band list option"

record monitor_ref =
  mr_id :: string
  mr_name :: string
  mr_version :: int
  mr_component :: string
  mr_interval :: int

record service_incident =
  si_id :: string
  si_service :: string
  si_title :: string
  si_impact :: string
  si_status :: string
  si_components :: "string list"
  si_opened :: int
  si_resolved :: int
  si_auto :: bool
  si_triggers :: "string list"

record alternate =
  alt_label :: string
  alt_from :: int
  alt_to :: int
  alt_ppm :: int

record report_request =
  rq_service :: string
  rq_window :: string
  rq_previous :: bool
  rq_from :: int
  rq_to :: int

record report =
  rp_instance :: string
  rp_tenant :: string
  rp_service :: string
  rp_service_name :: string
  rp_period :: period
  rp_generated :: int
  rp_image :: string
  rp_schedule :: string
  rp_schedule_version :: int
  rp_monitors :: "monitor_ref list"
  rp_output :: report_output
  rp_rollups :: "(string \<times> string) list"
  rp_outages :: "(outage \<times> string) list"
  rp_incidents :: "service_incident list"
  rp_alternates :: "alternate list"

datatype report_failure =
    NoAgreedTime string
  | BadScheduleText string
  | BadCreditsText string
  | BadPeriod schedule_error

section \<open>Reads\<close>

definition row_bytes :: "sql_row \<Rightarrow> string \<Rightarrow> string" where
  "row_bytes r col = (case r col of SStr s \<Rightarrow> s | _ \<Rightarrow> [])"

definition empty_schedule :: schedule where
  "empty_schedule =
     \<lparr>sc_id = [], sc_service = [], sc_name = [], sc_timezone = [], sc_version = 0, sc_windows = [],
      sc_exceptions = [], sc_created = 0, sc_updated = 0\<rparr>"

definition read_schedule :: "outside \<Rightarrow> codec \<Rightarrow> tables \<Rightarrow> string \<Rightarrow> report_failure + schedule option" where
  "read_schedule x cd t i =
     (case (if i = [] then None else row_at [(''id'', SStr i)] (t ''schedules'')) of
        None \<Rightarrow> Inr None
      | Some row \<Rightarrow>
          let raw = row_bytes row ''definition'' in
          (case (if length raw > 0 then j_schedule cd raw else Some empty_schedule) of
             None \<Rightarrow> Inl (BadScheduleText i)
           | Some s \<Rightarrow> Inr (Some (s\<lparr>sc_id := row_str (x_ftext x) row ''id'', sc_service := row_str (x_ftext x) row ''service_id'',
                                    sc_version := row_uint row ''version''\<rparr>))))"

definition list_components :: "outside \<Rightarrow> tables \<Rightarrow> string \<Rightarrow> component list" where
  "list_components x t service =
     map (component_from_row x)
       (sort_key (\<lambda>r. (row_int r ''sort_order'', row_str (x_ftext x) r ''name''))
          (filter (\<lambda>r. r ''service_id'' = SStr service) (t ''components'')))"

definition list_monitors :: "outside \<Rightarrow> tables \<Rightarrow> string \<Rightarrow> monitor list" where
  "list_monitors x t service =
     map (monitor_from_row x)
       (sort_key (\<lambda>r. row_str (x_ftext x) r ''name'')
          (filter (\<lambda>r. service \<noteq> [] \<longrightarrow> r ''service_id'' = SStr service) (t ''monitors'')))"

definition objective_from_row :: "outside \<Rightarrow> codec \<Rightarrow> sql_row \<Rightarrow> report_failure + objective" where
  "objective_from_row x cd r =
     (let s = row_str (x_ftext x) r; raw = row_bytes r ''credits'' in
      case (if length raw > 0 then j_credits cd raw else Some []) of
        None \<Rightarrow> Inl (BadCreditsText (s ''id''))
      | Some bands \<Rightarrow>
          Inr \<lparr>o_id = s ''id'', o_name = s ''name'', o_metric = s ''metric'', o_target = row_int r ''target_ppm'',
               o_window = s ''window_kind'', o_budget = row_int r ''latency_budget_ms'', o_credits = bands\<rparr>)"

fun all_of :: "('a \<Rightarrow> 'e + 'b) \<Rightarrow> 'a list \<Rightarrow> 'e + 'b list" where
  "all_of f [] = Inr []"
| "all_of f (a # as) =
     (case f a of Inl e \<Rightarrow> Inl e
      | Inr b \<Rightarrow> (case all_of f as of Inl e \<Rightarrow> Inl e | Inr bs \<Rightarrow> Inr (b # bs)))"

definition list_objectives :: "outside \<Rightarrow> codec \<Rightarrow> tables \<Rightarrow> string \<Rightarrow> report_failure + objective list" where
  "list_objectives x cd t service =
     all_of (objective_from_row x cd)
       (sort_key (\<lambda>r. row_str (x_ftext x) r ''name'')
          (filter (\<lambda>r. r ''service_id'' = SStr service) (t ''objectives'')))"

definition incident_from_row :: "outside \<Rightarrow> sql_row \<Rightarrow> service_incident" where
  "incident_from_row x r =
     (let s = row_str (x_ftext x) r in
      \<lparr>si_id = s ''id'', si_service = s ''service_id'', si_title = s ''title'', si_impact = s ''impact'',
       si_status = s ''status'', si_components = split_csv (s ''components''), si_opened = row_int r ''opened_at'',
       si_resolved = row_int r ''resolved_at'', si_auto = row_bool r ''auto'',
       si_triggers = split_csv (s ''trigger_samples'')\<rparr>)"

definition incidents_between :: "outside \<Rightarrow> tables \<Rightarrow> string \<Rightarrow> int \<Rightarrow> int \<Rightarrow> service_incident list" where
  "incidents_between x t service frm to =
     map (incident_from_row x)
       (sort_key (\<lambda>r. row_int r ''opened_at'')
          (filter (\<lambda>r. r ''service_id'' = SStr service \<and> sql_lt (r ''opened_at'') to \<and>
                     (r ''resolved_at'' = SInt 0 \<or> sql_gt (r ''resolved_at'') frm)) (t ''incidents'')))"

section \<open>The period\<close>

definition resolve_period :: "(string \<Rightarrow> zone option) \<Rightarrow> (zone \<Rightarrow> int \<Rightarrow> int) \<Rightarrow> (zone \<Rightarrow> int \<Rightarrow> int) \<Rightarrow> int \<Rightarrow>
    report_request \<Rightarrow> service \<Rightarrow> schedule_error + period" where
  "resolve_period zones rolling day_before now req svc =
     (if rq_from req > 0 \<and> rq_to req > rq_from req then
        Inr \<lparr>p_label = date_text (z_day utc (rq_from req)) @ '' to '' @ date_text (z_day utc (rq_to req)),
             p_from = rq_from req, p_to = rq_to req, p_timezone = svc_timezone svc\<rparr>
      else
        let window = (if rq_window req = [] then WindowCalendarMonth else rq_window req) in
        case period_of zones rolling window now (svc_timezone svc) of
          Inl e \<Rightarrow> Inl e
        | Inr p \<Rightarrow> if rq_previous req then previous_period zones rolling day_before p window (svc_timezone svc) else Inr p)"

section \<open>Exclusions\<close>

definition human_duration :: "int \<Rightarrow> string" where
  "human_duration s =
     (if s \<ge> 86400 then show_int (go_quot s 86400) @ '' days''
      else if s \<ge> 3600 then show_int (go_quot s 3600) @ '' hours''
      else if s \<ge> 60 then show_int (go_quot s 60) @ '' minutes''
      else show_int s @ '' seconds'')"

definition exclusion_reason :: "maintenance_window \<Rightarrow> service \<Rightarrow> string" where
  "exclusion_reason w svc =
     (if mw_excluded w then ''planned maintenance declared '' @ human_duration (mw_lead w) @ '' in advance''
      else if mw_class w \<noteq> ClassPlannedMaintenance then
        ''recorded as '' @ mw_class w @ ''; the agreement does not exclude it''
      else if mw_lead w < 0 then
        ''declared '' @ human_duration (i64 (- mw_lead w)) @ '' after it began, so it stays in the agreed service time''
      else ''declared '' @ human_duration (mw_lead w) @ '' ahead, short of the '' @ human_duration (svc_lead svc) @
        '' this service requires'')"

definition exclusion_of :: "service \<Rightarrow> maintenance_window \<Rightarrow> exclusion" where
  "exclusion_of svc w =
     \<lparr>x_window = mw_id w, x_class = mw_class w, x_title = mw_title w, x_declared = mw_declared w, x_lead = mw_lead w,
      x_from = mw_starts w, x_to = mw_ends w, x_seconds = 0, x_applied = mw_excluded w,
      x_reason = exclusion_reason w svc, x_txid = mw_txid w\<rparr>"

section \<open>Evidence\<close>

text \<open>One query of \<open>buckets\<close>: a service, a width, a range of starts, in order of start.\<close>

definition select_buckets :: "outside \<Rightarrow> tables \<Rightarrow> string \<Rightarrow> int \<Rightarrow> int \<Rightarrow> int \<Rightarrow> bucket list" where
  "select_buckets x t service width lo hi =
     map (bucket_from_row x)
       (sort_key (\<lambda>r. row_int r ''bucket_start'')
          (filter (\<lambda>r. r ''service_id'' = SStr service \<and> r ''width_seconds'' = SInt width \<and>
                     sql_gt (r ''bucket_start'') (lo - 1) \<and> sql_lt (r ''bucket_start'') hi) (t ''buckets'')))"

definition interesting :: "bucket \<Rightarrow> bool" where
  "interesting b \<longleftrightarrow> b_verdict b \<noteq> VerdictUp \<or> b_errors b > 0"

definition interesting_hours :: "bucket list \<Rightarrow> int \<Rightarrow> int \<Rightarrow> int list" where
  "interesting_hours hours frm to =
     sort (remdups (map b_start (filter interesting hours) @
       [floor_to WidthHour frm, floor_to WidthHour (i64 (to - 1))]))"

definition evidence_buckets :: "outside \<Rightarrow> tables \<Rightarrow> string \<Rightarrow> int \<Rightarrow> int \<Rightarrow> bucket list" where
  "evidence_buckets x t service frm to =
     (let hours = select_buckets x t service WidthHour (floor_to WidthHour frm) to;
          minutes = concat (map (\<lambda>h. select_buckets x t service WidthMinute h (i64 (h + WidthHour)))
            (interesting_hours hours frm to))
      in sort_key (\<lambda>b. (b_monitor b, b_width b, b_start b)) (hours @ minutes))"

section \<open>Incidents and alternates\<close>

definition incident_overlaps :: "outage \<Rightarrow> service_incident \<Rightarrow> bool" where
  "incident_overlaps ou inc \<longleftrightarrow>
     si_opened inc \<le> ou_to ou \<and> (si_resolved inc = 0 \<or> si_resolved inc \<ge> ou_from ou) \<and>
     ou_component ou \<in> set (si_components inc)"

definition attach_incidents :: "outage list \<Rightarrow> service_incident list \<Rightarrow> (outage \<times> string) list" where
  "attach_incidents outages incidents =
     map (\<lambda>ou. (ou, foldl (\<lambda>i inc. if incident_overlaps ou inc then si_id inc else i) [] incidents)) outages"

definition month_name :: "nat \<Rightarrow> string" where
  "month_name m =
     [''January'', ''February'', ''March'', ''April'', ''May'', ''June'', ''July'', ''August'', ''September'',
      ''October'', ''November'', ''December''] ! ((m - 1) mod 12)"

function sub_starts :: "int \<Rightarrow> int \<Rightarrow> int list" where
  "sub_starts start to = (if start < to then start # sub_starts (start + 86400) to else [])"
  by pat_completeness auto

termination
  by (relation "measure (\<lambda>(start, to). nat (to - start))") auto

declare sub_starts.simps [simp del]

definition sub_ppm :: "interval list \<Rightarrow> outage list \<Rightarrow> int \<Rightarrow> int \<Rightarrow> int option" where
  "sub_ppm scheduled outages start till =
     (let ast = total (intersect scheduled [Iv start till]);
          down = foldl (\<lambda>d ou. i64 (d + total (intersect [Iv (ou_from ou) (ou_to ou)] [Iv start till]))) 0 outages
      in if ast = 0 then None else Some (availability ast down))"

definition worse_window :: "interval list \<Rightarrow> outage list \<Rightarrow> int \<Rightarrow> int \<Rightarrow> int \<times> int \<times> int \<Rightarrow> int \<Rightarrow> int \<times> int \<times> int" where
  "worse_window scheduled outages span_size to best start =
     (let till = (if start + span_size > to then to else start + span_size) in
      case sub_ppm scheduled outages start till of
        None \<Rightarrow> best
      | Some ppm \<Rightarrow> if ppm < fst best then (ppm, start, till) else best)"

definition worst_of :: "interval list \<Rightarrow> outage list \<Rightarrow> zone \<Rightarrow> int \<Rightarrow> int \<Rightarrow> string \<times> int \<Rightarrow> alternate list" where
  "worst_of scheduled outages loc frm to sz =
     (if to - frm \<le> snd sz then []
      else case foldl (worse_window scheduled outages (snd sz) to) (PPM, 0, 0) (sub_starts frm to) of
        (worst, w_from, w_to) \<Rightarrow>
          if w_to > w_from then
            (case civil (z_day loc w_from) of (y, m, k) \<Rightarrow>
               [\<lparr>alt_label = fst sz @ '' ('' @ show_int (int k) @ '' '' @ month_name m @ '')'',
                 alt_from = w_from, alt_to = w_to, alt_ppm = worst\<rparr>])
          else [])"

definition worst_sub_periods :: "(string \<Rightarrow> zone option) \<Rightarrow> interval list \<Rightarrow> outage list \<Rightarrow> period \<Rightarrow> alternate list" where
  "worst_sub_periods zones scheduled outages p =
     (let loc = (case zones (p_timezone p) of Some z \<Rightarrow> z | None \<Rightarrow> utc) in
      if p_to p - p_from p \<le> 86400 then []
      else concat (map (worst_of scheduled outages loc (p_from p) (p_to p)) [(''worst day'', 86400), (''worst week'', 604800)]))"

section \<open>The report\<close>

definition monitor_ref_of :: "monitor \<Rightarrow> monitor_ref" where
  "monitor_ref_of m =
     \<lparr>mr_id = mon_id m, mr_name = mon_name m, mr_version = mon_version m, mr_component = mon_component m,
      mr_interval = mon_interval m\<rparr>"

definition component_input_of :: "bucket list \<Rightarrow> monitor list \<Rightarrow> component \<Rightarrow> component_input" where
  "component_input_of buckets monitors c =
     \<lparr>c_id = cmp_id c, c_name = cmp_name c, c_weight = cmp_weight c, c_rollup = cmp_rollup c,
      c_buckets = filter (\<lambda>b. b_component b = cmp_id c) buckets,
      c_monitors = map mon_id (filter (\<lambda>m. mon_component m = cmp_id c) monitors)\<rparr>"

definition report_input :: "outside \<Rightarrow> tables \<Rightarrow> service \<Rightarrow> period \<Rightarrow> interval list \<Rightarrow> objective list \<Rightarrow> input" where
  "report_input x t svc p scheduled objectives =
     \<lparr>in_period = p, in_scheduled = scheduled,
      in_exclusions = map (exclusion_of svc) (maintenance_between x t (svc_id svc) (p_from p) (p_to p)),
      in_components = map (component_input_of (evidence_buckets x t (svc_id svc) (p_from p) (p_to p)) (list_monitors x t (svc_id svc)))
        (list_components x t (svc_id svc)),
      in_floor = svc_coverage_floor svc, in_objectives = objectives\<rparr>"

definition build_report :: "outside \<Rightarrow> codec \<Rightarrow> (string \<Rightarrow> zone option) \<Rightarrow> string \<Rightarrow> string \<Rightarrow> int \<Rightarrow> tables \<Rightarrow> service \<Rightarrow>
    period \<Rightarrow> report_failure + (report \<times> bucket list)" where
  "build_report x cd zones instance_name img now t svc p =
     (case read_schedule x cd t (svc_schedule svc) of
        Inl e \<Rightarrow> Inl e
      | Inr None \<Rightarrow> Inl (NoAgreedTime (svc_id svc))
      | Inr (Some s) \<Rightarrow>
          (case expand zones s (p_from p) (p_to p) of
             Inl e \<Rightarrow> Inl (BadPeriod e)
           | Inr scheduled \<Rightarrow>
               (case list_objectives x cd t (svc_id svc) of
                  Inl e \<Rightarrow> Inl e
                | Inr objectives \<Rightarrow>
                    let inp = report_input x t svc p scheduled objectives;
                        out = compute inp;
                        incidents = incidents_between x t (svc_id svc) (p_from p) (p_to p)
                    in Inr (\<lparr>rp_instance = instance_name, rp_tenant = svc_tenant svc, rp_service = svc_id svc,
                             rp_service_name = svc_name svc, rp_period = p, rp_generated = now, rp_image = img,
                             rp_schedule = sc_id s, rp_schedule_version = sc_version s,
                             rp_monitors = map monitor_ref_of (list_monitors x t (svc_id svc)), rp_output = out,
                             rp_rollups = map (\<lambda>c. (cmp_id c, cmp_rollup c)) (list_components x t (svc_id svc)),
                             rp_outages = attach_incidents (out_outages out) incidents,
                             rp_incidents = incidents,
                             rp_alternates = worst_sub_periods zones scheduled (out_outages out) p\<rparr>,
                           evidence_buckets x t (svc_id svc) (p_from p) (p_to p)))))"


section \<open>The evidence says what the minutes say\<close>

definition stored_buckets :: "outside \<Rightarrow> tables \<Rightarrow> string \<Rightarrow> int \<Rightarrow> bucket list" where
  "stored_buckets x t service width =
     map (bucket_from_row x)
       (filter (\<lambda>r. r ''service_id'' = SStr service \<and> r ''width_seconds'' = SInt width \<and>
          (case r ''bucket_start'' of SInt j \<Rightarrow> in_i64 j | _ \<Rightarrow> False)) (t ''buckets''))"

lemma select_stored:
  assumes "0 \<le> lo" "hi \<le> 2 ^ 63"
  shows "set (select_buckets x t s w lo hi) = {b \<in> set (stored_buckets x t s w). lo \<le> b_start b \<and> b_start b < hi}"
proof -
  have start: "b_start (bucket_from_row x r) = i64 j" if "r ''bucket_start'' = SInt j" for r j
    using that by (simp add: bucket_from_row_def row_int_def as_int_def)
  have "(r ''service_id'' = SStr s \<and> r ''width_seconds'' = SInt w \<and> sql_gt (r ''bucket_start'') (lo - 1) \<and> sql_lt (r ''bucket_start'') hi) \<longleftrightarrow>
      (r ''service_id'' = SStr s \<and> r ''width_seconds'' = SInt w \<and> (case r ''bucket_start'' of SInt j \<Rightarrow> in_i64 j | _ \<Rightarrow> False)) \<and>
      lo \<le> b_start (bucket_from_row x r) \<and> b_start (bucket_from_row x r) < hi" for r
    using start [of r] assms by (cases "r ''bucket_start''") (auto simp: sql_gt_def sql_lt_def i64_id in_i64_def)
  then show ?thesis by (auto simp: select_buckets_def stored_buckets_def)
qed

lemma stored_width: "in_i64 w \<Longrightarrow> b \<in> set (stored_buckets x t s w) \<Longrightarrow> b_width b = w"
  by (auto simp: stored_buckets_def bucket_from_row_def row_int_def as_int_def i64_id)

text \<open>
  The register as the folder leaves it: one interval per monitor, width and aligned start; an
  hour is folded from sixty minutes, none of them down when it was uniformly up; and every
  minute between the first and the last hour of the period has been folded to its hour.
\<close>

definition same_series :: "bucket \<Rightarrow> bucket \<Rightarrow> bool" where
  "same_series a b \<longleftrightarrow> b_monitor a = b_monitor b \<and> b_component a = b_component b"

definition keyed :: "int \<Rightarrow> bucket list \<Rightarrow> bool" where
  "keyed w bs \<longleftrightarrow>
     (\<forall>a\<in>set bs. b_start a mod w = 0 \<and>
        (\<forall>b\<in>set bs. b_monitor a = b_monitor b \<and> b_start a = b_start b \<longrightarrow> a = b))"

definition hour_complete :: "bucket list \<Rightarrow> bucket \<Rightarrow> bool" where
  "hour_complete minutes h \<longleftrightarrow>
     (\<forall>k\<in>{0..59}. \<exists>b\<in>set minutes. same_series h b \<and> b_start b = b_start h + 60 * k \<and>
        (\<not> interesting h \<longrightarrow> bucket_observed b \<and> \<not> bucket_down b)) \<and>
     (\<not> interesting h \<longrightarrow> bucket_observed h)"

definition fully_folded :: "outside \<Rightarrow> tables \<Rightarrow> string \<Rightarrow> int \<Rightarrow> int \<Rightarrow> bool" where
  "fully_folded x t service frm to \<longleftrightarrow>
     (let minutes = stored_buckets x t service WidthMinute; hours = stored_buckets x t service WidthHour
      in keyed WidthMinute minutes \<and> keyed WidthHour hours \<and>
         (\<forall>h\<in>set hours. hour_complete minutes h) \<and>
         (\<forall>b\<in>set minutes.
            b_start b < to \<and> b_start b div 3600 \<notin> {frm div 3600, (to - 1) div 3600} \<and> frm \<le> b_start b \<longrightarrow>
            (\<exists>h\<in>set hours. same_series b h \<and> b_start h = 3600 * (b_start b div 3600))))"

lemma floor_to_div: "0 \<le> t \<Longrightarrow> 0 < w \<Longrightarrow> floor_to w t = w * (t div w)"
  by (simp add: floor_to_def)

lemma find_sorted:
  "sorted (map f xs) \<Longrightarrow> find P xs = Some b \<Longrightarrow> b \<in> set xs \<and> P b \<and> (\<forall>b'\<in>set xs. P b' \<longrightarrow> f b \<le> f b')"
  by (induction xs) (auto split: if_splits)

lemma speaker_Some:
  assumes "speaker bs u = Some b"
  shows "b \<in> set bs" "covers u b" "\<And>b'. b' \<in> set bs \<Longrightarrow> covers u b' \<Longrightarrow> (b_width b, b_start b) \<le> (b_width b', b_start b')"
  using find_sorted [of "\<lambda>b. (b_width b, b_start b)" "ordered_buckets bs" "covers u" b] assms
  by (auto simp: speaker_def ordered_buckets_def)

lemma speaker_None: "speaker bs u = None \<longleftrightarrow> (\<forall>b\<in>set bs. \<not> covers u b)"
  by (auto simp: speaker_def ordered_buckets_def find_None_iff)

lemma speaker_is:
  assumes "b \<in> set bs" "covers u b" "\<And>b'. b' \<in> set bs \<Longrightarrow> covers u b' \<Longrightarrow> b' = b \<or> b_width b < b_width b'"
  shows "speaker bs u = Some b"
proof (cases "speaker bs u")
  case None
  then show ?thesis using assms(1,2) by (auto simp: speaker_None)
next
  case (Some a)
  then show ?thesis using speaker_Some [OF Some] speaker_Some(3) [OF Some assms(1,2)] assms(3) [of a] by auto
qed

lemma covers_aligned:
  assumes "b_start b mod b_width b = 0" "0 < b_width b" "b_width b \<le> 3600" "0 \<le> b_start b" "b_start b \<le> 2 ^ 62 + 3600"
  shows "covers u b \<longleftrightarrow> b_start b = b_width b * (u div b_width b)"
proof -
  have e: "bucket_end b = b_start b + b_width b" using assms by (simp add: bucket_end_def i64_id in_i64_def)
  obtain k where k: "b_start b = b_width b * k" using assms(1) by (metis mult_div_mod_eq add.right_neutral)
  have "b_start b \<le> u \<and> u < b_start b + b_width b \<longleftrightarrow> u div b_width b = k"
  proof
    assume "b_start b \<le> u \<and> u < b_start b + b_width b"
    then show "u div b_width b = k" unfolding k by (intro int_div_pos_eq [where r = "u - b_width b * k"]) auto
  next
    assume u: "u div b_width b = k"
    show "b_start b \<le> u \<and> u < b_start b + b_width b"
      using mult_div_mod_eq [of "b_width b" u] pos_mod_bound [OF assms(2), of u] pos_mod_sign [OF assms(2), of u]
      unfolding k u by linarith
  qed
  then show ?thesis using assms(2) e k by (auto simp: covers_def)
qed

lemma map_filter_same:
  assumes "distinct xs" "distinct ys" "\<And>m. f m \<noteq> None \<Longrightarrow> m \<in> set xs" "\<And>m. g m \<noteq> None \<Longrightarrow> m \<in> set ys"
    and "\<And>m. map_option r (f m) = map_option r (g m)"
  shows "mset (map r (List.map_filter f xs)) = mset (map r (List.map_filter g ys))"
proof -
  define F where "F = (\<lambda>m. map_option r (f m))"
  have F: "F = (\<lambda>m. map_option r (g m))" by (auto simp: F_def assms(5))
  have f: "map r (List.map_filter f zs) = map (\<lambda>m. the (F m)) (filter (\<lambda>m. F m \<noteq> None) zs)" for zs
    unfolding F_def by (induction zs) (auto simp: List.map_filter_simps split: option.splits)
  have g: "map r (List.map_filter g zs) = map (\<lambda>m. the (F m)) (filter (\<lambda>m. F m \<noteq> None) zs)" for zs
    unfolding F by (induction zs) (auto simp: List.map_filter_simps split: option.splits)
  have "F m \<noteq> None \<Longrightarrow> m \<in> set xs" "F m \<noteq> None \<Longrightarrow> m \<in> set ys" for m
    using assms(3) [of m] assms(4) [of m] assms(5) [of m] by (auto simp: F_def)
  then have "set (filter (\<lambda>m. F m \<noteq> None) xs) = set (filter (\<lambda>m. F m \<noteq> None) ys)" by auto
  then have "mset (filter (\<lambda>m. F m \<noteq> None) xs) = mset (filter (\<lambda>m. F m \<noteq> None) ys)"
    using assms(1,2) by (metis distinct_filter mset_set_set)
  then show ?thesis unfolding f g by (simp only: mset_map)
qed

lemma width_values: "WidthMinute = 60" "WidthHour = 3600"
  by (simp_all add: WidthMinute_def WidthHour_def)

definition stored_minutes :: "outside \<Rightarrow> tables \<Rightarrow> string \<Rightarrow> bucket set" where
  "stored_minutes x t s = set (stored_buckets x t s WidthMinute)"

definition stored_hours :: "outside \<Rightarrow> tables \<Rightarrow> string \<Rightarrow> bucket set" where
  "stored_hours x t s = set (stored_buckets x t s WidthHour)"

lemma stored_widths: "b \<in> stored_minutes x t s \<Longrightarrow> b_width b = 60" "b \<in> stored_hours x t s \<Longrightarrow> b_width b = 3600"
  using stored_width [of 60 b x t s] stored_width [of 3600 b x t s]
  by (simp_all add: stored_minutes_def stored_hours_def in_i64_def width_values)

lemma floor_around:
  "0 < w \<Longrightarrow> w * (t div w) \<le> t" "0 < w \<Longrightarrow> t < w * (t div w) + w" "0 \<le> t \<Longrightarrow> 0 < w \<Longrightarrow> 0 \<le> w * (t div w)" for t w :: int
  using pos_mod_sign [of w t] pos_mod_bound [of w t] mult_div_mod_eq [of w t] by (linarith, linarith, simp add: pos_imp_zdiv_nonneg_iff)

text \<open>The hour and the minute of an instant.\<close>

definition hour_of :: "int \<Rightarrow> int" where "hour_of u = 3600 * (u div 3600)"
definition minute_of :: "int \<Rightarrow> int" where "minute_of u = 60 * (u div 60)"

lemma hour_mono: "t \<le> u \<Longrightarrow> hour_of t \<le> hour_of u"
  by (simp add: hour_of_def zdiv_mono1)

lemma hour_around: "hour_of t \<le> t" "t < hour_of t + 3600" "0 \<le> t \<Longrightarrow> 0 \<le> hour_of t"
  by (simp_all add: hour_of_def floor_around)

lemma hour_of_minute: "hour_of (minute_of u) = hour_of u"
  using zdiv_zmult2_eq [of 60 u 60] div_mult_mult1 [of 60 "u div 60" "60 :: int"]
  by (simp add: hour_of_def minute_of_def)

lemma minute_in_hour:
  "hour_of u \<le> minute_of u" "minute_of u \<le> u" "(minute_of u - hour_of u) div 60 \<in> {0..59}"
  "hour_of u + 60 * ((minute_of u - hour_of u) div 60) = minute_of u"
proof -
  define a b where "a = u div 60" and "b = a div 60"
  have h: "hour_of u = 60 * (60 * b)" "minute_of u = 60 * a"
    using zdiv_zmult2_eq [of 60 u 60] by (simp_all add: hour_of_def minute_of_def a_def b_def)
  have ab: "60 * b \<le> a" "a < 60 * b + 60" using floor_around(1,2) [of 60 a] by (simp_all add: b_def)
  have d: "(minute_of u - hour_of u) div 60 = a - 60 * b" unfolding h by (simp add: right_diff_distrib [symmetric])
  show "hour_of u \<le> minute_of u" using ab h by simp
  show "minute_of u \<le> u" using floor_around(1) [of 60 u] by (simp add: minute_of_def)
  show "(minute_of u - hour_of u) div 60 \<in> {0..59}" using ab by (simp add: d)
  show "hour_of u + 60 * ((minute_of u - hour_of u) div 60) = minute_of u" by (simp only: d) (simp add: h)
qed

lemma hour_of_aligned: "b mod 3600 = 0 \<Longrightarrow> hour_of b = b"
  by (simp add: hour_of_def mult_div_mod_eq minus_mod_eq_mult_div [symmetric])

lemma in_hour: "i mod 3600 = 0 \<Longrightarrow> i \<le> t \<and> t < i + 3600 \<longleftrightarrow> hour_of t = i"
proof -
  assume "i mod 3600 = 0"
  then obtain k where k: "i = 3600 * k" by (metis mult_div_mod_eq add.right_neutral)
  show ?thesis
  proof
    assume "i \<le> t \<and> t < i + 3600"
    then have "t div 3600 = k" unfolding k by (intro int_div_pos_eq [where r = "t - 3600 * k"]) auto
    then show "hour_of t = i" by (simp add: hour_of_def k)
  qed (use hour_around(1,2) [of t] in auto)
qed

lemma floor_hour: "0 \<le> t \<Longrightarrow> floor_to WidthHour t = hour_of t"
  by (simp add: floor_to_div hour_of_def width_values)

definition read_hours :: "outside \<Rightarrow> tables \<Rightarrow> string \<Rightarrow> int \<Rightarrow> int \<Rightarrow> bucket list" where
  "read_hours x t s frm to = select_buckets x t s WidthHour (floor_to WidthHour frm) to"

definition read_minutes :: "outside \<Rightarrow> tables \<Rightarrow> string \<Rightarrow> int \<Rightarrow> int \<Rightarrow> bucket list" where
  "read_minutes x t s frm to =
     select_buckets x t s WidthMinute (floor_to WidthHour frm) (floor_to WidthHour (to - 1) + WidthHour)"

definition hot :: "outside \<Rightarrow> tables \<Rightarrow> string \<Rightarrow> int \<Rightarrow> int \<Rightarrow> int set" where
  "hot x t s frm to = set (interesting_hours (read_hours x t s frm to) frm to)"

abbreviation in_range :: "int \<Rightarrow> int \<Rightarrow> bool" where
  "in_range frm to \<equiv> 0 \<le> frm \<and> frm < to \<and> to \<le> 2 ^ 62"

lemma read_hours_set:
  "in_range frm to \<Longrightarrow> set (read_hours x t s frm to) = {h \<in> stored_hours x t s. hour_of frm \<le> b_start h \<and> b_start h < to}"
  using hour_around(3) [of frm] by (simp add: read_hours_def select_stored floor_hour stored_hours_def)

lemma read_minutes_set:
  assumes "in_range frm to"
  shows "set (read_minutes x t s frm to) =
     {b \<in> stored_minutes x t s. hour_of frm \<le> b_start b \<and> b_start b < hour_of (to - 1) + 3600}"
proof -
  have f: "floor_to WidthHour frm = hour_of frm" "floor_to WidthHour (to - 1) = hour_of (to - 1)"
    using assms by (simp_all add: floor_hour)
  show ?thesis using assms hour_around(3) [of frm] hour_around(1) [of "to - 1"]
    unfolding read_minutes_def f stored_minutes_def by (subst select_stored) (simp_all add: WidthHour_def)
qed

lemma hot_iff:
  "in_range frm to \<Longrightarrow> h \<in> hot x t s frm to \<longleftrightarrow>
     h = hour_of frm \<or> h = hour_of (to - 1) \<or> (\<exists>b\<in>set (read_hours x t s frm to). interesting b \<and> b_start b = h)"
  by (auto simp: hot_def interesting_hours_def floor_hour i64_id in_i64_def)

lemma hot_range:
  assumes "in_range frm to" "keyed 3600 (stored_buckets x t s 3600)" "h \<in> hot x t s frm to"
  shows "h mod 3600 = 0 \<and> 0 \<le> h \<and> h \<le> to"
proof -
  have "0 \<le> hour_of frm" "hour_of frm \<le> to" "0 \<le> hour_of (to - 1)" "hour_of (to - 1) \<le> to"
    using assms(1) hour_around [of frm] hour_around [of "to - 1"] by auto
  then show ?thesis using assms read_hours_set [OF assms(1), of x t s]
    by (auto simp: hot_iff keyed_def stored_hours_def hour_of_def width_values)
qed

lemma evidence_set:
  assumes range: "in_range frm to" and keyed: "keyed 3600 (stored_buckets x t s 3600)"
  shows "set (evidence_buckets x t s frm to) = set (read_hours x t s frm to) \<union>
      {b \<in> stored_minutes x t s. hour_of (b_start b) \<in> hot x t s frm to}"
proof -
  have one: "set (select_buckets x t s WidthMinute i (i64 (i + WidthHour))) = {b \<in> stored_minutes x t s. hour_of (b_start b) = i}"
    if i: "i \<in> hot x t s frm to" for i
  proof -
    have k: "i mod 3600 = 0" "0 \<le> i" "i \<le> 2 ^ 62" using hot_range [OF assms i] range by auto
    then have "i64 (i + WidthHour) = i + 3600" by (simp add: i64_id in_i64_def width_values)
    then show ?thesis using k in_hour [OF k(1)] by (simp add: select_stored stored_minutes_def)
  qed
  have "set (evidence_buckets x t s frm to) = set (read_hours x t s frm to) \<union>
      (\<Union>i\<in>hot x t s frm to. set (select_buckets x t s WidthMinute i (i64 (i + WidthHour))))"
    by (simp add: evidence_buckets_def Let_def read_hours_def hot_def)
  then show ?thesis using one by auto
qed

definition reading_of :: "bucket list \<Rightarrow> string \<Rightarrow> string \<Rightarrow> int \<Rightarrow> (bool \<times> bool) option" where
  "reading_of bs c m u =
     map_option (\<lambda>b. (bucket_observed b, bucket_down b)) (speaker (buckets_of (filter (\<lambda>b. b_component b = c) bs) m) u)"

lemma in_buckets_of: "b \<in> set (buckets_of (filter (\<lambda>b. b_component b = c) bs) m) \<longleftrightarrow> b \<in> set bs \<and> b_component b = c \<and> b_monitor b = m"
  by (auto simp: buckets_of_def)

lemma reading_of_is:
  assumes "b \<in> set bs" "covers u b" "b_component b = c" "b_monitor b = m"
    and "\<And>a. a \<in> set bs \<Longrightarrow> covers u a \<Longrightarrow> b_monitor a = m \<Longrightarrow> a = b \<or> b_width b < b_width a"
  shows "reading_of bs c m u = Some (bucket_observed b, bucket_down b)"
proof -
  have "speaker (buckets_of (filter (\<lambda>b. b_component b = c) bs) m) u = Some b"
    using assms by (intro speaker_is) (auto simp: in_buckets_of)
  then show ?thesis by (simp add: reading_of_def)
qed

lemma reading_of_none:
  "(\<And>a. a \<in> set bs \<Longrightarrow> b_component a = c \<Longrightarrow> b_monitor a = m \<Longrightarrow> \<not> covers u a) \<Longrightarrow> reading_of bs c m u = None"
  by (simp add: reading_of_def speaker_None in_buckets_of)

lemma covers_minute:
  assumes "keyed 60 (stored_buckets x t s 60)" "b \<in> stored_minutes x t s" "0 \<le> b_start b" "b_start b \<le> 2 ^ 62 + 3600"
  shows "covers u b \<longleftrightarrow> b_start b = minute_of u"
  using covers_aligned [of b u] stored_widths(1) [OF assms(2)] assms
  by (simp add: keyed_def stored_minutes_def minute_of_def width_values)

lemma covers_hour:
  assumes "keyed 3600 (stored_buckets x t s 3600)" "in_range frm to" "h \<in> set (read_hours x t s frm to)"
  shows "covers u h \<longleftrightarrow> b_start h = hour_of u"
proof -
  have "h \<in> stored_hours x t s" "0 \<le> b_start h" "b_start h \<le> 2 ^ 62 + 3600"
    using assms hour_around(3) [of frm] by (auto simp: read_hours_set)
  then show ?thesis using covers_aligned [of h u] stored_widths(2) [of h x t s] assms(1)
    by (simp add: keyed_def stored_hours_def hour_of_def width_values)
qed

lemma evidence_covering:
  assumes keyed: "keyed 60 (stored_buckets x t s 60)" "keyed 3600 (stored_buckets x t s 3600)" and range: "in_range frm to"
    and b: "b \<in> set (evidence_buckets x t s frm to)" "covers u b"
  shows "b \<in> stored_minutes x t s \<and> b_start b = minute_of u \<and> hour_of u \<in> hot x t s frm to \<or>
    b \<in> stored_hours x t s \<and> b \<in> set (read_hours x t s frm to) \<and> b_start b = hour_of u"
proof (cases "b \<in> set (read_hours x t s frm to)")
  case True
  then show ?thesis using covers_hour [OF keyed(2) range True] b(2) read_hours_set [OF range] by simp
next
  case False
  then have m: "b \<in> stored_minutes x t s" "hour_of (b_start b) \<in> hot x t s frm to"
    using b evidence_set [OF range keyed(2)] by auto
  then have "0 \<le> hour_of (b_start b)" "hour_of (b_start b) \<le> to" using hot_range [OF range keyed(2)] by auto
  then have "0 \<le> b_start b" "b_start b \<le> 2 ^ 62 + 3600" using hour_around(1,2) [of "b_start b"] range by linarith+
  then have "b_start b = minute_of u" using covers_minute [OF keyed(1) m(1)] b(2) by simp
  then show ?thesis using m hour_of_minute by simp
qed

lemma same_bucket:
  assumes "keyed w (stored_buckets x t s w)" "a \<in> set (stored_buckets x t s w)" "b \<in> set (stored_buckets x t s w)"
    "b_monitor a = b_monitor b" "b_start a = b_start b"
  shows "a = b"
  using assms by (auto simp: keyed_def)

lemma minutes_reading:
  assumes keyed: "keyed 60 (stored_buckets x t s 60)" and range: "in_range frm to" and u: "frm \<le> u" "u < to"
    and b: "b \<in> stored_minutes x t s" "b_component b = c" "b_monitor b = m" "b_start b = minute_of u"
  shows "covers u b" "reading_of (read_minutes x t s frm to) c m u = Some (bucket_observed b, bucket_down b)"
proof -
  have h: "0 \<le> hour_of frm" "hour_of frm \<le> hour_of u" "hour_of u \<le> hour_of (to - 1)" "hour_of (to - 1) \<le> to - 1"
    "hour_of u \<le> minute_of u" "minute_of u \<le> u" "u < hour_of u + 3600"
    using range u hour_around(3) [of frm] hour_around(1) [of "to - 1"] hour_around(2) [of u] minute_in_hour(1,2) [of u]
      hour_mono [of frm u] hour_mono [of u "to - 1"] by simp_all
  show cov: "covers u b" using covers_minute [OF keyed b(1), of u] b(4) h u range by simp
  have "b \<in> set (read_minutes x t s frm to)" using b(1,4) h by (simp add: read_minutes_set [OF range])
  moreover have "a = b" if a: "a \<in> set (read_minutes x t s frm to)" "covers u a" "b_monitor a = m" for a
  proof -
    have "a \<in> stored_minutes x t s" "0 \<le> b_start a" "b_start a \<le> 2 ^ 62 + 3600"
      using a(1) h range by (auto simp: read_minutes_set)
    then have "b_start a = minute_of u" using covers_minute [OF keyed, of a u] a(2) by blast
    then show "a = b"
      using same_bucket [OF keyed, of a b] a(3) b \<open>a \<in> stored_minutes x t s\<close> by (simp add: stored_minutes_def width_values)
  qed
  ultimately show "reading_of (read_minutes x t s frm to) c m u = Some (bucket_observed b, bucket_down b)"
    by (intro reading_of_is [OF _ cov b(2,3)]) simp_all
qed

lemma fully_folded_parts:
  assumes "fully_folded x t s frm to"
  shows "keyed 60 (stored_buckets x t s 60)" "keyed 3600 (stored_buckets x t s 3600)"
    "h \<in> stored_hours x t s \<Longrightarrow> hour_complete (stored_buckets x t s 60) h"
    "b \<in> stored_minutes x t s \<Longrightarrow> b_start b < to \<Longrightarrow> frm \<le> b_start b \<Longrightarrow>
       hour_of (b_start b) \<noteq> hour_of frm \<Longrightarrow> hour_of (b_start b) \<noteq> hour_of (to - 1) \<Longrightarrow>
       \<exists>h\<in>stored_hours x t s. same_series b h \<and> b_start h = hour_of (b_start b)"
  using assms by (auto simp: fully_folded_def Let_def stored_minutes_def stored_hours_def width_values hour_of_def)

lemma hour_has_minute:
  assumes full: "fully_folded x t s frm to" and h: "h \<in> stored_hours x t s" "b_start h = hour_of u"
  shows "\<exists>b\<in>stored_minutes x t s. same_series h b \<and> b_start b = minute_of u \<and> (\<not> interesting h \<longrightarrow> bucket_observed b \<and> \<not> bucket_down b)"
proof -
  have "\<forall>k\<in>{0..59}. \<exists>b\<in>stored_minutes x t s. same_series h b \<and> b_start b = b_start h + 60 * k \<and>
      (\<not> interesting h \<longrightarrow> bucket_observed b \<and> \<not> bucket_down b)"
    using fully_folded_parts(3) [OF full h(1)] by (simp add: hour_complete_def stored_minutes_def width_values)
  from bspec [OF this minute_in_hour(3) [of u]] show ?thesis unfolding h(2) minute_in_hour(4) .
qed

lemma cold_hour:
  assumes full: "fully_folded x t s frm to" and range: "in_range frm to" and u: "frm \<le> u" "u < to"
    and b: "b \<in> stored_minutes x t s" "b_start b = minute_of u" and cold: "hour_of u \<notin> hot x t s frm to"
  shows "\<exists>h\<in>set (read_hours x t s frm to). same_series b h \<and> b_start h = hour_of u \<and> \<not> interesting h \<and>
    bucket_observed h \<and> \<not> bucket_down h \<and> bucket_observed b \<and> \<not> bucket_down b"
proof -
  note parts = fully_folded_parts [OF full]
  have ne: "hour_of u \<noteq> hour_of frm" "hour_of u \<noteq> hour_of (to - 1)" using cold by (auto simp: hot_iff [OF range])
  then have "hour_of frm < hour_of u" using hour_mono [of frm u] u by simp
  then have "frm \<le> b_start b" "b_start b < to"
    using b(2) minute_in_hour(1,2) [of u] hour_around [of frm] u in_hour [of "hour_of frm" "hour_of u"] hour_of_aligned [of "hour_of u"]
    by (auto simp: hour_of_def)
  then obtain h where h: "h \<in> stored_hours x t s" "same_series b h" "b_start h = hour_of u"
    using parts(4) [OF b(1)] ne b(2) hour_of_minute by auto
  have hin: "h \<in> set (read_hours x t s frm to)"
    using h hour_mono [of frm u] u hour_around(1) [of u] by (simp add: read_hours_set [OF range])
  have calm: "\<not> interesting h" using cold hin h by (auto simp: hot_iff [OF range])
  obtain b' where b': "b' \<in> stored_minutes x t s" "same_series h b'" "b_start b' = minute_of u" "bucket_observed b'" "\<not> bucket_down b'"
    using hour_has_minute [OF full h(1,3)] calm by blast
  then have "b' = b" using same_bucket [OF parts(1), of b' b] b h(2) by (simp add: same_series_def stored_minutes_def width_values)
  moreover have "bucket_observed h" "\<not> bucket_down h"
    using parts(3) [OF h(1)] calm by (auto simp: hour_complete_def interesting_def bucket_down_def)
  ultimately show ?thesis using h hin calm b' by blast
qed

lemma evidence_reading:
  assumes full: "fully_folded x t s frm to" and range: "in_range frm to" and u: "frm \<le> u" "u < to"
  shows "reading_of (evidence_buckets x t s frm to) c m u = reading_of (read_minutes x t s frm to) c m u"
proof (cases "\<exists>b\<in>stored_minutes x t s. b_component b = c \<and> b_monitor b = m \<and> b_start b = minute_of u")
  case True
  note parts = fully_folded_parts [OF full]
  from True obtain b where b: "b \<in> stored_minutes x t s" "b_component b = c" "b_monitor b = m" "b_start b = minute_of u" by blast
  note r = minutes_reading [OF parts(1) range u b]
  note cover = evidence_covering [OF parts(1,2) range]
  show ?thesis
  proof (cases "hour_of u \<in> hot x t s frm to")
    case hot: True
    have "a = b \<or> b_width b < b_width a" if a: "a \<in> set (evidence_buckets x t s frm to)" "covers u a" "b_monitor a = m" for a
      using cover [OF a(1,2)] a(3) same_bucket [OF parts(1), of a b] b stored_widths(1) [OF b(1)] stored_widths(2) [of a x t s]
      by (auto simp: stored_minutes_def width_values)
    moreover have "b \<in> set (evidence_buckets x t s frm to)"
      using b hot hour_of_minute [of u] by (simp add: evidence_set [OF range parts(2)])
    ultimately have "reading_of (evidence_buckets x t s frm to) c m u = Some (bucket_observed b, bucket_down b)"
      using b r(1) by (intro reading_of_is)
    with r(2) show ?thesis by simp
  next
    case cold: False
    obtain h where h: "h \<in> set (read_hours x t s frm to)" "same_series b h" "b_start h = hour_of u"
      "bucket_observed h" "\<not> bucket_down h" "bucket_observed b" "\<not> bucket_down b"
      using cold_hour [OF full range u b(1,4) cold] by blast
    have hs: "h \<in> stored_hours x t s" using h(1) by (simp add: read_hours_set [OF range])
    have "a = h \<or> b_width h < b_width a" if a: "a \<in> set (evidence_buckets x t s frm to)" "covers u a" "b_monitor a = m" for a
      using cover [OF a(1,2)] a(3) cold same_bucket [OF parts(2), of a h] h(2,3) hs b(3)
      by (auto simp: stored_hours_def same_series_def width_values)
    moreover have "covers u h" using covers_hour [OF parts(2) range h(1)] h(3) by simp
    ultimately have "reading_of (evidence_buckets x t s frm to) c m u = Some (bucket_observed h, bucket_down h)"
      using h b by (intro reading_of_is) (auto simp: same_series_def evidence_set [OF range parts(2)])
    with r(2) h show ?thesis by simp
  qed
next
  case False
  note parts = fully_folded_parts [OF full]
  have "reading_of (evidence_buckets x t s frm to) c m u = None"
  proof (rule reading_of_none)
    fix a assume a: "a \<in> set (evidence_buckets x t s frm to)" "b_component a = c" "b_monitor a = m"
    show "\<not> covers u a"
    proof
      assume "covers u a"
      then have "a \<in> stored_hours x t s" "b_start a = hour_of u"
        using evidence_covering [OF parts(1,2) range a(1)] False a by auto
      then show False using hour_has_minute [OF full, of a u] False a by (auto simp: same_series_def)
    qed
  qed
  moreover have "reading_of (read_minutes x t s frm to) c m u = None"
  proof (rule reading_of_none)
    fix a assume a: "a \<in> set (read_minutes x t s frm to)" "b_component a = c" "b_monitor a = m"
    then have s: "a \<in> stored_minutes x t s" "0 \<le> b_start a" "b_start a \<le> 2 ^ 62 + 3600"
      using hour_around(3) [of frm] hour_around(1) [of "to - 1"] range by (auto simp: read_minutes_set)
    show "\<not> covers u a" using covers_minute [OF parts(1) s] False a s by auto
  qed
  ultimately show ?thesis by simp
qed

lemma component_readings_same:
  assumes "\<And>m. reading_of xs c m u = reading_of ys c m u"
  shows "mset (component_readings (monitor_ids (filter (\<lambda>b. b_component b = c) xs)) (filter (\<lambda>b. b_component b = c) xs) u) =
    mset (component_readings (monitor_ids (filter (\<lambda>b. b_component b = c) ys)) (filter (\<lambda>b. b_component b = c) ys) u)"
proof -
  have known: "m \<in> set (monitor_ids bs)" if k: "speaker (buckets_of bs m) u \<noteq> None" for m bs
  proof -
    obtain b where "b \<in> set bs" "b_monitor b = m" using k unfolding speaker_None by (auto simp: buckets_of_def)
    then show ?thesis by (auto simp: monitor_ids_def)
  qed
  show ?thesis unfolding component_readings_def
    by (rule map_filter_same [OF _ _ known known]) (use assms in \<open>simp_all add: monitor_ids_def reading_of_def\<close>)
qed

lemma component_series_same:
  assumes "\<And>m u. frm \<le> u \<Longrightarrow> u < to \<Longrightarrow> reading_of xs (cmp_id c) m u = reading_of ys (cmp_id c) m u"
  shows "clip (fst (component_series (component_input_of xs ms c))) frm to =
      clip (fst (component_series (component_input_of ys ms c))) frm to \<and>
    clip (snd (component_series (component_input_of xs ms c))) frm to =
      clip (snd (component_series (component_input_of ys ms c))) frm to"
proof -
  let ?R = "\<lambda>bs u. component_readings (monitor_ids (c_buckets (component_input_of bs ms c))) (c_buckets (component_input_of bs ms c)) u"
  have r: "mset (?R xs u) = mset (?R ys u)" if "frm \<le> u" "u < to" for u
    using component_readings_same [OF assms [OF that]] by (simp add: component_input_of_def)
  have roll: "c_rollup (component_input_of bs ms c) = cmp_rollup c" for bs by (simp add: component_input_of_def)
  have "comp_down_at (component_input_of xs ms c) u \<longleftrightarrow> comp_down_at (component_input_of ys ms c) u"
    "comp_seen_at (component_input_of xs ms c) u \<longleftrightarrow> comp_seen_at (component_input_of ys ms c) u" if "frm \<le> u" "u < to" for u
    using at_mset [OF r [OF that]] unfolding comp_down_at_def comp_seen_at_def roll by simp_all
  then show ?thesis
    by (intro conjI normal_unique) (auto simp: component_series_points)
qed

text \<open>
  Claim C2. Reading hours, and minutes only where an hour was not uniformly up, loses
  nothing when no minute is missing: if every stored hour has its sixty minutes and every
  inner minute has its hour, a component is down, and observed, over exactly the intervals
  that the minutes alone give.\<close>

theorem evidence_is_minute_exact:
  assumes "fully_folded x t s frm to" "in_range frm to"
  shows "clip (fst (component_series (component_input_of (evidence_buckets x t s frm to) ms c))) frm to =
      clip (fst (component_series (component_input_of (read_minutes x t s frm to) ms c))) frm to \<and>
    clip (snd (component_series (component_input_of (evidence_buckets x t s frm to) ms c))) frm to =
      clip (snd (component_series (component_input_of (read_minutes x t s frm to) ms c))) frm to"
  using evidence_reading [OF assms] by (intro component_series_same)

definition stored_row :: "int \<Rightarrow> int \<Rightarrow> int \<Rightarrow> int \<Rightarrow> sql_row" where
  "stored_row width start ups downs =
     null_row(''monitor_id'' := SStr ''m'', ''component_id'' := SStr ''api'', ''service_id'' := SStr ''shop'',
       ''bucket_start'' := SInt start, ''width_seconds'' := SInt width, ''up_count'' := SInt ups,
       ''down_count'' := SInt downs, ''verdict'' := SStr (if downs > 0 then Down else Up))"

text \<open>Three hours with every minute read; the minute that starts at 4200 failed.\<close>

definition dense_tables :: tables where
  "dense_tables = (\<lambda>_. [])(''buckets'' :=
     map (\<lambda>k. stored_row 60 (60 * k) (if k = 70 then 0 else 1) (if k = 70 then 1 else 0)) [0..179] @
     map (\<lambda>h. stored_row 3600 (3600 * h) (if h = 1 then 59 else 60) (if h = 1 then 1 else 0)) [0..2])"

definition sample_api :: component where
  "sample_api =
     \<lparr>cmp_id = ''api'', cmp_service = ''shop'', cmp_parent = [], cmp_name = ''API'', cmp_description = [], cmp_weight = 1,
      cmp_rollup = RollupAny, cmp_position = 0, cmp_showcase = False, cmp_created = 0, cmp_updated = 0\<rparr>"

definition stored_bucket :: "int \<Rightarrow> int \<Rightarrow> int \<Rightarrow> int \<Rightarrow> bucket" where
  "stored_bucket width start ups downs =
     \<lparr>b_monitor = ''m'', b_component = ''api'', b_service = ''shop'', b_start = start, b_width = width, b_up = ups,
      b_degraded = 0, b_down = downs, b_errors = 0, b_maint = 0, b_p50 = 0, b_p95 = 0, b_max = 0,
      b_verdict = (if downs > 0 then Down else Up)\<rparr>"

lemma bucket_from_stored_row:
  "in_i64 width \<Longrightarrow> in_i64 start \<Longrightarrow> in_i64 ups \<Longrightarrow> in_i64 downs \<Longrightarrow>
     bucket_from_row x (stored_row width start ups downs) = stored_bucket width start ups downs"
  by (simp add: bucket_from_row_def stored_row_def stored_bucket_def row_int_def row_str_def as_int_def null_row_def i64_id)

lemma dense_stored:
  "set (stored_buckets x dense_tables ''shop'' 60) =
     (\<lambda>k. stored_bucket 60 (60 * k) (if k = 70 then 0 else 1) (if k = 70 then 1 else 0)) ` {0..179}"
  "set (stored_buckets x dense_tables ''shop'' 3600) =
     (\<lambda>h. stored_bucket 3600 (3600 * h) (if h = 1 then 59 else 60) (if h = 1 then 1 else 0)) ` {0..2}"
proof -
  have f: "stored_row w s u d ''service_id'' = SStr ''shop''" "stored_row w s u d ''width_seconds'' = SInt w"
    "stored_row w s u d ''bucket_start'' = SInt s" for w s u d
    by (simp_all add: stored_row_def)
  show "set (stored_buckets x dense_tables ''shop'' 60) =
     (\<lambda>k. stored_bucket 60 (60 * k) (if k = 70 then 0 else 1) (if k = 70 then 1 else 0)) ` {0..179}"
    by (auto simp: stored_buckets_def dense_tables_def f in_i64_def bucket_from_stored_row image_iff filter_map comp_def)
  show "set (stored_buckets x dense_tables ''shop'' 3600) =
     (\<lambda>h. stored_bucket 3600 (3600 * h) (if h = 1 then 59 else 60) (if h = 1 then 1 else 0)) ` {0..2}"
    by (auto simp: stored_buckets_def dense_tables_def f in_i64_def bucket_from_stored_row image_iff filter_map comp_def)
qed

lemma dense_folded: "fully_folded x dense_tables ''shop'' 0 10800"
proof -
  have k: "keyed 60 (stored_buckets x dense_tables ''shop'' 60)" "keyed 3600 (stored_buckets x dense_tables ''shop'' 3600)"
    unfolding keyed_def dense_stored by (auto simp: stored_bucket_def)
  have "\<exists>b\<in>set (stored_buckets x dense_tables ''shop'' 60).
      same_series (stored_bucket 3600 (3600 * h) (if h = 1 then 59 else 60) (if h = 1 then 1 else 0)) b \<and>
      b_start b = 3600 * h + 60 * j \<and>
      (\<not> interesting (stored_bucket 3600 (3600 * h) (if h = 1 then 59 else 60) (if h = 1 then 1 else 0)) \<longrightarrow>
        bucket_observed b \<and> \<not> bucket_down b)" if "h \<in> {0..2}" "j \<in> {0..59}" for h j
    unfolding dense_stored
    by (intro bexI [where x = "stored_bucket 60 (60 * (60 * h + j)) (if 60 * h + j = 70 then 0 else 1) (if 60 * h + j = 70 then 1 else 0)"]
          image_eqI [where x = "60 * h + j"])
      (use that in \<open>auto simp: stored_bucket_def same_series_def interesting_def bucket_observed_def bucket_down_def i64_def\<close>)
  then have "hour_complete (stored_buckets x dense_tables ''shop'' 60) h" if "h \<in> set (stored_buckets x dense_tables ''shop'' 3600)" for h
    using that unfolding dense_stored(2)
    by (auto simp: hour_complete_def stored_bucket_def interesting_def bucket_observed_def i64_def)
  then show ?thesis using k
    unfolding fully_folded_def width_values Let_def by (auto simp: dense_stored stored_bucket_def same_series_def)
qed

theorem evidence_is_minute_exact_witness:
  "clip (fst (component_series (component_input_of (evidence_buckets sample_outside dense_tables ''shop'' 0 10800) [] sample_api))) 0 10800 =
   clip (fst (component_series (component_input_of (read_minutes sample_outside dense_tables ''shop'' 0 10800) [] sample_api))) 0 10800"
  using evidence_is_minute_exact [OF dense_folded, where x = sample_outside and ms = "[]" and c = sample_api] by simp

text \<open>A monitor that runs every half hour: readings at 3600, which failed, and at 5400.\<close>

definition sparse_tables :: tables where
  "sparse_tables = (\<lambda>_. [])(''buckets'' := [stored_row 60 3600 0 1, stored_row 60 5400 1 0, stored_row 3600 3600 1 1])"

lemma sparse_evidence:
  "evidence_buckets x sparse_tables ''shop'' 0 10800 =
     [stored_bucket 60 3600 0 1, stored_bucket 60 5400 1 0, stored_bucket 3600 3600 1 1]"
  "read_minutes x sparse_tables ''shop'' 0 10800 = [stored_bucket 60 3600 0 1, stored_bucket 60 5400 1 0]"
proof -
  have f: "stored_row w s u d ''service_id'' = SStr ''shop''" "stored_row w s u d ''width_seconds'' = SInt w"
    "stored_row w s u d ''bucket_start'' = SInt s" for w s u d
    by (simp_all add: stored_row_def)
  have b: "bucket_from_row x (stored_row w s u d) = stored_bucket w s u d"
    if "w \<in> {60, 3600}" "s \<in> {3600, 5400}" "u \<in> {0, 1}" "d \<in> {0, 1}" for w s u d
    using that by (intro bucket_from_stored_row) (auto simp: in_i64_def)
  have hours: "select_buckets x sparse_tables ''shop'' 3600 0 10800 = [stored_bucket 3600 3600 1 1]"
    by (simp add: select_buckets_def sparse_tables_def f sql_gt_def sql_lt_def b)
  have minutes: "select_buckets x sparse_tables ''shop'' 60 i j =
      (if i \<le> 3600 \<and> 5400 < j then [stored_bucket 60 3600 0 1, stored_bucket 60 5400 1 0] else [])"
    if "(i, j) \<in> {(0, 3600), (3600, 7200), (7200, 10800), (0, 10800)}" for i j
    using that by (auto simp: select_buckets_def sparse_tables_def f sql_gt_def sql_lt_def b row_int_def as_int_def i64_def)
  have i: "interesting_hours [stored_bucket 3600 3600 1 1] 0 10800 = [0, 3600, 7200]"
    by (simp add: interesting_hours_def interesting_def stored_bucket_def floor_to_def width_values i64_def)
  show "evidence_buckets x sparse_tables ''shop'' 0 10800 =
     [stored_bucket 60 3600 0 1, stored_bucket 60 5400 1 0, stored_bucket 3600 3600 1 1]"
    by (simp add: evidence_buckets_def width_values floor_to_def hours i minutes i64_def) (simp add: stored_bucket_def)
  show "read_minutes x sparse_tables ''shop'' 0 10800 = [stored_bucket 60 3600 0 1, stored_bucket 60 5400 1 0]"
    by (simp add: read_minutes_def width_values floor_to_def minutes)
qed

text \<open>
  When a monitor runs less often than every minute the evidence is not what the
  minutes give: the hour interval, down because one of its readings failed, speaks for all
  its seconds that no minute interval covers. One failed reading of a half-hourly monitor is
  59 minutes of downtime in the report and one minute in a computation over the minutes.\<close>

lemma sparse_readings_count_the_hour:
  "total (clip (fst (component_series (component_input_of (evidence_buckets x sparse_tables ''shop'' 0 10800) ms sample_api))) 0 10800) = 3540 \<and>
   total (clip (fst (component_series (component_input_of (read_minutes x sparse_tables ''shop'' 0 10800) ms sample_api))) 0 10800) = 60"
proof -
  have ms: "component_series (component_input_of bs ms sample_api) = component_series (component_input_of bs [] sample_api)" for bs
    by (simp add: component_series_def component_series_in_def component_input_of_def)
  have "total (clip (fst (component_series (component_input_of
      [stored_bucket 60 3600 0 1, stored_bucket 60 5400 1 0, stored_bucket 3600 3600 1 1] [] sample_api))) 0 10800) = 3540"
    by code_simp
  moreover have "total (clip (fst (component_series (component_input_of
      [stored_bucket 60 3600 0 1, stored_bucket 60 5400 1 0] [] sample_api))) 0 10800) = 60"
    by code_simp
  ultimately show ?thesis by (simp only: sparse_evidence ms)
qed

section \<open>What a report's figures are\<close>

lemma agreed_secs_report:
  assumes "expand zones s (p_from p) (p_to p) = Inr xs" "zones (sc_timezone s) = Some z" "zone_ok z" "minutes_ok s"
  shows "agreed_secs (report_input x t svc p xs obs) = {u. p_from p \<le> u \<and> u < p_to p \<and> agreed_at z s u}"
  using expand_instants [OF assms(2-4,1)] instants_day_windows by (auto simp: agreed_secs_def report_input_def)

definition excluded_at :: "outside \<Rightarrow> tables \<Rightarrow> service \<Rightarrow> period \<Rightarrow> int \<Rightarrow> bool" where
  "excluded_at x t svc p u \<longleftrightarrow>
     (\<exists>w\<in>set (maintenance_between x t (svc_id svc) (p_from p) (p_to p)). mw_excluded w \<and> mw_starts w \<le> u \<and> u < mw_ends w)"

definition down_at :: "outside \<Rightarrow> tables \<Rightarrow> service \<Rightarrow> period \<Rightarrow> int \<Rightarrow> bool" where
  "down_at x t svc p u \<longleftrightarrow>
     (\<exists>c\<in>set (list_components x t (svc_id svc)).
        comp_down_at (component_input_of (evidence_buckets x t (svc_id svc) (p_from p) (p_to p)) (list_monitors x t (svc_id svc)) c) u)"

lemma report_secs:
  assumes "agreed_secs (report_input x t svc p xs obs) = A"
  shows "net_secs (report_input x t svc p xs obs) = {u \<in> A. \<not> excluded_at x t svc p u}"
    "down_secs (report_input x t svc p xs obs) = {u \<in> A. \<not> excluded_at x t svc p u \<and> down_at x t svc p u}"
  unfolding down_secs_def net_secs_def excluded_secs_def assms
  by (auto simp: report_input_def exclusion_of_def excluded_at_def down_at_def)


definition sample_service :: service where
  "sample_service =
     \<lparr>svc_id = ''shop'', svc_tenant = ''t'', svc_name = ''Shop'', svc_slug = ''shop'', svc_description = [], svc_timezone = ''UTC'',
      svc_schedule = ''s'', svc_visibility = ''public'', svc_lead = 0, svc_coverage_floor = 0, svc_callback = [],
      svc_created = 0, svc_updated = 0\<rparr>"

definition sample_period :: period where
  "sample_period = \<lparr>p_label = ''today'', p_from = 0, p_to = 10800, p_timezone = ''UTC''\<rparr>"

definition sample_codec :: codec where
  "sample_codec = \<lparr>j_schedule = (\<lambda>_. Some (always_on ''s'' ''shop'' ''UTC'' 0)), j_credits = (\<lambda>_. None)\<rparr>"

definition report_tables :: tables where
  "report_tables = sparse_tables(''schedules'' := [null_row(''id'' := SStr ''s'', ''service_id'' := SStr ''shop'', ''definition'' := SStr ''text'')])"


section \<open>The worst day and the worst week\<close>

definition sample_outage :: "string \<Rightarrow> int \<Rightarrow> int \<Rightarrow> outage" where
  "sample_outage c f t = \<lparr>ou_component = c, ou_from = f, ou_to = t, ou_seconds = t - f\<rparr>"

text \<open>
  Outages of several components at the same time are added, where the report's own figure
  counts each second once: half a day with both components down is a day without service.
\<close>

lemma overlapping_outages_are_added:
  "sub_ppm [Iv 0 86400] [sample_outage ''a'' 0 43200, sample_outage ''b'' 0 43200] 0 86400 = Some 0"
  "availability 86400 (total (merge [Iv 0 43200, Iv 0 43200])) = 500000"
  by code_simp+

text \<open>The last windows of a period are cut short: the worst week of eight days can be its last day.\<close>

lemma worst_week_can_be_a_day:
  "map (\<lambda>a. (alt_from a, alt_to a, alt_ppm a)) (worst_of [Iv 0 691200] [sample_outage ''a'' 604800 648000] utc 0 691200 (''worst week'', 604800)) =
     [(604800, 691200, 500000)]"
  by code_simp

end
