(* ===== verification/Verify.thy ===== *)
theory Verify
  imports Report
begin

text \<open>
  Signed checkpoints and evidence bundles (\<open>internal/checkpoint/checkpoint.go\<close>,
  \<open>internal/model/evidence.go\<close>), the report document and its signature
  (\<open>internal/core/reports.go\<close>), and the offline verifier (\<open>cmd/monitor-verify/main.go\<close>).
  Ed25519, the proof check and the history link of the immutable ledger, all outside the
  repository, are the fields of \<open>trust\<close>; an empty list stands for the slice
  the monitor builds, which is nil wherever it is made by appending.
\<close>

section \<open>Data\<close>

record trust =
  tr_verify :: "string \<Rightarrow> string \<Rightarrow> bool"
  tr_proof :: "string \<Rightarrow> string \<Rightarrow> string \<Rightarrow> bool option"
  tr_link :: "string \<Rightarrow> string \<Rightarrow> int \<Rightarrow> string"

record checkpoint_ref =
  cf_version :: int
  cf_root :: string

record checkpoint =
  cp_instance :: string
  cp_version :: int
  cp_root :: string
  cp_head :: string
  cp_issued :: int
  cp_reason :: string
  cp_image :: string
  cp_seq :: int
  cp_summary :: "(string \<times> json) list"
  cp_previous :: "checkpoint_ref option"

record signed_checkpoint =
  sc_checkpoint :: checkpoint
  sc_key :: string
  sc_alg :: string
  sc_signature :: string

record evidence_bundle =
  eb_instance :: string
  eb_statement :: string
  eb_table :: string
  eb_key :: "json list"
  eb_present :: bool
  eb_row :: "(string \<times> json) list"
  eb_ledger_key :: string
  eb_ledger_value :: string
  eb_path :: string
  eb_proof :: string
  eb_root :: string
  eb_version :: int
  eb_issued :: int
  eb_checkpoint :: "signed_checkpoint option"
  eb_key_id :: string
  eb_alg :: string
  eb_signature :: string

record root_at =
  ra_version :: int
  ra_root :: string

record lineage =
  ln_from :: "signed_checkpoint option"
  ln_to :: "signed_checkpoint option"
  ln_roots :: "root_at list"

record report_evidence =
  ev_root :: string
  ev_version :: int
  ev_checkpoint :: "signed_checkpoint option"
  ev_hash :: string
  ev_buckets :: "bucket list"
  ev_proofs :: "evidence_bundle list"

text \<open>The report as the document it is, with the rule that rolled each component up.\<close>

record report_doc =
  rd_id :: string
  rd_instance :: string
  rd_tenant :: string
  rd_service :: string
  rd_service_name :: string
  rd_period :: period
  rd_generated :: int
  rd_image :: string
  rd_schedule :: string
  rd_schedule_version :: int
  rd_monitors :: "monitor_ref list"
  rd_ast :: ast_summary
  rd_downtime :: downtime_summary
  rd_results :: results
  rd_components :: "(component_result \<times> string) list"
  rd_outages :: "(outage \<times> string) list"
  rd_exclusions :: "exclusion list"
  rd_gaps :: "gap list"
  rd_incidents :: "json list"
  rd_objectives :: "objective_result list"
  rd_alternates :: "alternate list"
  rd_evidence :: "report_evidence option"
  rd_key :: string
  rd_alg :: string
  rd_signature :: string

definition Algorithm :: string where "Algorithm = ''ed25519''"

section \<open>Documents as JSON\<close>

definition some_json :: "string \<Rightarrow> json option \<Rightarrow> (string \<times> json) list" where
  "some_json k v = (case v of None \<Rightarrow> [] | Some j \<Rightarrow> [(k, j)])"

text \<open>A slice the code builds by appending is nil, so \<open>null\<close>, when it is empty.\<close>

definition slice_json :: "('a \<Rightarrow> json) \<Rightarrow> 'a list \<Rightarrow> json" where
  "slice_json f xs = (if xs = [] then JNull else JArr (map f xs))"

definition text_json :: "string \<Rightarrow> string \<Rightarrow> (string \<times> json) list" where
  "text_json k s = omit_empty k (JStr s) (s = [])"

definition checkpoint_ref_json :: "checkpoint_ref \<Rightarrow> json" where
  "checkpoint_ref_json r = JObj [(''version'', json_nat (cf_version r)), (''root'', JStr (cf_root r))]"

definition checkpoint_json :: "checkpoint \<Rightarrow> json" where
  "checkpoint_json c = JObj (
     [(''instance'', JStr (cp_instance c)), (''version'', json_nat (cp_version c)), (''root'', JStr (cp_root c))] @
     text_json ''head'' (cp_head c) @
     [(''issued_at'', json_nat (cp_issued c)), (''reason'', JStr (cp_reason c))] @
     text_json ''image_digest'' (cp_image c) @
     [(''tx_seq'', json_nat (cp_seq c))] @
     omit_empty ''summary'' (JObj (cp_summary c)) (cp_summary c = []) @
     some_json ''previous'' (map_option checkpoint_ref_json (cp_previous c)))"

definition signed_checkpoint_json :: "signed_checkpoint \<Rightarrow> json" where
  "signed_checkpoint_json s = JObj
     [(''checkpoint'', checkpoint_json (sc_checkpoint s)), (''key_id'', JStr (sc_key s)), (''alg'', JStr (sc_alg s)),
      (''signature'', JStr (sc_signature s))]"

definition bundle_json :: "evidence_bundle \<Rightarrow> json" where
  "bundle_json b = JObj (
     [(''instance'', JStr (eb_instance b)), (''statement'', JStr (eb_statement b)), (''table'', JStr (eb_table b)),
      (''primary_key'', JArr (eb_key b)), (''present'', JBool (eb_present b))] @
     omit_empty ''row'' (JObj (eb_row b)) (eb_row b = []) @
     [(''ledger_key'', JStr (eb_ledger_key b))] @ text_json ''ledger_value'' (eb_ledger_value b) @
     [(''path'', JStr (eb_path b)), (''proof'', JStr (eb_proof b)), (''root'', JStr (eb_root b)),
      (''version'', json_nat (eb_version b)), (''issued_at'', json_nat (eb_issued b))] @
     some_json ''checkpoint'' (map_option signed_checkpoint_json (eb_checkpoint b)) @
     [(''key_id'', JStr (eb_key_id b)), (''alg'', JStr (eb_alg b)), (''signature'', JStr (eb_signature b))])"

definition period_json :: "period \<Rightarrow> json" where
  "period_json p = JObj
     [(''label'', JStr (p_label p)), (''from'', json_nat (p_from p)), (''to'', json_nat (p_to p)),
      (''timezone'', JStr (p_timezone p))]"

definition interval_json :: "interval \<Rightarrow> json" where
  "interval_json iv = JObj [(''from'', json_nat (iv_from iv)), (''to'', json_nat (iv_to iv))]"

definition monitor_ref_json :: "monitor_ref \<Rightarrow> json" where
  "monitor_ref_json m = JObj
     [(''id'', JStr (mr_id m)), (''name'', JStr (mr_name m)), (''version'', json_nat (mr_version m)),
      (''component_id'', JStr (mr_component m)), (''interval_seconds'', json_nat (mr_interval m))]"

definition ast_json :: "ast_summary \<Rightarrow> json" where
  "ast_json a = JObj
     [(''scheduled_seconds'', json_nat (a_scheduled a)), (''excluded_seconds'', json_nat (a_excluded a)),
      (''net_seconds'', json_nat (a_net a)), (''intervals'', slice_json interval_json (a_intervals a))]"

definition downtime_json :: "downtime_summary \<Rightarrow> json" where
  "downtime_json d = JObj
     [(''seconds'', json_nat (d_seconds d)), (''outages'', json_nat (d_outages d)), (''mtbf_seconds'', json_nat (d_mtbf d)),
      (''mtrs_seconds'', json_nat (d_mtrs d)), (''longest_seconds'', json_nat (d_longest d))]"

definition results_json :: "results \<Rightarrow> json" where
  "results_json r = JObj
     [(''availability_ppm'', json_nat (rs_availability r)), (''user_availability_ppm'', json_nat (rs_user_availability r)),
      (''coverage_ppm'', json_nat (rs_coverage r)), (''potential_user_seconds'', json_nat (rs_potential_user r)),
      (''user_outage_seconds'', json_nat (rs_user_outage r)), (''observed_seconds'', json_nat (rs_observed r))]"

definition component_json :: "component_result \<times> string \<Rightarrow> json" where
  "component_json cr = (case cr of (c, rollup) \<Rightarrow> JObj
     [(''component_id'', JStr (cr_id c)), (''name'', JStr (cr_name c)), (''user_weight'', json_nat (cr_weight c)),
      (''rollup'', JStr rollup), (''downtime_seconds'', json_nat (cr_downtime c)),
      (''availability_ppm'', json_nat (cr_availability c)), (''coverage_ppm'', json_nat (cr_coverage c)),
      (''outages'', json_nat (cr_outages c))])"

definition outage_json :: "outage \<times> string \<Rightarrow> json" where
  "outage_json oi = (case oi of (ou, incident) \<Rightarrow> JObj (
     [(''component_id'', JStr (ou_component ou)), (''from'', json_nat (ou_from ou)), (''to'', json_nat (ou_to ou)),
      (''seconds'', json_nat (ou_seconds ou))] @ text_json ''incident_id'' incident))"

definition exclusion_json :: "exclusion \<Rightarrow> json" where
  "exclusion_json e = JObj (
     [(''window_id'', JStr (x_window e)), (''class'', JStr (x_class e)), (''title'', JStr (x_title e)),
      (''declared_at'', json_nat (x_declared e)), (''lead_time'', json_nat (x_lead e)), (''from'', json_nat (x_from e)),
      (''to'', json_nat (x_to e)), (''seconds'', json_nat (x_seconds e)), (''applied'', JBool (x_applied e))] @
     text_json ''reason'' (x_reason e) @ text_json ''txid'' (x_txid e))"

definition gap_json :: "gap \<Rightarrow> json" where
  "gap_json g = JObj [(''from'', json_nat (g_from g)), (''to'', json_nat (g_to g)), (''seconds'', json_nat (g_seconds g))]"

definition objective_json :: "objective_result \<Rightarrow> json" where
  "objective_json r = JObj (
     [(''id'', JStr (r_id r)), (''name'', JStr (r_name r)), (''metric'', JStr (r_metric r)), (''window'', JStr (r_window r)),
      (''target_ppm'', json_nat (r_target r)), (''achieved_ppm'', json_nat (r_achieved r)), (''result'', JStr (r_result r))] @
     text_json ''reason'' (r_reason r) @ omit_empty ''credit_percent'' (json_nat (r_credit r)) (r_credit r = 0))"

definition alternate_json :: "alternate \<Rightarrow> json" where
  "alternate_json a = JObj
     [(''label'', JStr (alt_label a)), (''from'', json_nat (alt_from a)), (''to'', json_nat (alt_to a)),
      (''availability_ppm'', json_nat (alt_ppm a))]"

definition bucket_json :: "bucket \<Rightarrow> json" where
  "bucket_json b = JObj
     [(''monitor_id'', JStr (b_monitor b)), (''component_id'', JStr (b_component b)), (''service_id'', JStr (b_service b)),
      (''start'', json_nat (b_start b)), (''width'', json_nat (b_width b)), (''up'', json_nat (b_up b)),
      (''degraded'', json_nat (b_degraded b)), (''down'', json_nat (b_down b)), (''errors'', json_nat (b_errors b)),
      (''in_maintenance'', json_nat (b_maint b)), (''latency_p50'', json_nat (b_p50 b)),
      (''latency_p95'', json_nat (b_p95 b)), (''latency_max'', json_nat (b_max b)), (''verdict'', JStr (b_verdict b))]"

definition evidence_json :: "report_evidence \<Rightarrow> json" where
  "evidence_json e = JObj (
     [(''root'', JStr (ev_root e)), (''version'', json_nat (ev_version e))] @
     some_json ''checkpoint'' (map_option signed_checkpoint_json (ev_checkpoint e)) @
     [(''evidence_hash'', JStr (ev_hash e)), (''buckets'', slice_json bucket_json (ev_buckets e))] @
     omit_empty ''proofs'' (JArr (map bundle_json (ev_proofs e))) (ev_proofs e = []))"

definition report_json :: "report_doc \<Rightarrow> json" where
  "report_json r = JObj (
     [(''id'', JStr (rd_id r)), (''instance'', JStr (rd_instance r)), (''tenant'', JStr (rd_tenant r)),
      (''service_id'', JStr (rd_service r)), (''service_name'', JStr (rd_service_name r)),
      (''period'', period_json (rd_period r)), (''generated_at'', json_nat (rd_generated r))] @
     text_json ''image_digest'' (rd_image r) @
     [(''schedule_id'', JStr (rd_schedule r)), (''schedule_version'', json_nat (rd_schedule_version r)),
      (''monitors'', JArr (map monitor_ref_json (rd_monitors r))), (''ast'', ast_json (rd_ast r)),
      (''downtime'', downtime_json (rd_downtime r)), (''results'', results_json (rd_results r)),
      (''components'', slice_json component_json (rd_components r)), (''outages'', slice_json outage_json (rd_outages r)),
      (''exclusions'', slice_json exclusion_json (rd_exclusions r)), (''gaps'', slice_json gap_json (rd_gaps r))] @
     omit_empty ''incidents'' (JArr (rd_incidents r)) (rd_incidents r = []) @
     [(''objectives'', slice_json objective_json (rd_objectives r))] @
     omit_empty ''alternates'' (JArr (map alternate_json (rd_alternates r))) (rd_alternates r = []) @
     some_json ''evidence'' (map_option evidence_json (rd_evidence r)) @
     [(''key_id'', JStr (rd_key r)), (''alg'', JStr (rd_alg r)), (''signature'', JStr (rd_signature r))])"

section \<open>Signing and checking\<close>

definition sign_checkpoint :: "outside \<Rightarrow> (string \<Rightarrow> string) \<Rightarrow> string \<Rightarrow> checkpoint \<Rightarrow> signed_checkpoint option" where
  "sign_checkpoint x sign key cp =
     map_option (\<lambda>body. \<lparr>sc_checkpoint = cp, sc_key = key, sc_alg = Algorithm, sc_signature = x_b64 x (sign body)\<rparr>)
       (write_json (x_fmt x) (checkpoint_json cp))"

definition verify_signed_bytes :: "outside \<Rightarrow> trust \<Rightarrow> string option \<Rightarrow> string \<Rightarrow> bool" where
  "verify_signed_bytes x tr body signature =
     (case body of None \<Rightarrow> False
      | Some text \<Rightarrow> (case x_unb64 x signature of None \<Rightarrow> False | Some sig \<Rightarrow> tr_verify tr text sig))"

definition verify_checkpoint :: "outside \<Rightarrow> trust \<Rightarrow> signed_checkpoint \<Rightarrow> bool" where
  "verify_checkpoint x tr sc =
     (sc_alg sc = Algorithm \<and>
      verify_signed_bytes x tr (write_json (x_fmt x) (checkpoint_json (sc_checkpoint sc))) (sc_signature sc))"

definition sign_bundle :: "outside \<Rightarrow> (string \<Rightarrow> string) \<Rightarrow> string \<Rightarrow> evidence_bundle \<Rightarrow> evidence_bundle option" where
  "sign_bundle x sign key b =
     (let b1 = b\<lparr>eb_key_id := key, eb_alg := Algorithm, eb_signature := []\<rparr>
      in map_option (\<lambda>body. b1\<lparr>eb_signature := x_b64 x (sign body)\<rparr>) (write_json (x_fmt x) (bundle_json b1)))"

definition verify_bundle_signature :: "outside \<Rightarrow> trust \<Rightarrow> evidence_bundle \<Rightarrow> bool" where
  "verify_bundle_signature x tr b =
     (eb_alg b = Algorithm \<and>
      verify_signed_bytes x tr (write_json (x_fmt x) (bundle_json (b\<lparr>eb_signature := []\<rparr>))) (eb_signature b))"

text \<open>\<open>hex.DecodeString\<close>.\<close>

definition hex_value :: "char \<Rightarrow> nat option" where
  "hex_value c =
     (let n = (of_char c :: nat) in
      if 48 \<le> n \<and> n \<le> 57 then Some (n - 48)
      else if 97 \<le> n \<and> n \<le> 102 then Some (n - 87)
      else if 65 \<le> n \<and> n \<le> 70 then Some (n - 55)
      else None)"

fun hex_decode :: "string \<Rightarrow> string option" where
  "hex_decode [] = Some []"
| "hex_decode [c] = None"
| "hex_decode (a # b # s) =
     (case (hex_value a, hex_value b, hex_decode s) of
        (Some h, Some l, Some t) \<Rightarrow> Some (char_of (16 * h + l) # t)
      | _ \<Rightarrow> None)"

definition parse_hash :: "string \<Rightarrow> string option" where
  "parse_hash s = (case hex_decode s of Some h \<Rightarrow> if length h = 32 then Some h else None | None \<Rightarrow> None)"

definition verify_bundle_proof :: "trust \<Rightarrow> evidence_bundle \<Rightarrow> bool" where
  "verify_bundle_proof tr b =
     (case (parse_hash (eb_root b), parse_hash (eb_path b), hex_decode (eb_proof b)) of
        (Some rt, Some path, Some prf) \<Rightarrow>
          (case tr_proof tr rt path prf of None \<Rightarrow> False | Some present \<Rightarrow> present = eb_present b)
      | _ \<Rightarrow> False)"

definition bundle_at_checkpoint :: "evidence_bundle \<Rightarrow> checkpoint \<Rightarrow> bool" where
  "bundle_at_checkpoint b cp \<longleftrightarrow> cp_version cp = eb_version b \<and> cp_root cp = eb_root b"

section \<open>Issuing\<close>

text \<open>The document built from a report; \<open>incidents\<close> are the JSON forms of its incidents.\<close>

definition rollup_for :: "report \<Rightarrow> string \<Rightarrow> string" where
  "rollup_for r c = (case map_of (rev (rp_rollups r)) c of Some rule \<Rightarrow> rule | None \<Rightarrow> [])"

definition doc_of :: "string \<Rightarrow> (service_incident \<Rightarrow> json) \<Rightarrow> report \<Rightarrow> report_doc" where
  "doc_of i incident_json r =
     \<lparr>rd_id = i, rd_instance = rp_instance r, rd_tenant = rp_tenant r, rd_service = rp_service r,
      rd_service_name = rp_service_name r, rd_period = rp_period r, rd_generated = rp_generated r, rd_image = rp_image r,
      rd_schedule = rp_schedule r, rd_schedule_version = rp_schedule_version r, rd_monitors = rp_monitors r,
      rd_ast = out_ast (rp_output r), rd_downtime = out_downtime (rp_output r), rd_results = out_results (rp_output r),
      rd_components = map (\<lambda>c. (c, rollup_for r (cr_id c))) (out_components (rp_output r)),
      rd_outages = rp_outages r, rd_exclusions = out_exclusions (rp_output r), rd_gaps = out_gaps (rp_output r),
      rd_incidents = map incident_json (rp_incidents r), rd_objectives = out_objectives (rp_output r),
      rd_alternates = rp_alternates r, rd_evidence = None, rd_key = [], rd_alg = [], rd_signature = []\<rparr>"

definition report_core :: "report_doc \<Rightarrow> report_doc" where
  "report_core r = r\<lparr>rd_evidence := None, rd_key := [], rd_alg := [], rd_signature := []\<rparr>"

definition hash_buckets :: "outside \<Rightarrow> bucket list \<Rightarrow> string" where
  "hash_buckets x bs =
     (case write_json (x_fmt x) (slice_json bucket_json bs) of
        None \<Rightarrow> []
      | Some body \<Rightarrow> hex_encode (x_sha x (''privasys-monitor/report-evidence/v1'' @ body)))"

definition sign_report :: "outside \<Rightarrow> (string \<Rightarrow> string) \<Rightarrow> string \<Rightarrow> report_doc \<Rightarrow> report_doc option" where
  "sign_report x sign key r =
     (let r1 = r\<lparr>rd_key := key, rd_alg := Algorithm, rd_signature := []\<rparr>
      in map_option (\<lambda>body. r1\<lparr>rd_signature := x_b64 x (sign body)\<rparr>) (write_json (x_fmt x) (report_json r1)))"

definition verify_report_signature :: "outside \<Rightarrow> trust \<Rightarrow> report_doc \<Rightarrow> bool" where
  "verify_report_signature x tr r =
     verify_signed_bytes x tr (write_json (x_fmt x) (report_json (r\<lparr>rd_signature := []\<rparr>))) (rd_signature r)"

section \<open>The offline verifier\<close>

text \<open>A check has its name and its outcome; the text printed beside it is left out.\<close>

record check =
  ck_name :: string
  ck_ok :: bool

definition passed :: "string \<Rightarrow> check" where "passed n = \<lparr>ck_name = n, ck_ok = True\<rparr>"
definition fault :: "string \<Rightarrow> check" where "fault n = \<lparr>ck_name = n, ck_ok = False\<rparr>"

abbreviation judge :: "string \<Rightarrow> bool \<Rightarrow> check" where
  "judge n ok \<equiv> (if ok then passed n else fault n)"

definition accepted :: "check list \<Rightarrow> bool" where
  "accepted cs \<longleftrightarrow> list_all ck_ok cs"

definition verify_bundle :: "outside \<Rightarrow> trust \<Rightarrow> evidence_bundle \<Rightarrow> check list" where
  "verify_bundle x tr b =
     [judge ''inclusion proof'' (verify_bundle_proof tr b), judge ''signature'' (verify_bundle_signature x tr b)] @
     (case eb_checkpoint b of
        None \<Rightarrow> [fault ''anchor'']
      | Some sc \<Rightarrow> [judge ''anchor'' (verify_checkpoint x tr sc \<and> bundle_at_checkpoint b (sc_checkpoint sc))])"

subsection \<open>A chain of checkpoints\<close>

definition links_to :: "checkpoint \<Rightarrow> checkpoint \<Rightarrow> bool" where
  "links_to prev cur \<longleftrightarrow>
     (case cp_previous cur of None \<Rightarrow> False
      | Some r \<Rightarrow> cf_version r = cp_version prev \<and> cf_root r = cp_root prev)"

definition verify_chain :: "outside \<Rightarrow> trust \<Rightarrow> signed_checkpoint list \<Rightarrow> string + check list" where
  "verify_chain x tr scs =
     (if scs = [] then Inl ''the document holds no checkpoints''
      else
        let chain = sort_key (\<lambda>sc. cp_version (sc_checkpoint sc)) scs;
            bad = filter (\<lambda>sc. \<not> verify_checkpoint x tr sc) chain;
            broken = filter (\<lambda>(p, c). \<not> links_to (sc_checkpoint p) (sc_checkpoint c)) (zip chain (tl chain))
        in Inr (map (\<lambda>sc. fault (''checkpoint '' @ show_int (cp_version (sc_checkpoint sc)))) bad @
                (if bad = [] then [passed ''signatures''] else []) @
                map (\<lambda>(p, c). fault (''link at '' @ show_int (cp_version (sc_checkpoint c)))) broken @
                (if broken = [] \<and> length chain > 1 then [passed ''chain''] else [])))"

subsection \<open>Lineage\<close>

text \<open>
  The roots folded forward from the earlier anchor. \<open>Inl (Some e)\<close> is an error,
  \<open>Inl None\<close> a gap in the versions, \<open>Inr\<close> the head and the version reached.
\<close>

fun fold_roots :: "trust \<Rightarrow> string \<Rightarrow> string \<Rightarrow> int \<Rightarrow> root_at list \<Rightarrow> string option + string \<times> int" where
  "fold_roots tr head rt version [] = Inr (head, version)"
| "fold_roots tr head rt version (e # es) =
     (if ra_version e \<noteq> version + 1 then Inl None
      else case parse_hash (ra_root e) of
        None \<Rightarrow> Inl (Some ''not a hash'')
      | Some rt' \<Rightarrow> fold_roots tr (tr_link tr head rt (ra_version e)) rt' (ra_version e) es)"

definition anchor_checks :: "outside \<Rightarrow> trust \<Rightarrow> bool \<Rightarrow> signed_checkpoint \<Rightarrow> signed_checkpoint \<Rightarrow> check list" where
  "anchor_checks x tr has_key frm to =
     (if \<not> has_key then []
      else let bad = filter (\<lambda>(n, sc). \<not> verify_checkpoint x tr sc) [(''from'', frm), (''to'', to)]
        in map (\<lambda>(n, sc). fault (''anchor '' @ n)) bad @ (if bad = [] then [passed ''anchors''] else []))"

definition verify_lineage :: "outside \<Rightarrow> trust \<Rightarrow> bool \<Rightarrow> lineage \<Rightarrow> string + check list" where
  "verify_lineage x tr has_key doc =
     (case (ln_from doc, ln_to doc) of
        (Some frm, Some to) \<Rightarrow>
          let checks = anchor_checks x tr has_key frm to;
              f = sc_checkpoint frm; t = sc_checkpoint to;
              roots = sort_key ra_version (ln_roots doc)
          in (case (parse_hash (cp_head f), parse_hash (cp_root f)) of
                (Some head, Some rt) \<Rightarrow>
                  (case fold_roots tr head rt (cp_version f) roots of
                     Inl (Some e) \<Rightarrow> Inl e
                   | Inl None \<Rightarrow> Inr (checks @ [fault ''lineage''])
                   | Inr (head', version) \<Rightarrow>
                       if version \<noteq> cp_version t then Inr (checks @ [fault ''lineage''])
                       else (case parse_hash (cp_head t) of
                               None \<Rightarrow> Inl ''the to anchor carries no lineage head''
                             | Some want \<Rightarrow> Inr (checks @ [judge ''lineage'' (head' = want)])))
              | (None, _) \<Rightarrow> Inl ''the from anchor carries no lineage head''
              | _ \<Rightarrow> Inl ''not a hash'')
      | _ \<Rightarrow> Inl ''the document needs a from and a to anchor'')"

subsection \<open>A report\<close>

text \<open>\<open>fmt.Sscanf(_, "%d.%d%%", _, _)\<close> after the words that name the floor.\<close>

definition scan_floor :: "string \<Rightarrow> int option" where
  "scan_floor s =
     (case scan_int s of
        Some (whole, c # rest) \<Rightarrow>
          if c \<noteq> CHR ''.'' then None
          else (case scan_int rest of
                  Some (part, d # _) \<Rightarrow> if d = CHR ''%'' then Some (i64 (i64 (whole * 10000) + i64 (part * 10))) else None
                | _ \<Rightarrow> None)
      | _ \<Rightarrow> None)"

definition floor_in_reason :: "objective_result \<Rightarrow> int option" where
  "floor_in_reason r =
     (if r_result r \<noteq> ObjectiveIndeterminate then None
      else case str_index (r_reason r) ''below the '' of
        None \<Rightarrow> None
      | Some i \<Rightarrow> scan_floor (drop (i + length ''below the '') (r_reason r)))"

definition implied_floor :: "report_doc \<Rightarrow> int" where
  "implied_floor r = (case List.map_filter floor_in_reason (rd_objectives r) of [] \<Rightarrow> 0 | f # _ \<Rightarrow> f)"

definition recompute_input :: "report_doc \<Rightarrow> report_evidence \<Rightarrow> input" where
  "recompute_input r ev =
     \<lparr>in_period = rd_period r, in_scheduled = a_intervals (rd_ast r), in_exclusions = rd_exclusions r,
      in_components = map (\<lambda>(c, rollup).
        \<lparr>c_id = cr_id c, c_name = cr_name c, c_weight = cr_weight c, c_rollup = rollup,
         c_buckets = filter (\<lambda>b. b_component b = cr_id c) (ev_buckets ev), c_monitors = []\<rparr>) (rd_components r),
      in_floor = implied_floor r,
      in_objectives = map (\<lambda>ob.
        \<lparr>o_id = r_id ob, o_name = r_name ob, o_metric = r_metric ob, o_target = r_target ob, o_window = r_window ob,
         o_budget = 0, o_credits = []\<rparr>) (rd_objectives r)\<rparr>"

definition figure_checks :: "report_output \<Rightarrow> report_doc \<Rightarrow> check list" where
  "figure_checks out r =
     [judge ''agreed service time'' (a_net (out_ast out) = a_net (rd_ast r)),
      judge ''downtime'' (d_seconds (out_downtime out) = d_seconds (rd_downtime r)),
      judge ''availability'' (rs_availability (out_results out) = rs_availability (rd_results r)),
      judge ''user-weighted availability'' (rs_user_availability (out_results out) = rs_user_availability (rd_results r)),
      judge ''coverage'' (rs_coverage (out_results out) = rs_coverage (rd_results r))]"

definition objective_checks :: "report_output \<Rightarrow> objective_result \<Rightarrow> check list" where
  "objective_checks out want =
     (let n = ''objective '' @ r_name want;
          found = filter (\<lambda>got. r_id got = r_id want) (out_objectives out)
      in if found = [] then [fault n]
         else map (\<lambda>got. judge n (r_result got = r_result want \<and> r_achieved got = r_achieved want)) found)"

definition undeclared_seconds :: "report_doc \<Rightarrow> report_output \<Rightarrow> int" where
  "undeclared_seconds r out =
     foldl (\<lambda>m ou. i64 (m + total (subtract [Iv (ou_from ou) (ou_to ou)]
         (map (\<lambda>(d, i). Iv (ou_from d) (ou_to d)) (filter (\<lambda>(d, i). ou_component d = ou_component ou) (rd_outages r))))))
       0 (out_outages out)"

definition arithmetic_checks :: "report_doc \<Rightarrow> report_evidence \<Rightarrow> check list" where
  "arithmetic_checks r ev =
     (let out = compute (recompute_input r ev)
      in figure_checks out r @ concat (map (objective_checks out) (rd_objectives r)) @
         [judge ''declared outages'' (\<not> undeclared_seconds r out > 0)])"

definition same_document :: "outside \<Rightarrow> json \<Rightarrow> string \<Rightarrow> bool" where
  "same_document x stored want =
     (case stored of JStr v \<Rightarrow> v = want \<or> x_unb64 x v = Some want | _ \<Rightarrow> False)"

text \<open>The checks of the report's row, and whether the row commits to the evidence hash.\<close>

definition row_checks :: "outside \<Rightarrow> trust \<Rightarrow> report_doc \<Rightarrow> report_evidence \<Rightarrow> check list" where
  "row_checks x tr r ev =
     (case find (\<lambda>b. eb_table b = ''reports'') (ev_proofs ev) of
        None \<Rightarrow> [fault ''recorded row'']
      | Some b \<Rightarrow>
          if \<not> verify_bundle_proof tr b \<or> \<not> verify_bundle_signature x tr b then [fault ''recorded row'']
          else [passed ''recorded row''] @
            (case (write_json (x_fmt x) (report_json (report_core r)), map_of (eb_row b) ''document'') of
               (Some body, Some stored) \<Rightarrow> [judge ''document'' (same_document x stored body)]
             | _ \<Rightarrow> []) @
            (case eb_checkpoint b of None \<Rightarrow> [] | Some sc \<Rightarrow> [judge ''anchor'' (verify_checkpoint x tr sc)]) @
            (case map_of (eb_row b) ''evidence_hash'' of
               Some (JStr h) \<Rightarrow> if h \<noteq> ev_hash ev then [fault ''row commitment''] else []
             | _ \<Rightarrow> []))"

definition verify_report :: "outside \<Rightarrow> trust \<Rightarrow> report_doc \<Rightarrow> string + check list" where
  "verify_report x tr r =
     (case rd_evidence r of
        None \<Rightarrow> Inl ''the report carries no evidence; ask for it with the evidence attached''
      | Some ev \<Rightarrow>
          Inr ([judge ''signature'' (verify_report_signature x tr r),
                judge ''evidence commitment'' (hash_buckets x (ev_buckets ev) = ev_hash ev)] @
               row_checks x tr r ev @ arithmetic_checks r ev))"

section \<open>What is issued verifies\<close>

lemma exclusion_loop_again: "exclusion_loop sched (snd (exclusion_loop sched exs)) = exclusion_loop sched exs"
  by (induction exs) (auto simp: Let_def split: prod.splits)

lemma clip_again [simp]: "clip (clip xs f t) f t = clip xs f t"
  by (rule normal_unique) auto

text \<open>A calculation repeated on what it published: its own schedule, exclusions and components.\<close>

definition republished :: "input \<Rightarrow> input \<Rightarrow> bool" where
  "republished inp' inp \<longleftrightarrow>
     in_period inp' = in_period inp \<and> in_scheduled inp' = a_intervals (out_ast (compute inp)) \<and>
     in_exclusions inp' = out_exclusions (compute inp) \<and>
     in_components inp' = map (\<lambda>c. c\<lparr>c_monitors := []\<rparr>) (in_components inp)"

lemma out_exclusions_compute: "out_exclusions (compute inp) = snd (exclusion_loop (sched_of inp) (in_exclusions inp))"
  by (simp add: compute_def Let_def split: prod.split)

lemma out_outages_compute:
  "out_outages (compute inp) = sort_key (\<lambda>ou. (ou_from ou, ou_component ou)) (concat (map (outages_of (net_of inp)) (in_components inp)))"
  by (simp add: compute_def net_of_def Let_def split: prod.split)

lemma unmonitored:
  "component_series (c\<lparr>c_monitors := ms\<rparr>) = component_series c" "down_in net (c\<lparr>c_monitors := ms\<rparr>) = down_in net c"
  "observed_in net (c\<lparr>c_monitors := ms\<rparr>) = observed_in net c"
  "component_result_of net n (c\<lparr>c_monitors := ms\<rparr>) = component_result_of net n c"
  "outages_of net (c\<lparr>c_monitors := ms\<rparr>) = outages_of net c"
proof -
  show s: "component_series (c\<lparr>c_monitors := ms\<rparr>) = component_series c"
    by (simp add: component_series_def component_series_in_def)
  show d: "down_in net (c\<lparr>c_monitors := ms\<rparr>) = down_in net c" "observed_in net (c\<lparr>c_monitors := ms\<rparr>) = observed_in net c"
    by (simp_all add: down_in_def observed_in_def s)
  show "component_result_of net n (c\<lparr>c_monitors := ms\<rparr>) = component_result_of net n c"
    "outages_of net (c\<lparr>c_monitors := ms\<rparr>) = outages_of net c"
    by (simp_all add: component_result_of_def outages_of_def d)
qed

lemma republished_compute:
  assumes "republished inp' inp"
  shows "out_ast (compute inp') = out_ast (compute inp)" "out_downtime (compute inp') = out_downtime (compute inp)"
    "out_components (compute inp') = out_components (compute inp)" "out_results (compute inp') = out_results (compute inp)"
    "out_outages (compute inp') = out_outages (compute inp)" "net_of inp' = net_of inp"
proof -
  have s: "sched_of inp' = sched_of inp" using assms by (simp add: republished_def compute_fields)
  have x: "exclusion_loop (sched_of inp) (in_exclusions inp') = exclusion_loop (sched_of inp) (in_exclusions inp)"
    using assms by (simp add: republished_def out_exclusions_compute exclusion_loop_again)
  show n: "net_of inp' = net_of inp" by (simp only: net_of_def Let_def s x)
  have c: "map (f net) (in_components inp') = map (f net) (in_components inp)"
    if "\<And>c. f net (c\<lparr>c_monitors := []\<rparr>) = f net c" for f :: "interval list \<Rightarrow> component_input \<Rightarrow> 'a" and net
    using assms that by (simp add: republished_def)
  have r: "map (component_result_of net k) (in_components inp') = map (component_result_of net k) (in_components inp)" for net k
    using assms by (simp add: republished_def unmonitored)
  note d = c [of down_in] and ob = c [of observed_in]
  show "out_ast (compute inp') = out_ast (compute inp)" by (simp only: compute_fields s x n)
  show down: "out_downtime (compute inp') = out_downtime (compute inp)"
    unfolding compute_fields(2) n using assms by (simp add: republished_def unmonitored comp_def)
  show comps: "out_components (compute inp') = out_components (compute inp)" by (simp only: compute_fields(3) n r)
  show "out_results (compute inp') = out_results (compute inp)"
    unfolding compute_fields(4) down comps n using assms by (simp add: republished_def unmonitored comp_def)
  show "out_outages (compute inp') = out_outages (compute inp)"
    unfolding out_outages_compute n using assms by (simp add: republished_def unmonitored comp_def)
qed

lemma map_of_rev_map:
  assumes "distinct (map f xs)" "a \<in> set xs"
  shows "map_of (rev (map (\<lambda>a. (f a, g a)) xs)) (f a) = Some (g a)"
proof -
  have "distinct (map fst (rev (map (\<lambda>a. (f a, g a)) xs)))" using assms(1) by (simp add: rev_map [symmetric] comp_def)
  moreover have "(f a, g a) \<in> set (rev (map (\<lambda>a. (f a, g a)) xs))" using assms(2) by auto
  ultimately show ?thesis by (rule map_of_is_SomeI)
qed

lemma built_parts:
  assumes "build_report x cd zones inst img now t svc p = Inr (r, bs)"
  shows "\<exists>xs obs. list_objectives x cd t (svc_id svc) = Inr obs \<and> rp_output r = compute (report_input x t svc p xs obs) \<and>
    bs = evidence_buckets x t (svc_id svc) (p_from p) (p_to p) \<and> rp_period r = p \<and>
    rp_rollups r = map (\<lambda>c. (cmp_id c, cmp_rollup c)) (list_components x t (svc_id svc)) \<and>
    map fst (rp_outages r) = out_outages (rp_output r)"
  using assms
  by (auto simp: build_report_def Let_def attach_incidents_def comp_def split: sum.splits option.splits)

text \<open>A document issued for a report, whatever its evidence record and signature say.\<close>

definition issued :: "report \<Rightarrow> report_doc \<Rightarrow> bool" where
  "issued r d \<longleftrightarrow> (\<exists>i f ev key alg sig. d = (doc_of i f r)\<lparr>rd_evidence := ev, rd_key := key, rd_alg := alg, rd_signature := sig\<rparr>)"

lemma issued_fields:
  assumes "issued r d"
  shows "rd_period d = rp_period r" "rd_ast d = out_ast (rp_output r)" "rd_downtime d = out_downtime (rp_output r)"
    "rd_results d = out_results (rp_output r)" "rd_exclusions d = out_exclusions (rp_output r)"
    "rd_objectives d = out_objectives (rp_output r)" "rd_outages d = rp_outages r"
    "rd_components d = map (\<lambda>c. (c, rollup_for r (cr_id c))) (out_components (rp_output r))"
  using assms by (auto simp: issued_def doc_of_def)

lemma recompute_republishes:
  assumes "build_report x cd zones inst img now t svc p = Inr (r, ev_buckets ev)" "issued r d"
    and "distinct (map cmp_id (list_components x t (svc_id svc)))"
  shows "\<exists>xs obs. list_objectives x cd t (svc_id svc) = Inr obs \<and> rp_output r = compute (report_input x t svc p xs obs) \<and>
    republished (recompute_input d ev) (report_input x t svc p xs obs)"
proof -
  obtain xs obs where b: "list_objectives x cd t (svc_id svc) = Inr obs" "rp_output r = compute (report_input x t svc p xs obs)"
    "ev_buckets ev = evidence_buckets x t (svc_id svc) (p_from p) (p_to p)" "rp_period r = p"
    "rp_rollups r = map (\<lambda>c. (cmp_id c, cmp_rollup c)) (list_components x t (svc_id svc))"
    using built_parts [OF assms(1)] by blast
  have roll: "rollup_for r (cmp_id c) = cmp_rollup c" if "c \<in> set (list_components x t (svc_id svc))" for c
    using map_of_rev_map [OF assms(3) that, of cmp_rollup] by (simp add: rollup_for_def b(5))
  have "in_components (recompute_input d ev) = map (\<lambda>c. c\<lparr>c_monitors := []\<rparr>) (in_components (report_input x t svc p xs obs))"
    unfolding recompute_input_def input.simps issued_fields [OF assms(2)] b(2) compute_fields(3)
    using roll by (simp add: report_input_def component_input_of_def component_result_of_def Let_def b(3))
  then have "republished (recompute_input d ev) (report_input x t svc p xs obs)"
    by (simp add: republished_def recompute_input_def issued_fields [OF assms(2)] b(2,4)) (simp add: report_input_def)
  with b(1,2) show ?thesis by blast
qed

lemma undeclared_none:
  assumes "out_outages out = map fst (rd_outages d)"
  shows "undeclared_seconds d out = 0"
proof -
  have z: "total (subtract [Iv (ou_from ou) (ou_to ou)]
      (map (\<lambda>(e, i). Iv (ou_from e) (ou_to e)) (filter (\<lambda>(e, i). ou_component e = ou_component ou) (rd_outages d)))) = 0"
    if ou: "ou \<in> fst ` set (rd_outages d)" for ou
  proof -
    let ?ds = "map (\<lambda>(e, i). Iv (ou_from e) (ou_to e)) (filter (\<lambda>(e, i). ou_component e = ou_component ou) (rd_outages d))"
    obtain i where "(ou, i) \<in> set (rd_outages d)" using ou by auto
    then have "Iv (ou_from ou) (ou_to ou) \<in> set ?ds" by force
    then have "instants (subtract [Iv (ou_from ou) (ou_to ou)] ?ds) = {}" by (fastforce simp: instants_iff [of _ ?ds])
    then show ?thesis using total_card [of "subtract [Iv (ou_from ou) (ou_to ou)] ?ds"] by (simp del: instants_subtract)
  qed
  have "foldl (\<lambda>m ou. i64 (m + total (subtract [Iv (ou_from ou) (ou_to ou)]
      (map (\<lambda>(e, i). Iv (ou_from e) (ou_to e)) (filter (\<lambda>(e, i). ou_component e = ou_component ou) (rd_outages d)))))) 0 ous = 0"
    if "set ous \<subseteq> fst ` set (rd_outages d)" for ous
    using that z by (induction ous) simp_all
  then show ?thesis unfolding undeclared_seconds_def assms by simp
qed


section \<open>The floor in the reason\<close>

lemma read_nat_zeros [simp]: "read_nat (replicate k CHR ''0'' @ s) = read_nat s"
  by (induction k) (simp_all add: read_nat_def)

lemma digit_plain: "is_digit c \<Longrightarrow> c \<notin> {CHR '' '', CHR ''-'', CHR ''+'', CHR ''.'', CHR ''%'', CHR ''b''}"
  by (auto simp: is_digit_def)

lemma scan_digits:
  assumes "ds \<noteq> []" "list_all is_digit ds" "\<not> is_digit c" "in_i64 (int (read_nat ds))"
  shows "scan_int (ds @ c # rest) = Some (int (read_nat ds), c # rest)"
proof -
  obtain e es where ds: "ds = e # es" "is_digit e" using assms(1,2) by (cases ds) auto
  note plain = digit_plain [OF ds(2)]
  have t: "takeWhile is_digit (ds @ c # rest) = ds" "dropWhile is_digit (ds @ c # rest) = c # rest"
    using assms(2,3) by (auto simp: list_all_iff takeWhile_append2 dropWhile_append2)
  have "parse_int ds = Some (int (read_nat ds))"
    using assms plain unfolding ds by (simp add: parse_int_def)
  with t plain show ?thesis unfolding ds by (simp add: scan_int_def)
qed

lemma scan_parts:
  assumes "w \<le> 100" "z < 1000"
  shows "scan_floor (show_nat w @ CHR ''.'' # replicate k CHR ''0'' @ show_nat z @ CHR ''%'' # rest) = Some (int (w * 10000 + z * 10))"
proof -
  let ?p = "replicate k CHR ''0'' @ show_nat z"
  have "scan_int (show_nat w @ CHR ''.'' # ?p @ CHR ''%'' # rest) = Some (int w, CHR ''.'' # ?p @ CHR ''%'' # rest)"
    using assms(1) scan_digits [of "show_nat w" "CHR ''.''"] by (simp add: show_nat_digits in_i64_def is_digit_def)
  moreover have "list_all is_digit ?p"
    using show_nat_digits [of z] by (simp add: list_all_append) (simp add: list_all_iff is_digit_def)
  then have "scan_int (?p @ CHR ''%'' # rest) = Some (int z, CHR ''%'' # rest)"
    using assms(2) scan_digits [of ?p "CHR ''%''" rest] by (simp add: in_i64_def is_digit_def)
  ultimately show ?thesis using assms by (simp add: scan_floor_def i64_id in_i64_def)
qed

lemma scan_format:
  assumes "0 \<le> f" "f \<le> 1000000" "f mod 10 = 0"
  shows "scan_floor (format_ppm f @ rest) = Some f"
proof -
  define w z where "w = nat (f div 10000)" and "z = nat (f mod 10000 div 10)"
  have q: "w \<le> 100" "z < 1000" "f div 10000 = int w" "f mod 10000 div 10 = int z" "int (w * 10000 + z * 10) = f"
  proof -
    have r: "0 \<le> f mod 10000" "f mod 10000 < 10000" "f = 10000 * (f div 10000) + f mod 10000" by simp_all
    have "f mod 10000 mod 10 = 0" using assms(3) by (simp add: mod_mod_cancel)
    then have z: "f mod 10000 = 10 * (f mod 10000 div 10)" by (metis add.right_neutral mult_div_mod_eq)
    then have "0 \<le> f div 10000" "f div 10000 \<le> 100" "0 \<le> f mod 10000 div 10" "f mod 10000 div 10 < 1000"
      using r assms(1,2) by linarith+
    then have wz: "f div 10000 = int w" "f mod 10000 div 10 = int z" "w \<le> 100" "z < 1000"
      unfolding w_def z_def by simp_all
    then have "int (w * 10000 + z * 10) = f" using r(3) z by simp
    with wz show "w \<le> 100" "z < 1000" "f div 10000 = int w" "f mod 10000 div 10 = int z" "int (w * 10000 + z * 10) = f"
      by simp_all
  qed
  have "format_ppm f @ rest = show_nat w @ CHR ''.'' # replicate (3 - length (show_nat z)) CHR ''0'' @ show_nat z @ CHR ''%'' # rest"
    using assms(1) q(3,4) by (simp add: format_ppm_def show_int_def show_int_pad_def)
  then show ?thesis using scan_parts [OF q(1,2)] q(5) by simp
qed

lemma str_index_after:
  assumes "p = c # p'" "c \<notin> set u"
  shows "str_index (u @ p @ t) p = Some (length u)"
  using assms(2)
proof (induction u)
  case Nil
  then show ?case by (subst str_index.simps) (simp add: has_prefix_append)
next
  case (Cons d u)
  then show ?case using assms(1) by (subst str_index.simps) (auto simp: has_prefix_iff)
qed

lemma format_plain: "CHR ''b'' \<notin> set (format_ppm f)"
proof -
  have n: "CHR ''b'' \<notin> set (show_nat k)" for k
    using show_nat_digits [of k] digit_plain by (auto simp: list_all_iff)
  then show ?thesis by (auto simp: format_ppm_def show_int_def show_int_pad_def)
qed

lemma floor_read_back:
  assumes "r_result r = ObjectiveIndeterminate" "0 \<le> f" "f \<le> 1000000" "f mod 10 = 0"
    and "r_reason r = ''monitoring coverage was '' @ format_ppm c @ '', below the '' @ format_ppm f @ rest"
  shows "floor_in_reason r = Some f"
proof -
  have "str_index (r_reason r) ''below the '' = Some (length (''monitoring coverage was '' @ format_ppm c @ '', ''))"
    using str_index_after [of "''below the ''" "CHR ''b''" "''elow the ''" "''monitoring coverage was '' @ format_ppm c @ '', ''" "format_ppm f @ rest"]
    by (simp add: assms(5) format_plain)
  then show ?thesis using scan_format [OF assms(2-4)] assms(1,5) by (simp add: floor_in_reason_def)
qed

section \<open>An objective evaluated again\<close>

definition verifiable :: "objective \<Rightarrow> bool" where
  "verifiable ob \<longleftrightarrow> o_metric ob \<in> {''availability'', ''user_availability''}"

definition republished_objective :: "objective_result \<Rightarrow> objective" where
  "republished_objective r =
     \<lparr>o_id = r_id r, o_name = r_name r, o_metric = r_metric r, o_target = r_target r, o_window = r_window r,
      o_budget = 0, o_credits = []\<rparr>"

lemma evaluated_fields:
  "r_id (evaluate_one inp n res ob) = o_id ob" "r_name (evaluate_one inp n res ob) = o_name ob"
  "r_metric (evaluate_one inp n res ob) = o_metric ob" "r_target (evaluate_one inp n res ob) = o_target ob"
  by (simp_all add: evaluate_one_def Let_def split: option.split)

lemma implied_floor_agrees:
  assumes "rd_objectives d = map (evaluate_one inp n res) obs" "\<forall>ob\<in>set obs. verifiable ob" "obs \<noteq> []" "n \<noteq> 0"
    and "0 \<le> in_floor inp" "in_floor inp \<le> 1000000" "in_floor inp mod 10 = 0"
  shows "implied_floor d = (if in_floor inp > 0 \<and> rs_coverage res < in_floor inp then in_floor inp else 0)"
proof -
  let ?bites = "in_floor inp > 0 \<and> rs_coverage res < in_floor inp"
  have one: "floor_in_reason (evaluate_one inp n res ob) = (if ?bites then Some (in_floor inp) else None)"
    if ob: "ob \<in> set obs" for ob
  proof (cases ?bites)
    case True
    then show ?thesis
      using ob assms(2,4) floor_read_back [of "evaluate_one inp n res ob" "in_floor inp" "rs_coverage res" "'' floor for this service''"] assms(5-7)
      by (auto simp: evaluate_one_def Let_def achieved_of_def verifiable_def)
  next
    case False
    then show ?thesis using ob assms(2,4)
      by (auto simp: floor_in_reason_def evaluate_one_def Let_def achieved_of_def verifiable_def)
  qed
  obtain ob rest where obs: "obs = ob # rest" using assms(3) by (cases obs) auto
  have "List.map_filter floor_in_reason (rd_objectives d) = (if ?bites then map (\<lambda>_. in_floor inp) obs else [])"
    unfolding assms(1) using one by (induction obs) (auto simp: List.map_filter_simps)
  then show ?thesis by (simp add: implied_floor_def obs)
qed

lemma evaluated_verdict:
  assumes "verifiable ob"
  shows "r_achieved (evaluate_one inp n res ob) =
      (if o_metric ob = ''availability'' then rs_availability res else rs_user_availability res)"
    "r_result (evaluate_one inp n res ob) =
      (if n = 0 \<or> (in_floor inp > 0 \<and> rs_coverage res < in_floor inp) then ObjectiveIndeterminate
       else if o_target ob \<le> (if o_metric ob = ''availability'' then rs_availability res else rs_user_availability res)
       then ObjectiveMet else ObjectiveBreached)"
  using assms by (auto simp: evaluate_one_def achieved_of_def verifiable_def Let_def)

lemma evaluated_again:
  assumes "verifiable ob" "n = 0 \<or> (in_floor inp' > 0 \<and> rs_coverage res < in_floor inp' \<longleftrightarrow> in_floor inp > 0 \<and> rs_coverage res < in_floor inp)"
  shows "r_result (evaluate_one inp' n res (republished_objective (evaluate_one inp n res ob))) = r_result (evaluate_one inp n res ob)"
    "r_achieved (evaluate_one inp' n res (republished_objective (evaluate_one inp n res ob))) = r_achieved (evaluate_one inp n res ob)"
proof -
  let ?ob = "republished_objective (evaluate_one inp n res ob)"
  have o: "o_metric ?ob = o_metric ob" "o_target ?ob = o_target ob"
    by (simp_all add: republished_objective_def evaluated_fields)
  then have "verifiable ?ob" using assms(1) by (simp add: verifiable_def)
  then show "r_result (evaluate_one inp' n res ?ob) = r_result (evaluate_one inp n res ob)"
    "r_achieved (evaluate_one inp' n res ?ob) = r_achieved (evaluate_one inp n res ob)"
    using assms(2) by (auto simp: evaluated_verdict assms(1) o)
qed


lemma objectives_pass:
  assumes obs: "rd_objectives d = map (evaluate_one inp n res) obs" "distinct (map o_id obs)" "\<forall>ob\<in>set obs. verifiable ob"
    and out: "out_objectives out = map (evaluate_one inp' n res) (map republished_objective (rd_objectives d))"
    and floor: "n = 0 \<or> obs = [] \<or> (in_floor inp' > 0 \<and> rs_coverage res < in_floor inp' \<longleftrightarrow> in_floor inp > 0 \<and> rs_coverage res < in_floor inp)"
  shows "accepted (concat (map (objective_checks out) (rd_objectives d)))"
proof -
  let ?again = "\<lambda>ob. evaluate_one inp' n res (republished_objective (evaluate_one inp n res ob))"
  have ids: "r_id (?again ob) = o_id ob" for ob
    by (simp add: evaluated_fields republished_objective_def)
  have "accepted (objective_checks out (evaluate_one inp n res ob))" if ob: "ob \<in> set obs" for ob
  proof -
    have "filter (\<lambda>got. r_id got = o_id ob) (map ?again obs) = map ?again (filter (\<lambda>o'. o_id o' = o_id ob) obs)"
      by (simp add: filter_map comp_def ids)
    also have "filter (\<lambda>o'. o_id o' = o_id ob) obs = [ob]"
      using obs(2) ob by (induction obs) (auto simp: filter_empty_conv intro: rev_image_eqI)
    finally have "filter (\<lambda>got. r_id got = o_id ob) (out_objectives out) = [?again ob]"
      by (simp add: out obs(1) comp_def)
    moreover have "r_result (?again ob) = r_result (evaluate_one inp n res ob) \<and> r_achieved (?again ob) = r_achieved (evaluate_one inp n res ob)"
      using evaluated_again [of ob n inp' res inp] obs(3) ob floor by auto
    ultimately show ?thesis by (simp add: objective_checks_def evaluated_fields accepted_def passed_def)
  qed
  then show ?thesis unfolding obs(1) by (auto simp: accepted_def list_all_iff)
qed

lemma recorded_arithmetic_passes:
  assumes "build_report x cd zones inst img now t svc p = Inr (r, ev_buckets ev)" "issued r d"
    and "list_objectives x cd t (svc_id svc) = Inr obs"
    and "distinct (map cmp_id (list_components x t (svc_id svc)))"
    and "distinct (map o_id obs)" "\<forall>ob\<in>set obs. verifiable ob"
    and "0 \<le> svc_coverage_floor svc" "svc_coverage_floor svc \<le> 1000000" "svc_coverage_floor svc mod 10 = 0"
  shows "accepted (arithmetic_checks d ev)"
proof -
  obtain xs where out: "rp_output r = compute (report_input x t svc p xs obs)"
    and rep: "republished (recompute_input d ev) (report_input x t svc p xs obs)"
    using recompute_republishes [OF assms(1,2,4)] assms(3) by auto
  define inp inp' where "inp = report_input x t svc p xs obs" and "inp' = recompute_input d ev"
  note same = republished_compute [OF rep, folded inp_def inp'_def]
  note doc = issued_fields [OF assms(2), unfolded out, folded inp_def]
  let ?n = "total (net_of inp)" and ?res = "out_results (compute inp)"
  have base: "in_objectives inp = obs" and floor: "in_floor inp = svc_coverage_floor svc"
    by (simp_all add: inp_def report_input_def)
  have again: "in_objectives inp' = map republished_objective (rd_objectives d)" and floor': "in_floor inp' = implied_floor d"
    by (simp_all add: inp'_def recompute_input_def republished_objective_def)
  have objs: "rd_objectives d = map (evaluate_one inp ?n ?res) obs"
    by (simp add: doc compute_fields(6) base)
  have "accepted (concat (map (objective_checks (compute inp')) (rd_objectives d)))"
  proof (rule objectives_pass [OF objs assms(5,6)])
    show "out_objectives (compute inp') = map (evaluate_one inp' ?n ?res) (map republished_objective (rd_objectives d))"
      by (simp only: compute_fields(6) same again)
    show "?n = 0 \<or> obs = [] \<or> (in_floor inp' > 0 \<and> rs_coverage ?res < in_floor inp' \<longleftrightarrow> in_floor inp > 0 \<and> rs_coverage ?res < in_floor inp)"
      using implied_floor_agrees [OF objs assms(6)] assms(7-9) by (auto simp: floor floor' split: if_splits)
  qed
  moreover have "accepted (figure_checks (compute inp') d)"
    by (simp add: figure_checks_def doc same accepted_def passed_def)
  moreover have "map fst (rd_outages d) = out_outages (compute inp')"
    using built_parts [OF assms(1)] same by (auto simp: doc out inp_def)
  then have "undeclared_seconds d (compute inp') = 0" by (intro undeclared_none) simp
  ultimately show ?thesis
    by (simp add: arithmetic_checks_def Let_def accepted_def inp'_def passed_def)
qed


text \<open>
  What the service stores beside a report: the hash of its intervals, and its own row in the
  register, proved and signed, holding the document and that hash.
\<close>

definition recorded :: "outside \<Rightarrow> trust \<Rightarrow> report_doc \<Rightarrow> report_evidence \<Rightarrow> bool" where
  "recorded x tr d ev \<longleftrightarrow> ev_hash ev = hash_buckets x (ev_buckets ev) \<and>
     (\<exists>b. find (\<lambda>b. eb_table b = ''reports'') (ev_proofs ev) = Some b \<and> verify_bundle_proof tr b \<and> verify_bundle_signature x tr b \<and>
        (\<forall>body. write_json (x_fmt x) (report_json (report_core d)) = Some body \<longrightarrow>
           map_of (eb_row b) ''document'' = Some (JStr (x_b64 x body))) \<and>
        map_of (eb_row b) ''evidence_hash'' = Some (JStr (ev_hash ev)) \<and>
        (\<forall>sc. eb_checkpoint b = Some sc \<longrightarrow> verify_checkpoint x tr sc))"

lemma recorded_row_passes:
  assumes "recorded x tr d ev" "\<And>s. x_unb64 x (x_b64 x s) = Some s"
  shows "accepted (row_checks x tr d ev)"
proof -
  obtain b where b: "find (\<lambda>b. eb_table b = ''reports'') (ev_proofs ev) = Some b" "verify_bundle_proof tr b" "verify_bundle_signature x tr b"
    "map_of (eb_row b) ''evidence_hash'' = Some (JStr (ev_hash ev))"
    and body: "\<And>body. write_json (x_fmt x) (report_json (report_core d)) = Some body \<Longrightarrow> map_of (eb_row b) ''document'' = Some (JStr (x_b64 x body))"
    and cp: "\<And>sc. eb_checkpoint b = Some sc \<Longrightarrow> verify_checkpoint x tr sc"
    using assms(1) unfolding recorded_def by blast
  define w where "w = write_json (x_fmt x) (report_json (report_core d))"
  have "accepted (case (w, map_of (eb_row b) ''document'') of (Some body, Some stored) \<Rightarrow> [judge ''document'' (same_document x stored body)] | _ \<Rightarrow> [])"
    using body [folded w_def] assms(2) by (cases w) (simp_all add: accepted_def same_document_def passed_def)
  moreover have "accepted (case eb_checkpoint b of None \<Rightarrow> [] | Some sc \<Rightarrow> [judge ''anchor'' (verify_checkpoint x tr sc)])"
    using cp by (cases "eb_checkpoint b") (simp_all add: accepted_def passed_def)
  ultimately show ?thesis
    unfolding row_checks_def w_def [symmetric] by (simp add: b accepted_def passed_def)
qed

lemma signed_report:
  assumes "sign_report x sign key doc = Some d" "\<And>m. tr_verify tr m (sign m)" "\<And>s. x_unb64 x (x_b64 x s) = Some s"
  shows "verify_report_signature x tr d" "\<exists>sig. d = doc\<lparr>rd_key := key, rd_alg := Algorithm, rd_signature := sig\<rparr>"
  using assms by (auto simp: sign_report_def verify_report_signature_def verify_signed_bytes_def Let_def)

lemma sealed_reports_pass:
  assumes "sign_report x sign key ((doc_of i f r)\<lparr>rd_evidence := Some ev\<rparr>) = Some d" "recorded x tr d ev"
    and "\<And>m. tr_verify tr m (sign m)" "\<And>s. x_unb64 x (x_b64 x s) = Some s"
    and arithmetic: "issued r d \<Longrightarrow> accepted (arithmetic_checks d ev)"
  shows "\<exists>cs. verify_report x tr d = Inr cs \<and> accepted cs"
proof -
  obtain sig where d: "d = (doc_of i f r)\<lparr>rd_evidence := Some ev, rd_key := key, rd_alg := Algorithm, rd_signature := sig\<rparr>"
    using signed_report(2) [OF assms(1,3,4)] by auto
  then have "issued r d" unfolding issued_def by blast
  from arithmetic [OF this] have "accepted (arithmetic_checks d ev)" .
  moreover have "accepted (row_checks x tr d ev)" using recorded_row_passes assms(2,4) .
  moreover have "verify_report_signature x tr d" using signed_report(1) [OF assms(1,3,4)] .
  moreover have "rd_evidence d = Some ev" by (simp add: d)
  ultimately show ?thesis using assms(2) by (simp add: verify_report_def accepted_def recorded_def passed_def)
qed

definition sample_trust :: trust where
  "sample_trust = \<lparr>tr_verify = (\<lambda>m s. s = m), tr_proof = (\<lambda>_ _ _. Some True), tr_link = (\<lambda>a b v. a @ b @ show_int v)\<rparr>"

lemma sample_outside_codes: "x_unb64 sample_outside (x_b64 sample_outside s) = Some s"
  by (simp add: sample_outside_def)

lemma sample_writes: "write_json (x_fmt sample_outside) j \<noteq> None"
  by (simp add: sample_outside_def write_json_total)

text \<open>A bundle proving a row of the reports table that holds the given document and hash.\<close>

definition sample_row_bundle :: "string \<Rightarrow> string \<Rightarrow> evidence_bundle" where
  "sample_row_bundle body h =
     \<lparr>eb_instance = ''monitor'', eb_statement = [], eb_table = ''reports'', eb_key = [JStr ''r1''], eb_present = True,
      eb_row = [(''document'', JStr body), (''evidence_hash'', JStr h)], eb_ledger_key = [], eb_ledger_value = [],
      eb_path = replicate 64 CHR ''0'', eb_proof = [], eb_root = replicate 64 CHR ''0'', eb_version = 1, eb_issued = 1,
      eb_checkpoint = None, eb_key_id = [], eb_alg = Algorithm, eb_signature = []\<rparr>"

definition sample_proof :: "string \<Rightarrow> string \<Rightarrow> evidence_bundle" where
  "sample_proof body h = the (sign_bundle sample_outside (\<lambda>m. m) ''k'' (sample_row_bundle body h))"

lemma sample_proof_ok:
  "eb_table (sample_proof body h) = ''reports''" "eb_row (sample_proof body h) = [(''document'', JStr body), (''evidence_hash'', JStr h)]"
  "eb_checkpoint (sample_proof body h) = None" "verify_bundle_proof sample_trust (sample_proof body h)"
  "verify_bundle_signature sample_outside sample_trust (sample_proof body h)"
proof -
  let ?b = "(sample_row_bundle body h)\<lparr>eb_key_id := ''k'', eb_alg := Algorithm, eb_signature := []\<rparr>"
  obtain w where t: "write_json (x_fmt sample_outside) (bundle_json ?b) = Some w" using sample_writes by blast
  have p: "sample_proof body h = ?b\<lparr>eb_signature := w\<rparr>"
    unfolding sample_proof_def sign_bundle_def Let_def t by (simp add: sample_outside_def)
  show "eb_table (sample_proof body h) = ''reports''" "eb_row (sample_proof body h) = [(''document'', JStr body), (''evidence_hash'', JStr h)]"
    "eb_checkpoint (sample_proof body h) = None"
    by (simp_all add: p sample_row_bundle_def)
  have "parse_hash (replicate 64 CHR ''0'') \<noteq> None" by code_simp
  then show "verify_bundle_proof sample_trust (sample_proof body h)"
    by (auto simp: verify_bundle_proof_def p sample_row_bundle_def sample_trust_def)
  have "?b\<lparr>eb_signature := w, eb_signature := []\<rparr> = ?b" by simp
  then show "verify_bundle_signature sample_outside sample_trust (sample_proof body h)"
    unfolding verify_bundle_signature_def p by (simp add: verify_signed_bytes_def t) (simp add: sample_outside_def sample_trust_def)
qed

lemma sample_objectives: "list_objectives sample_outside sample_codec report_tables (svc_id sample_service) = Inr []"
  and sample_components: "list_components sample_outside report_tables (svc_id sample_service) = []"
  by (simp_all add: list_objectives_def list_components_def report_tables_def sparse_tables_def)

lemma sample_issued:
  "\<exists>r ev d. build_report sample_outside sample_codec (\<lambda>n. Some utc) ''monitor'' ''sha256'' 20000 report_tables sample_service sample_period =
       Inr (r, ev_buckets ev) \<and>
     sign_report sample_outside (\<lambda>m. m) ''k'' ((doc_of ''r1'' (\<lambda>_. JNull) r)\<lparr>rd_evidence := Some ev\<rparr>) = Some d \<and>
     recorded sample_outside sample_trust d ev"
proof -
  obtain s where s: "read_schedule sample_outside sample_codec report_tables ''s'' = Inr (Some s)"
    "sc_windows s = sc_windows (always_on ''s'' ''shop'' ''UTC'' 0)" "sc_exceptions s = []"
    by (simp add: read_schedule_def report_tables_def row_at_def selects_def null_row_def row_bytes_def sample_codec_def always_on_def Let_def)
  obtain xs where xs: "expand (\<lambda>n. Some utc) s 0 10800 = Inr xs" by (simp add: expand_def)
  obtain r bs where r: "build_report sample_outside sample_codec (\<lambda>n. Some utc) ''monitor'' ''sha256'' 20000 report_tables sample_service sample_period =
      Inr (r, bs)"
    using s(1) xs sample_objectives by (simp add: build_report_def Let_def sample_service_def sample_period_def)
  let ?doc = "doc_of ''r1'' (\<lambda>_. JNull) r"
  obtain body where body: "write_json (x_fmt sample_outside) (report_json (report_core ?doc)) = Some body" using sample_writes by blast
  define h where "h = hash_buckets sample_outside bs"
  define ev where "ev = \<lparr>ev_root = [], ev_version = 1, ev_checkpoint = None, ev_hash = h, ev_buckets = bs, ev_proofs = [sample_proof body h]\<rparr>"
  obtain d where d: "sign_report sample_outside (\<lambda>m. m) ''k'' (?doc\<lparr>rd_evidence := Some ev\<rparr>) = Some d"
  proof -
    have "sign_report sample_outside (\<lambda>m. m) ''k'' (?doc\<lparr>rd_evidence := Some ev\<rparr>) \<noteq> None"
      unfolding sign_report_def Let_def using sample_writes by (simp del: not_None_eq)
    then show ?thesis using \<open>\<And>d. sign_report sample_outside (\<lambda>m. m) ''k'' (?doc\<lparr>rd_evidence := Some ev\<rparr>) = Some d \<Longrightarrow> thesis\<close> by blast
  qed
  have "report_core d = report_core ?doc"
    using signed_report(2) [OF d, of sample_trust] by (auto simp: sample_trust_def sample_outside_codes report_core_def)
  then have rec: "recorded sample_outside sample_trust d ev"
    using body sample_proof_ok by (simp add: recorded_def ev_def h_def) (simp add: sample_outside_def)
  show ?thesis by (intro exI [of _ r] exI [of _ ev] exI [of _ d] conjI d rec) (use r in \<open>simp add: ev_def\<close>)
qed



section \<open>What is accepted is honest\<close>

lemma foldl_sum_fits:
  assumes "\<And>a. a \<in> set as \<Longrightarrow> 0 \<le> f a \<and> f a \<le> L" "0 \<le> m" "m + int (length as) * L < 2 ^ 63" "0 \<le> L"
  shows "foldl (\<lambda>m a. i64 (m + f a)) m as = m + sum_list (map f as)"
  using assms
proof (induction as arbitrary: m)
  case (Cons a as)
  have fa: "0 \<le> f a" "f a \<le> L" using Cons.prems(1) by auto
  have "0 \<le> int (length as) * L" using Cons.prems(4) by simp
  moreover have "m + f a + int (length as) * L < 2 ^ 63" using Cons.prems(3) fa by (simp add: algebra_simps)
  ultimately have "0 \<le> m + f a" "m + f a < 2 ^ 63" using Cons.prems(2) fa by linarith+
  then have "i64 (m + f a) = m + f a" by (intro i64_id) (simp add: in_i64_def)
  then show ?case
    using Cons.IH [of "m + f a"] Cons.prems fa \<open>m + f a + int (length as) * L < 2 ^ 63\<close> by simp
qed simp

definition declared_at :: "report_doc \<Rightarrow> string \<Rightarrow> int \<Rightarrow> bool" where
  "declared_at d c u \<longleftrightarrow> (\<exists>(ou, i)\<in>set (rd_outages d). ou_component ou = c \<and> ou_from ou \<le> u \<and> u < ou_to ou)"

definition missing_of :: "report_doc \<Rightarrow> outage \<Rightarrow> interval list" where
  "missing_of d ou = subtract [Iv (ou_from ou) (ou_to ou)]
     (map (\<lambda>(e, i). Iv (ou_from e) (ou_to e)) (filter (\<lambda>(e, i). ou_component e = ou_component ou) (rd_outages d)))"

lemma missing_points:
  "u \<in> instants (missing_of d ou) \<longleftrightarrow> ou_from ou \<le> u \<and> u < ou_to ou \<and> \<not> declared_at d (ou_component ou) u"
  by (auto simp: missing_of_def declared_at_def instants_iff [of _ "map _ _"])

lemma outage_in_net:
  assumes "ou \<in> set (out_outages (compute inp))"
  shows "{ou_from ou..<ou_to ou} \<subseteq> instants (net_of inp)"
proof -
  obtain c iv where "c \<in> set (in_components inp)" and iv: "iv \<in> set (merge (down_in (net_of inp) c))"
      "ou_from ou = iv_from iv" "ou_to ou = iv_to iv"
    using assms unfolding out_outages_compute outages_of_def by fastforce
  have "v \<in> instants (merge (down_in (net_of inp) c))" if "ou_from ou \<le> v" "v < ou_to ou" for v
    unfolding instants_iff using iv that by auto
  then show ?thesis by (auto simp: instants_down_in)
qed

lemma nothing_missing:
  assumes fits: "period_fits inp" and few: "length (out_outages (compute inp)) \<le> 1000000"
    and none: "\<not> undeclared_seconds d (compute inp) > 0"
    and u: "u \<in> net_secs inp" "c \<in> set (in_components inp)" "comp_down_at c u"
  shows "declared_at d (c_id c) u"
proof -
  let ?f = "\<lambda>ou. total (missing_of d ou)"
  have card: "?f ou = int (card (instants (missing_of d ou)))" "?f ou \<le> ratio_limit" if "ou \<in> set (out_outages (compute inp))" for ou
  proof -
    have "instants (missing_of d ou) \<subseteq> agreed_secs inp"
      using outage_in_net [OF that] secs_chain(2) [of inp] by (auto simp: missing_points net_instants [OF fits])
    then show "?f ou = int (card (instants (missing_of d ou)))" "?f ou \<le> ratio_limit"
      using total_sub_agreed [OF fits] card_sub_agreed [OF fits] by simp_all
  qed
  have sum: "undeclared_seconds d (compute inp) = sum_list (map ?f (out_outages (compute inp)))"
    unfolding undeclared_seconds_def missing_of_def [symmetric]
    by (subst foldl_sum_fits [where L = ratio_limit]) (use card few in \<open>auto simp: ratio_limit_def\<close>)
  have "u \<in> instants (down_in (net_of inp) c)" using u net_instants [OF fits] by (simp add: instants_down_in)
  then have "u \<in> instants (merge (down_in (net_of inp) c))" by simp
  then obtain iv where iv: "iv \<in> set (merge (down_in (net_of inp) c))" "iv_from iv \<le> u" "u < iv_to iv"
    unfolding instants_iff by blast
  define ou where "ou = \<lparr>ou_component = c_id c, ou_from = iv_from iv, ou_to = iv_to iv, ou_seconds = seconds iv\<rparr>"
  have ou: "ou \<in> set (out_outages (compute inp))" "ou_component ou = c_id c" "ou_from ou = iv_from iv" "ou_to ou = iv_to iv"
    using iv(1) u(2) by (auto simp: out_outages_compute outages_of_def ou_def)
  have "?f ou = 0"
  proof -
    have "\<forall>v\<in>set (map ?f (out_outages (compute inp))). 0 \<le> v" using card by auto
    then have "\<forall>v\<in>set (map ?f (out_outages (compute inp))). v = 0"
      using none sum sum_list_nonneg_eq_0_iff [of "map ?f (out_outages (compute inp))"] sum_list_nonneg [of "map ?f (out_outages (compute inp))"]
      by fastforce
    then show ?thesis using ou(1) by auto
  qed
  then have "instants (missing_of d ou) = {}" using card(1) [OF ou(1)] by simp
  then show ?thesis using missing_points [of u d ou] ou iv by auto
qed




section \<open>What a lineage binds\<close>

text \<open>The links a lineage computes, and two lineages that hash different pairs to one link.\<close>

fun links_used :: "trust \<Rightarrow> string \<Rightarrow> string \<Rightarrow> int \<Rightarrow> root_at list \<Rightarrow> (string \<times> string \<times> int) list" where
  "links_used tr head rt v [] = []"
| "links_used tr head rt v (e # es) = (head, rt, ra_version e) #
     (case parse_hash (ra_root e) of None \<Rightarrow> []
      | Some rt' \<Rightarrow> links_used tr (tr_link tr head rt (ra_version e)) rt' (ra_version e) es)"

definition lineage_links :: "trust \<Rightarrow> lineage \<Rightarrow> (string \<times> string \<times> int) list" where
  "lineage_links tr doc =
     (case ln_from doc of None \<Rightarrow> []
      | Some frm \<Rightarrow> let f = sc_checkpoint frm
          in links_used tr (the (parse_hash (cp_head f))) (the (parse_hash (cp_root f))) (cp_version f) (sort_key ra_version (ln_roots doc)))"

definition collision :: "trust \<Rightarrow> string \<times> string \<times> int \<Rightarrow> string \<times> string \<times> int \<Rightarrow> bool" where
  "collision tr p q =
     (case (p, q) of ((a, r, v), (b, s, w)) \<Rightarrow> v = w \<and> (a, r) \<noteq> (b, s) \<and> tr_link tr a r v = tr_link tr b s w)"

definition clash :: "trust \<Rightarrow> (string \<times> string \<times> int) list \<Rightarrow> (string \<times> string \<times> int) list \<Rightarrow> bool" where
  "clash tr xs ys \<longleftrightarrow> (\<exists>p\<in>set xs. \<exists>q\<in>set ys. collision tr p q)"

definition stated_root :: "root_at \<Rightarrow> int \<times> string option" where
  "stated_root e = (ra_version e, parse_hash (ra_root e))"

lemma fold_version: "fold_roots tr head rt v es = Inr (head', n) \<Longrightarrow> n = v + int (length es)"
  by (induction es arbitrary: head rt v) (force split: if_splits option.splits)+

lemma clash_Cons: "clash tr xs ys \<Longrightarrow> clash tr (x # xs) (y # ys)"
  by (auto simp: clash_def)

lemma clash_head: "(a, r) \<noteq> (b, s) \<Longrightarrow> tr_link tr a r v = tr_link tr b s v \<Longrightarrow> clash tr ((a, r, v) # xs) ((b, s, v) # ys)"
  by (simp add: clash_def collision_def)

lemma fold_binds:
  assumes "fold_roots tr a r v es = Inr (h, n)" "fold_roots tr b s v fs = Inr (h, n)"
    and "\<not> clash tr (links_used tr a r v es) (links_used tr b s v fs)"
  shows "a = b \<and> (es \<noteq> [] \<longrightarrow> r = s) \<and> map stated_root (butlast es) = map stated_root (butlast fs)"
  using assms
proof (induction es arbitrary: a r v b s fs)
  case Nil
  then have "fs = []" using fold_version [OF Nil.prems(2)] by simp
  with Nil show ?case by simp
next
  case (Cons e es)
  have "length fs = Suc (length es)" using fold_version [OF Cons.prems(1)] fold_version [OF Cons.prems(2)] by simp
  then obtain f gs where fs: "fs = f # gs" "length gs = length es" by (cases fs) auto
  obtain rt st where p: "ra_version e = v + 1" "ra_version f = v + 1" "parse_hash (ra_root e) = Some rt" "parse_hash (ra_root f) = Some st"
    using Cons.prems(1,2) by (auto simp: fs(1) split: if_splits option.splits)
  let ?es = "links_used tr (tr_link tr a r (v + 1)) rt (v + 1) es" and ?gs = "links_used tr (tr_link tr b s (v + 1)) st (v + 1) gs"
  have no: "\<not> clash tr ((a, r, v + 1) # ?es) ((b, s, v + 1) # ?gs)" using Cons.prems(3) p by (simp add: fs(1))
  have folds: "fold_roots tr (tr_link tr a r (v + 1)) rt (v + 1) es = Inr (h, n)" "fold_roots tr (tr_link tr b s (v + 1)) st (v + 1) gs = Inr (h, n)"
    using Cons.prems(1,2) by (simp_all add: p fs(1))
  have "\<not> clash tr ?es ?gs" using no clash_Cons by blast
  note ih = Cons.IH [OF folds this]
  then have "a = b \<and> r = s" using no clash_head by blast
  moreover have "es = [] \<longleftrightarrow> gs = []" using fs(2) by auto
  ultimately show ?case using ih p by (auto simp: fs(1) stated_root_def)
qed

lemma lineage_folds:
  assumes "verify_lineage x tr k doc = Inr cs" "accepted cs"
  obtains frm to head rt head' where "ln_from doc = Some frm" "ln_to doc = Some to" "parse_hash (cp_head (sc_checkpoint frm)) = Some head"
    "parse_hash (cp_root (sc_checkpoint frm)) = Some rt" "parse_hash (cp_head (sc_checkpoint to)) = Some head'"
    "fold_roots tr head rt (cp_version (sc_checkpoint frm)) (sort_key ra_version (ln_roots doc)) = Inr (head', cp_version (sc_checkpoint to))"
proof -
  obtain frm to where ends: "ln_from doc = Some frm" "ln_to doc = Some to"
    using assms(1) by (auto simp: verify_lineage_def split: option.splits)
  note v = assms(1) [unfolded verify_lineage_def ends, simplified, unfolded Let_def]
  obtain head rt where start: "parse_hash (cp_head (sc_checkpoint frm)) = Some head" "parse_hash (cp_root (sc_checkpoint frm)) = Some rt"
    using v by (cases "parse_hash (cp_head (sc_checkpoint frm))"; cases "parse_hash (cp_root (sc_checkpoint frm))") simp_all
  define out where "out = fold_roots tr head rt (cp_version (sc_checkpoint frm)) (sort_key ra_version (ln_roots doc))"
  note v = v [unfolded start, simplified, folded out_def]
  obtain h n where out: "out = Inr (h, n)"
    using v assms(2) by (cases out) (auto simp: accepted_def fault_def split: option.splits)
  have n: "n = cp_version (sc_checkpoint to)"
    using v assms(2) unfolding out by (auto simp: accepted_def fault_def split: if_splits)
  obtain want where want: "parse_hash (cp_head (sc_checkpoint to)) = Some want"
    using v unfolding out by (cases "parse_hash (cp_head (sc_checkpoint to))") (simp_all add: n)
  have "h = want" using v assms(2) unfolding out want by (auto simp: n accepted_def fault_def split: if_splits)
  then show thesis using that [OF ends start want] out n unfolding out_def by simp
qed

text \<open>
  Claim C35. The lineage between two anchors is one history: two documents that both pass the
  check against the same anchors state the same roots for the same versions, save for the
  last version, whose root enters no link; otherwise the links the verifier computed on the
  two documents hold a collision of the history link.
\<close>

theorem lineage_binds_the_history:
  assumes "verify_lineage x tr k doc = Inr cs" "accepted cs" "verify_lineage x tr k' doc' = Inr cs'" "accepted cs'"
    and "ln_from doc' = ln_from doc" "ln_to doc' = ln_to doc" "\<not> clash tr (lineage_links tr doc) (lineage_links tr doc')"
  shows "map stated_root (butlast (sort_key ra_version (ln_roots doc))) = map stated_root (butlast (sort_key ra_version (ln_roots doc')))"
proof -
  obtain frm to head rt head' where a: "ln_from doc = Some frm" "ln_to doc = Some to" "parse_hash (cp_head (sc_checkpoint frm)) = Some head"
    "parse_hash (cp_root (sc_checkpoint frm)) = Some rt" "parse_hash (cp_head (sc_checkpoint to)) = Some head'"
    "fold_roots tr head rt (cp_version (sc_checkpoint frm)) (sort_key ra_version (ln_roots doc)) = Inr (head', cp_version (sc_checkpoint to))"
    using lineage_folds [OF assms(1,2)] .
  obtain frm2 to2 head2 rt2 head2' where b: "ln_from doc' = Some frm2" "ln_to doc' = Some to2" "parse_hash (cp_head (sc_checkpoint frm2)) = Some head2"
    "parse_hash (cp_root (sc_checkpoint frm2)) = Some rt2" "parse_hash (cp_head (sc_checkpoint to2)) = Some head2'"
    "fold_roots tr head2 rt2 (cp_version (sc_checkpoint frm2)) (sort_key ra_version (ln_roots doc')) = Inr (head2', cp_version (sc_checkpoint to2))"
    using lineage_folds [OF assms(3,4)] .
  have same: "frm2 = frm" "to2 = to" using a(1,2) b(1,2) assms(5,6) by simp_all
  have start: "head2 = head" "rt2 = rt" "head2' = head'" using a(3-5) b(3-5) by (simp_all add: same)
  note b6 = b(6) [unfolded same start]
  show ?thesis using fold_binds [OF a(6) b6] assms(5,7) a(1,3,4) by (simp add: lineage_links_def Let_def)
qed

text \<open>The last root is free: any hash can stand in its place, since nothing compares it with the later anchor's.\<close>

lemma last_root_is_free:
  assumes "fold_roots tr head rt v (es @ [e]) = Inr out" "parse_hash other \<noteq> None"
  shows "fold_roots tr head rt v (es @ [e\<lparr>ra_root := other\<rparr>]) = Inr out"
  using assms by (induction es arbitrary: head rt v) (auto split: if_splits option.splits)

definition sample_hash :: "char \<Rightarrow> string" where
  "sample_hash c = replicate 64 c"

definition sample_anchor :: "int \<Rightarrow> string \<Rightarrow> string \<Rightarrow> signed_checkpoint" where
  "sample_anchor v head rt =
     \<lparr>sc_checkpoint = \<lparr>cp_instance = ''monitor'', cp_version = v, cp_root = rt, cp_head = head, cp_issued = 0, cp_reason = [],
        cp_image = [], cp_seq = 0, cp_summary = [], cp_previous = None\<rparr>,
      sc_key = ''k'', sc_alg = Algorithm, sc_signature = []\<rparr>"

text \<open>Two lineages from version 1 to 3 that differ in the last root, both accepted.\<close>

definition sample_lineage :: "char \<Rightarrow> lineage" where
  "sample_lineage c =
     \<lparr>ln_from = Some (sample_anchor 1 (sample_hash CHR ''0'') (sample_hash CHR ''1'')),
      ln_to = Some (sample_anchor 3 (sample_hash CHR ''2'') (sample_hash CHR ''3'')),
      ln_roots = [\<lparr>ra_version = 3, ra_root = sample_hash c\<rparr>, \<lparr>ra_version = 2, ra_root = sample_hash CHR ''2''\<rparr>]\<rparr>"

definition plain_link :: trust where
  "plain_link = \<lparr>tr_verify = (\<lambda>_ _. True), tr_proof = (\<lambda>_ _ _. None), tr_link = (\<lambda>a r v. r)\<rparr>"

theorem lineage_binds_the_history_witness:
  "verify_lineage sample_outside plain_link False (sample_lineage CHR ''3'') = Inr [passed ''lineage''] \<and>
   verify_lineage sample_outside plain_link False (sample_lineage CHR ''4'') = Inr [passed ''lineage''] \<and>
   map stated_root (butlast (sort_key ra_version (ln_roots (sample_lineage CHR ''3'')))) =
     map stated_root (butlast (sort_key ra_version (ln_roots (sample_lineage CHR ''4''))))"
proof -
  have v: "verify_lineage sample_outside plain_link False (sample_lineage CHR ''3'') = Inr [passed ''lineage'']"
    "verify_lineage sample_outside plain_link False (sample_lineage CHR ''4'') = Inr [passed ''lineage'']"
    by code_simp+
  have c: "\<not> clash plain_link (lineage_links plain_link (sample_lineage CHR ''3'')) (lineage_links plain_link (sample_lineage CHR ''4''))"
    by code_simp
  have ok: "accepted [passed ''lineage'']" by (simp add: accepted_def passed_def)
  have ends: "ln_from (sample_lineage CHR ''4'') = ln_from (sample_lineage CHR ''3'')"
    "ln_to (sample_lineage CHR ''4'') = ln_to (sample_lineage CHR ''3'')"
    by (simp_all only: sample_lineage_def lineage.simps)
  show ?thesis by (intro conjI v lineage_binds_the_history [OF v(1) ok v(2) ok ends c])
qed

end
