(* ===== verification/Secrets.thy ===== *)
theory Secrets
  imports Wire "HOL-Library.List_Lexorder" "HOL-Library.Char_ord"
begin

text \<open>
  The sealed credential store and the redactor (\<open>internal/secrets/vault.go\<close>,
  \<open>internal/secrets/redact.go\<close>) and the outbound allowlist
  (\<open>internal/journey/egress.go\<close>). AES-GCM, the keyed fingerprint, the file name of
  a value and the random keys are parameters; a write to disk that fails is a flag of the
  operation. Locks leave one operation after another.
\<close>

section \<open>Credentials bound to hosts\<close>

datatype secret_error = ErrUnknown string | ErrBinding string | BadName | EmptyValue | NotAHost string | EveryHost | NoHost | ErrSealed | ErrWrite

definition name_char :: "char \<Rightarrow> bool" where
  "name_char c \<longleftrightarrow>
     (let n = (of_char c :: nat)
      in 97 \<le> n \<and> n \<le> 122 \<or> 65 \<le> n \<and> n \<le> 90 \<or> 48 \<le> n \<and> n \<le> 57 \<or> c \<in> {CHR ''_'', CHR ''-'', CHR ''.''})"

definition valid_name :: "string \<Rightarrow> bool" where
  "valid_name name \<longleftrightarrow> name \<noteq> [] \<and> length name \<le> 64 \<and> list_all name_char name"

definition clean_host :: "string \<Rightarrow> string" where
  "clean_host h = to_lower (trim_space h)"

definition contains_any :: "string \<Rightarrow> string \<Rightarrow> bool" where
  "contains_any s chars \<longleftrightarrow> list_ex (\<lambda>c. c \<in> set chars) s"

definition host_breaks :: string where
  "host_breaks = [CHR ''/'', CHR '' '', CHR 0x09]"

fun clean_hosts :: "string list \<Rightarrow> string list \<Rightarrow> secret_error + string list" where
  "clean_hosts out [] = Inr out"
| "clean_hosts out (h # hs) =
     (let h = clean_host h in
      if h = [] then clean_hosts out hs
      else if contains_any h host_breaks then Inl (NotAHost h)
      else if h = ''*'' then Inl EveryHost
      else clean_hosts (if h \<in> set out then out else out @ [h]) hs)"

definition normalise_hosts :: "string list \<Rightarrow> secret_error + string list" where
  "normalise_hosts hosts = bind_res (clean_hosts [] hosts) (\<lambda>out. Inr (sort out))"

text \<open>\<open>strings.LastIndex(_, ":")\<close>.\<close>

definition last_colon :: "string \<Rightarrow> nat option" where
  "last_colon s =
     (let after = takeWhile (\<lambda>c. c \<noteq> CHR '':'') (rev s)
      in if length after = length s then None else Some (length s - 1 - length after))"

definition bare_host :: "string \<Rightarrow> string" where
  "bare_host host =
     (case last_colon host of
        None \<Rightarrow> host
      | Some i \<Rightarrow> if i > 0 \<and> CHR '']'' \<notin> set (drop i host) then take i host else host)"

definition trim_dot :: "string \<Rightarrow> string" where
  "trim_dot s = (if has_prefix s ''.'' then drop 1 s else s)"

definition binding_covers :: "string \<Rightarrow> string \<Rightarrow> bool" where
  "binding_covers host b =
     (if has_prefix b ''.'' then has_suffix (bare_host host) b \<or> bare_host host = trim_dot b
      else b = host \<or> b = bare_host host)"

definition host_allowed :: "string list \<Rightarrow> string \<Rightarrow> bool" where
  "host_allowed bindings host =
     (let host = clean_host host in host \<noteq> [] \<and> list_ex (binding_covers host) bindings)"

section \<open>The vault\<close>

record sealer =
  sl_seal :: "string \<Rightarrow> string \<Rightarrow> string \<Rightarrow> string"
  sl_open :: "string \<Rightarrow> string \<Rightarrow> string \<Rightarrow> string option"
  sl_path :: "string \<Rightarrow> string"
  sl_print :: "string \<Rightarrow> string"

record entry =
  e_key :: string
  e_hosts :: "string list"

record vault =
  v_entries :: "string \<rightharpoonup> entry"
  v_values :: "string \<rightharpoonup> string"

definition vault_put :: "sealer \<Rightarrow> string \<Rightarrow> bool \<Rightarrow> bool \<Rightarrow> string \<Rightarrow> string \<Rightarrow> string list \<Rightarrow> vault \<Rightarrow> (secret_error + string) \<times> vault" where
  "vault_put sl key written saved name val hosts v =
     (if \<not> valid_name name then (Inl BadName, v)
      else if val = [] then (Inl EmptyValue, v)
      else case normalise_hosts hosts of
        Inl e \<Rightarrow> (Inl e, v)
      | Inr clean \<Rightarrow>
          if clean = [] then (Inl NoHost, v)
          else if \<not> written then (Inl ErrWrite, v)
          else let v' = \<lparr>v_entries = (v_entries v)(name \<mapsto> \<lparr>e_key = key, e_hosts = clean\<rparr>),
                        v_values = (v_values v)(sl_path sl name \<mapsto> sl_seal sl key val name)\<rparr>
            in (if saved then Inr (sl_print sl val) else Inl ErrWrite, v'))"

definition vault_use :: "sealer \<Rightarrow> vault \<Rightarrow> string \<Rightarrow> string \<Rightarrow> secret_error + string" where
  "vault_use sl v name host =
     (case v_entries v name of
        None \<Rightarrow> Inl (ErrUnknown name)
      | Some e \<Rightarrow>
          if \<not> host_allowed (e_hosts e) host then Inl (ErrBinding name)
          else case v_values v (sl_path sl name) of
            None \<Rightarrow> Inl (ErrUnknown name)
          | Some sealed \<Rightarrow> (case sl_open sl (e_key e) sealed name of None \<Rightarrow> Inl ErrSealed | Some plain \<Rightarrow> Inr plain))"

definition vault_bindings :: "vault \<Rightarrow> string \<Rightarrow> string list option" where
  "vault_bindings v name = map_option e_hosts (v_entries v name)"

definition vault_has :: "vault \<Rightarrow> string \<Rightarrow> bool" where
  "vault_has v name \<longleftrightarrow> v_entries v name \<noteq> None"

definition vault_destroy :: "sealer \<Rightarrow> bool \<Rightarrow> bool \<Rightarrow> string \<Rightarrow> vault \<Rightarrow> secret_error option \<times> vault" where
  "vault_destroy sl saved removed name v =
     (if v_entries v name = None then (Some (ErrUnknown name), v)
      else let v1 = v\<lparr>v_entries := (v_entries v)(name := None)\<rparr>
        in if \<not> saved then (Some ErrWrite, v1)
           else if \<not> removed then (Some ErrWrite, v1)
           else (None, v1\<lparr>v_values := (v_values v1)(sl_path sl name := None)\<rparr>))"

section \<open>The redactor\<close>

type_synonym redactor = "(string \<times> string) list"

text \<open>\<open>url.QueryEscape\<close>.\<close>

definition hex_upper :: "nat \<Rightarrow> char" where
  "hex_upper n = (if n < 10 then char_of (48 + n) else char_of (55 + n))"

definition query_escape :: "string \<Rightarrow> string" where
  "query_escape s = concat (map (\<lambda>c.
     let n = (of_char c :: nat) in
     if name_char c \<or> c = CHR ''~'' then [c]
     else if c = CHR '' '' then ''+''
     else [CHR ''%'', hex_upper (n div 16), hex_upper (n mod 16)]) s)"

definition b64_std :: "string \<Rightarrow> string" where
  "b64_std s = b64_encode s @ replicate ((3 - length s mod 3) mod 3) (CHR ''='')"

definition red_add_form :: "redactor \<Rightarrow> string \<Rightarrow> string \<Rightarrow> redactor" where
  "red_add_form r frm to =
     (if frm = [] \<or> frm \<in> fst ` set r then r else sort_key (\<lambda>p. - int (length (fst p))) (r @ [(frm, to)]))"

definition red_add :: "redactor \<Rightarrow> string \<Rightarrow> string \<Rightarrow> redactor" where
  "red_add r name val =
     (if length val < 4 then r
      else let marker = ''[redacted:'' @ name @ '']'';
               r1 = red_add_form r val marker;
               r2 = (if query_escape val \<noteq> val then red_add_form r1 (query_escape val) marker else r1);
               r3 = red_add_form r2 (b64_std val) marker
        in red_add_form r3 (b64_std ('':'' @ val)) marker)"

text \<open>\<open>strings.ReplaceAll\<close> of a text that is not empty.\<close>

function replace_all :: "string \<Rightarrow> string \<Rightarrow> string \<Rightarrow> string" where
  "replace_all frm to s =
     (if frm = [] then s
      else if has_prefix s frm then to @ replace_all frm to (drop (length frm) s)
      else case s of [] \<Rightarrow> [] | c # cs \<Rightarrow> c # replace_all frm to cs)"
  by pat_completeness auto
termination
  by (relation "measure (\<lambda>(frm, to, s). length s)") (auto simp: has_prefix_iff)

declare replace_all.simps [simp del]

definition redact :: "redactor \<Rightarrow> string \<Rightarrow> string" where
  "redact r s = foldl (\<lambda>s (frm, to). if str_contains s frm then replace_all frm to s else s) s r"

definition leaks :: "redactor \<Rightarrow> string \<Rightarrow> bool" where
  "leaks r s \<longleftrightarrow> s \<noteq> [] \<and> list_ex (\<lambda>(frm, to). str_contains s frm) r"

section \<open>The allowlist\<close>

record allowlist =
  al_hosts :: "string list"
  al_suffixes :: "string list"
  al_open :: bool

definition new_allowlist :: allowlist where
  "new_allowlist = \<lparr>al_hosts = [], al_suffixes = [], al_open = False\<rparr>"

definition al_add :: "allowlist \<Rightarrow> string \<Rightarrow> allowlist" where
  "al_add a entry =
     (let entry = clean_host entry in
      if entry = [] then a
      else if has_prefix entry ''.'' then
        (if entry \<in> set (al_suffixes a) then a else a\<lparr>al_suffixes := al_suffixes a @ [entry]\<rparr>)
      else a\<lparr>al_hosts := List.insert entry (al_hosts a)\<rparr>)"

definition al_replace :: "allowlist \<Rightarrow> string list \<Rightarrow> allowlist" where
  "al_replace a entries = foldl al_add (a\<lparr>al_hosts := [], al_suffixes := []\<rparr>) entries"

definition al_entries :: "allowlist \<Rightarrow> string list" where
  "al_entries a = al_hosts a @ al_suffixes a"

text \<open>\<open>net.SplitHostPort\<close>, its host part, \<open>None\<close> on an error.\<close>

definition split_host :: "string \<Rightarrow> string option" where
  "split_host s =
     (case last_colon s of
        None \<Rightarrow> None
      | Some i \<Rightarrow>
          if has_prefix s ''['' then
            (case str_index s '']'' of
               None \<Rightarrow> None
             | Some e \<Rightarrow>
                 if e + 1 \<noteq> i then None
                 else if CHR ''['' \<in> set (drop 1 s) \<or> CHR '']'' \<in> set (drop (e + 1) s) then None
                 else Some (take (e - 1) (drop 1 s)))
          else if CHR '':'' \<in> set (take i s) \<or> CHR ''['' \<in> set s \<or> CHR '']'' \<in> set s then None
          else Some (take i s))"

definition host_only :: "string \<Rightarrow> string" where
  "host_only host = (let host = clean_host host in case split_host host of Some h \<Rightarrow> h | None \<Rightarrow> host)"

definition al_check :: "allowlist \<Rightarrow> string \<Rightarrow> bool" where
  "al_check a host =
     (al_open a \<or>
      (let bare = host_only host
       in bare \<in> set (al_hosts a) \<or> to_lower host \<in> set (al_hosts a) \<or>
          list_ex (\<lambda>s. has_suffix bare s \<or> bare = trim_dot s) (al_suffixes a)))"

section \<open>What a binding covers\<close>

lemma clean_hosts_set:
  assumes "clean_hosts out hosts = Inr out'"
  shows "set out' = set out \<union> {h \<in> clean_host ` set hosts. h \<noteq> []}" "distinct out \<Longrightarrow> distinct out'"
proof -
  show "set out' = set out \<union> {h \<in> clean_host ` set hosts. h \<noteq> []}"
    using assms by (induction hosts arbitrary: out) (auto simp: Let_def split: if_splits)
  show "distinct out'" if "distinct out"
    using assms that
  proof (induction hosts arbitrary: out)
    case (Cons h hs)
    then show ?case using Cons.IH [of "out @ [clean_host h]"] Cons.IH [of out] by (simp add: Let_def split: if_splits)
  qed simp
qed

lemma clean_hosts_ok:
  assumes "clean_hosts out hosts = Inr out'" "\<forall>h\<in>set out. P h"
    and step: "\<And>h. clean_host h \<noteq> [] \<Longrightarrow> clean_host h \<noteq> ''*'' \<Longrightarrow> \<not> contains_any (clean_host h) host_breaks \<Longrightarrow> P (clean_host h)"
  shows "\<forall>h\<in>set out'. P h"
  using assms(1,2)
proof (induction hosts arbitrary: out)
  case (Cons h hs)
  show ?case
  proof (cases "clean_host h = [] \<or> clean_host h \<in> set out")
    case True
    then have "clean_hosts out hs = Inr out'" using Cons.prems(1) by (auto simp: Let_def split: if_splits)
    then show ?thesis using Cons.IH Cons.prems(2) by blast
  next
    case False
    then have rest: "clean_hosts (out @ [clean_host h]) hs = Inr out'" and ok: "clean_host h \<noteq> ''*''" "\<not> contains_any (clean_host h) host_breaks"
      using Cons.prems(1) by (auto simp: Let_def split: if_splits)
    have "\<forall>g\<in>set (out @ [clean_host h]). P g" using Cons.prems(2) step [OF _ ok] False by simp
    then show ?thesis using Cons.IH [OF rest] by blast
  qed
qed simp

lemma ascii_lower_again [simp]: "ascii_lower (ascii_lower c) = ascii_lower c"
proof -
  have "(of_char (char_of ((of_char c :: nat) + 32) :: char) :: nat) = of_char c + 32" if "(of_char c :: nat) \<le> 90"
    using that by (simp add: of_char_of)
  then show ?thesis by (simp add: ascii_lower_def)
qed

lemma to_lower_again [simp]: "to_lower (to_lower s) = to_lower s"
  by (simp add: to_lower_def comp_def)

lemma clean_host_lower [simp]: "to_lower (clean_host h) = clean_host h"
  by (simp add: clean_host_def)

text \<open>The contract of a binding: the host itself, with or without its port, or the subtree of a dotted entry.\<close>

definition covered :: "string set \<Rightarrow> string \<Rightarrow> bool" where
  "covered bindings host \<longleftrightarrow> host \<noteq> [] \<and>
     (host \<in> bindings \<and> \<not> has_prefix host ''.'' \<or> bare_host host \<in> bindings \<and> \<not> has_prefix (bare_host host) ''.'' \<or>
      (\<exists>domain. CHR ''.'' # domain \<in> bindings \<and> (bare_host host = domain \<or> (\<exists>sub. bare_host host = sub @ CHR ''.'' # domain))))"

lemma dotted: "has_prefix b ''.'' \<longleftrightarrow> (\<exists>domain. b = CHR ''.'' # domain)"
  by (auto simp: has_prefix_iff)

lemma bex_cases:
  "(\<exists>b\<in>S. b = h \<and> \<not> p h \<or> b = g \<and> \<not> p g \<or> (\<exists>d. b = f d \<and> q d)) \<longleftrightarrow>
   h \<in> S \<and> \<not> p h \<or> g \<in> S \<and> \<not> p g \<or> (\<exists>d. f d \<in> S \<and> q d)"
  by blast

lemma host_allowed_covered: "host_allowed bs host \<longleftrightarrow> covered (set bs) (clean_host host)"
proof -
  have e: "binding_covers h b \<longleftrightarrow>
      (b = h \<and> \<not> has_prefix h ''.'' \<or> b = bare_host h \<and> \<not> has_prefix (bare_host h) ''.'' \<or>
       (\<exists>domain. b = CHR ''.'' # domain \<and> (bare_host h = domain \<or> (\<exists>sub. bare_host h = sub @ CHR ''.'' # domain))))" for h b
    by (cases "has_prefix b ''.''") (auto simp: binding_covers_def dotted has_suffix_iff trim_dot_def)
  have "(\<exists>b\<in>set bs. binding_covers h b) \<longleftrightarrow> covered (set bs) h" if "h \<noteq> []" for h
    using that unfolding covered_def e
    by (subst bex_cases [where p = "\<lambda>h. has_prefix h ''.''" and f = "\<lambda>d. CHR ''.'' # d"]) simp
  moreover have "\<not> covered (set bs) []" by (simp only: covered_def simp_thms not_True_eq_False)
  ultimately show ?thesis unfolding host_allowed_def Let_def list_ex_iff by metis
qed

lemma normalise_hosts_set:
  assumes "normalise_hosts hosts = Inr clean"
  shows "set clean = {h \<in> clean_host ` set hosts. h \<noteq> []}" "sorted clean" "distinct clean"
    "\<forall>h\<in>set clean. h \<noteq> [] \<and> h \<noteq> ''*'' \<and> to_lower h = h \<and> \<not> contains_any h host_breaks"
proof -
  obtain out where out: "clean_hosts [] hosts = Inr out" "clean = sort out"
    using assms by (auto simp: normalise_hosts_def bind_res_Inr_iff)
  show "set clean = {h \<in> clean_host ` set hosts. h \<noteq> []}" "sorted clean" "distinct clean"
    using clean_hosts_set [OF out(1)] by (simp_all add: out(2))
  show "\<forall>h\<in>set clean. h \<noteq> [] \<and> h \<noteq> ''*'' \<and> to_lower h = h \<and> \<not> contains_any h host_breaks"
    unfolding out(2) set_sort by (rule clean_hosts_ok [OF out(1)]) simp_all
qed

section \<open>The vault over time\<close>

definition binding_ok :: "string \<Rightarrow> entry \<Rightarrow> bool" where
  "binding_ok name e \<longleftrightarrow> valid_name name \<and> e_hosts e \<noteq> [] \<and> sorted (e_hosts e) \<and> distinct (e_hosts e) \<and>
     (\<forall>h\<in>set (e_hosts e). h \<noteq> [] \<and> h \<noteq> ''*'' \<and> to_lower h = h \<and> \<not> contains_any h host_breaks)"

inductive vault_reach :: "sealer \<Rightarrow> vault \<Rightarrow> bool" for sl where
  opened: "vault_reach sl \<lparr>v_entries = Map.empty, v_values = Map.empty\<rparr>"
| put: "vault_reach sl v \<Longrightarrow> vault_reach sl (snd (vault_put sl key written saved name val hosts v))"
| destroyed: "vault_reach sl v \<Longrightarrow> vault_reach sl (snd (vault_destroy sl saved removed name v))"

lemma put_cases:
  assumes "vault_put sl key written saved name val hosts v = (res, v')"
  obtains "v' = v" "\<exists>e. res = Inl e"
  | clean where "valid_name name" "normalise_hosts hosts = Inr clean" "clean \<noteq> []" "val \<noteq> []"
      "v' = \<lparr>v_entries = (v_entries v)(name \<mapsto> \<lparr>e_key = key, e_hosts = clean\<rparr>),
            v_values = (v_values v)(sl_path sl name \<mapsto> sl_seal sl key val name)\<rparr>"
      "res = (if saved then Inr (sl_print sl val) else Inl ErrWrite)"
  using assms by (auto simp: vault_put_def Let_def split: if_splits sum.splits)

text \<open>
  Claim C29. Whatever is stored and destroyed, in whatever order and with whatever write
  failing, the vault holds only credentials with a well-formed name that are bound to at
  least one host, a sorted list without duplicates of lower-case hosts, none of them the
  wildcard and none with a slash or a blank.
\<close>

theorem every_credential_is_bound:
  assumes "vault_reach sl v" "v_entries v name = Some e"
  shows "binding_ok name e"
  using assms
proof (induction arbitrary: name e rule: vault_reach.induct)
  case (put v key written saved n val hosts)
  obtain res v' where p: "vault_put sl key written saved n val hosts v = (res, v')" by fastforce
  then show ?case
  proof (cases rule: put_cases)
    case (2 clean)
    show ?thesis
    proof (cases "name = n")
      case True
      then have "e = \<lparr>e_key = key, e_hosts = clean\<rparr>" using put.prems p 2(5) by simp
      then show ?thesis using 2(1,3) normalise_hosts_set [OF 2(2)] True by (simp add: binding_ok_def)
    next
      case False
      then show ?thesis using put.prems put.IH p 2(5) by simp
    qed
  qed (use put p in simp)
next
  case (destroyed v saved removed n)
  then show ?case by (auto simp: vault_destroy_def Let_def split: if_splits)
qed simp


lemma use_covered:
  assumes "vault_use sl v name host = Inr plain"
  shows "\<exists>e. v_entries v name = Some e \<and> covered (set (e_hosts e)) (clean_host host)"
  using assms by (auto simp: vault_use_def host_allowed_covered split: option.splits if_splits)

lemma bare_nonempty: "host \<noteq> [] \<Longrightarrow> bare_host host \<noteq> []"
  by (simp add: bare_host_def split: option.split)

text \<open>
  Claim C28. A stored credential is given out exactly for the hosts of its binding: the hosts
  listed, with any port when the entry names none, and the subtree of an entry that begins
  with a dot; every other host is refused, whatever the credential.
\<close>

theorem credentials_go_only_to_bound_hosts:
  assumes "vault_put sl key written saved name val hosts v = (Inr fp, v')"
    and "\<And>k m n. sl_open sl k (sl_seal sl k m n) n = Some m"
  shows "vault_use sl v' name host =
    (if covered (clean_host ` set hosts) (clean_host host) then Inr val else Inl (ErrBinding name))"
  using assms(1)
proof (cases rule: put_cases)
  case (2 clean)
  have "covered (set clean) h \<longleftrightarrow> covered (clean_host ` set hosts) h" for h
    using normalise_hosts_set(1) [OF 2(2)] bare_nonempty [of h] by (cases "h = []") (auto simp: covered_def)
  then show ?thesis by (simp add: vault_use_def 2(5) host_allowed_covered assms(2))
qed auto

definition plain_sealer :: sealer where
  "plain_sealer = \<lparr>sl_seal = (\<lambda>k m n. m), sl_open = (\<lambda>k m n. Some m), sl_path = (\<lambda>n. n), sl_print = (\<lambda>m. ''f'')\<rparr>"

definition no_vault :: vault where
  "no_vault = \<lparr>v_entries = Map.empty, v_values = Map.empty\<rparr>"

definition sample_vault :: vault where
  "sample_vault = snd (vault_put plain_sealer ''k'' True True ''token'' ''s3cret'' ['' API.example.com'', ''.internal''] no_vault)"

lemma sample_put:
  "vault_put plain_sealer ''k'' True True ''token'' ''s3cret'' ['' API.example.com'', ''.internal''] no_vault = (Inr ''f'', sample_vault)"
proof -
  have "fst (vault_put plain_sealer ''k'' True True ''token'' ''s3cret'' ['' API.example.com'', ''.internal''] no_vault) = Inr ''f''"
    by code_simp
  then show ?thesis unfolding sample_vault_def by (metis prod.collapse)
qed

theorem credentials_go_only_to_bound_hosts_witness:
  "vault_use plain_sealer sample_vault ''token'' ''api.example.com:8443'' = Inr ''s3cret'' \<and>
   vault_use plain_sealer sample_vault ''token'' ''db.internal'' = Inr ''s3cret'' \<and>
   vault_use plain_sealer sample_vault ''token'' ''evil.example.com'' = Inl (ErrBinding ''token'')"
proof -
  have ok: "sl_open plain_sealer k (sl_seal plain_sealer k m n) n = Some m" for k m n by (simp add: plain_sealer_def)
  have h: "clean_host ` set ['' API.example.com'', ''.internal''] = set [''api.example.com'', ''.internal'']" by code_simp
  note use = credentials_go_only_to_bound_hosts [OF sample_put ok, unfolded h host_allowed_covered [symmetric]]
  have "host_allowed [''api.example.com'', ''.internal''] ''api.example.com:8443''"
    "host_allowed [''api.example.com'', ''.internal''] ''db.internal''"
    "\<not> host_allowed [''api.example.com'', ''.internal''] ''evil.example.com''" by code_simp+
  then show ?thesis unfolding use by simp
qed

theorem every_credential_is_bound_witness:
  "\<exists>e. v_entries sample_vault ''token'' = Some e \<and> binding_ok ''token'' e"
proof -
  have "vault_reach plain_sealer sample_vault"
    unfolding sample_vault_def no_vault_def by (intro vault_reach.intros)
  moreover have "v_entries sample_vault ''token'' \<noteq> None"
  proof (rule put_cases [OF sample_put])
    fix clean
    assume "sample_vault = \<lparr>v_entries = (v_entries no_vault)(''token'' \<mapsto> \<lparr>e_key = ''k'', e_hosts = clean\<rparr>),
      v_values = (v_values no_vault)(sl_path plain_sealer ''token'' \<mapsto> sl_seal plain_sealer ''k'' ''s3cret'' ''token'')\<rparr>"
    from arg_cong [OF this, of v_entries] show ?thesis by simp
  qed simp_all
  then obtain e where "v_entries sample_vault ''token'' = Some e" by blast
  ultimately show ?thesis using every_credential_is_bound by blast
qed

end
