(* ===== verification/Template.thy ===== *)
theory Template
  imports Secrets "HOL-Library.AList"
begin

text \<open>
  Templates of a journey step (\<open>internal/journey/template.go\<close>). A random or
  clock value is the next one of a given sequence, and the quoting of \<open>%q\<close> is a
  parameter. Errors are the texts the code prints, since they end up in the record.
\<close>

section \<open>Placeholders\<close>

definition truncate_text :: "string \<Rightarrow> nat \<Rightarrow> string" where
  "truncate_text s n = (if length s \<le> n then s else take n s @ ''...'')"

definition trim_ref :: "string \<Rightarrow> nat \<Rightarrow> nat \<Rightarrow> string" where
  "trim_ref s i j = trim_space (take (j - 2) (drop (i + 2) s))"

text \<open>The loop both functions run: the text before the first placeholder, its reference, what follows.\<close>

datatype piece = Literal string | Unclosed | Placeholder string string string

definition next_piece :: "string \<Rightarrow> piece" where
  "next_piece s =
     (case str_index s ''{{'' of
        None \<Rightarrow> Literal s
      | Some i \<Rightarrow>
          (case str_index (drop i s) ''}}'' of
             None \<Rightarrow> Unclosed
           | Some j \<Rightarrow> Placeholder (take i s) (trim_ref s i j) (drop (i + j + 2) s)))"

lemma next_piece_shorter: "next_piece s = Placeholder before ref rest \<Longrightarrow> length rest < length s"
proof -
  assume a: "next_piece s = Placeholder before ref rest"
  then obtain i where i: "str_index s ''{{'' = Some i" by (auto simp: next_piece_def split: option.splits)
  obtain t where "s = take i s @ ''{{'' @ t" using str_index_Some [OF i] by blast
  then have "0 < length s" by (metis append_is_Nil_conv length_greater_0_conv list.distinct(1))
  with a show ?thesis by (auto simp: next_piece_def split: option.splits)
qed

function references_secret :: "string \<Rightarrow> bool" where
  "references_secret s =
     (case next_piece s of
        Placeholder before ref rest \<Rightarrow> has_prefix ref ''secrets.'' \<or> references_secret rest
      | _ \<Rightarrow> False)"
  by pat_completeness auto
termination by (relation "measure length") (auto simp: next_piece_shorter)

declare references_secret.simps [simp del]

section \<open>Resolving\<close>

type_synonym resolver = "string \<Rightarrow> string \<Rightarrow> string + string"

record scope =
  sc_vars :: "(string \<times> string) list"
  sc_secrets :: "resolver option"
  sc_host :: string
  sc_used :: "(string \<times> string) list"

record texts =
  tx_quote :: "string \<Rightarrow> string"
  tx_gen :: "string \<Rightarrow> nat \<Rightarrow> string + string"

definition ErrSecretInURL :: string where
  "ErrSecretInURL = ''journey: a credential may not appear in a URL; put it in a header or the body''"

definition generate :: "texts \<Rightarrow> nat \<Rightarrow> string \<Rightarrow> string + string" where
  "generate tx n kind =
     (if kind \<in> {''uuid'', ''hex'', ''timestamp'', ''iso8601''} then tx_gen tx kind n
      else Inl (''journey: gen.'' @ kind @ '' is not a generated value''))"

text \<open>\<open>strings.Cut(_, ".")\<close>.\<close>

definition cut_dot :: "string \<Rightarrow> (string \<times> string) option" where
  "cut_dot s = (case str_index s ''.'' of None \<Rightarrow> None | Some i \<Rightarrow> Some (take i s, drop (i + 1) s))"

definition resolve_ref :: "texts \<Rightarrow> scope \<Rightarrow> nat \<Rightarrow> string \<Rightarrow> string + string \<times> scope \<times> nat" where
  "resolve_ref tx sc n ref =
     (case cut_dot ref of
        None \<Rightarrow> Inl (''journey: '' @ tx_quote tx ref @ '' is not a placeholder; use vars.x, secrets.x or gen.x'')
      | Some (namespace, name) \<Rightarrow>
          if namespace = ''vars'' then
            (case map_of (sc_vars sc) name of
               None \<Rightarrow> Inl (''journey: no variable named '' @ tx_quote tx name @ '' has been extracted yet'')
             | Some v \<Rightarrow> Inr (v, sc, n))
          else if namespace = ''secrets'' then
            (if sc_host sc = [] then Inl ErrSecretInURL
             else case sc_secrets sc of
               None \<Rightarrow> Inl ''journey: no credential store is configured''
             | Some use_secret \<Rightarrow>
                 (case use_secret name (sc_host sc) of
                    Inl e \<Rightarrow> Inl e
                  | Inr v \<Rightarrow> Inr (v, sc\<lparr>sc_used := AList.update name v (sc_used sc)\<rparr>, n)))
          else if namespace = ''gen'' then
            (case generate tx n name of Inl e \<Rightarrow> Inl e | Inr v \<Rightarrow> Inr (v, sc, n + 1))
          else Inl (''journey: unknown placeholder namespace '' @ tx_quote tx namespace))"

function render_loop :: "texts \<Rightarrow> string \<Rightarrow> scope \<Rightarrow> nat \<Rightarrow> string \<Rightarrow> string + string \<times> scope \<times> nat" where
  "render_loop tx whole sc n s =
     (case next_piece s of
        Literal t \<Rightarrow> Inr (t, sc, n)
      | Unclosed \<Rightarrow> Inl (''journey: unclosed placeholder in '' @ tx_quote tx (truncate_text whole 80))
      | Placeholder before ref rest \<Rightarrow>
          (case resolve_ref tx sc n ref of
             Inl e \<Rightarrow> Inl e
           | Inr (v, sc', n') \<Rightarrow>
               (case render_loop tx whole sc' n' rest of
                  Inl e \<Rightarrow> Inl e
                | Inr (t, sc'', n'') \<Rightarrow> Inr (before @ v @ t, sc'', n''))))"
  by pat_completeness auto
termination by (relation "measure (\<lambda>(tx, whole, sc, n, s). length s)") (auto simp: next_piece_shorter)

declare render_loop.simps [simp del]

definition render :: "texts \<Rightarrow> scope \<Rightarrow> nat \<Rightarrow> string \<Rightarrow> string + string \<times> scope \<times> nat" where
  "render tx sc n s = (if \<not> str_contains s ''{{'' then Inr (s, sc, n) else render_loop tx s sc n s)"

text \<open>\<open>blankTemplates\<close> (\<open>internal/model/domain.go\<close>).\<close>

function blank_templates :: "string \<Rightarrow> string" where
  "blank_templates s =
     (case next_piece s of
        Placeholder before ref rest \<Rightarrow> before @ ''x'' @ blank_templates rest
      | _ \<Rightarrow> s)"
  by pat_completeness auto
termination by (relation "measure length") (auto simp: next_piece_shorter)

declare blank_templates.simps [simp del]

section \<open>What rendering can disclose\<close>

text \<open>The references of a template, in order, up to its end or to one that is not closed.\<close>

function refs_of :: "string \<Rightarrow> string list" where
  "refs_of s = (case next_piece s of Placeholder before ref rest \<Rightarrow> ref # refs_of rest | _ \<Rightarrow> [])"
  by pat_completeness auto
termination by (relation "measure length") (auto simp: next_piece_shorter)

declare refs_of.simps [simp del]

lemma references_secret_refs: "references_secret s \<longleftrightarrow> (\<exists>ref\<in>set (refs_of s). has_prefix ref ''secrets.'')"
  by (induction s rule: references_secret.induct)
    (subst references_secret.simps, subst refs_of.simps, auto split: piece.split)

definition released :: "resolver option \<Rightarrow> string \<Rightarrow> (string \<times> string) list \<Rightarrow> bool" where
  "released rs host used \<longleftrightarrow>
     (\<forall>(name, v)\<in>set used. host \<noteq> [] \<and> (\<exists>use_secret. rs = Some use_secret \<and> use_secret name host = Inr v))"

lemma update_entries: "set (AList.update k v al) \<subseteq> insert (k, v) (set al)"
  by (induction al) auto

lemma released_update:
  assumes "released rs host used" "host \<noteq> []" "rs = Some u" "u name host = Inr v"
  shows "released rs host (AList.update name v used)"
  using assms update_entries [of name v used] unfolding released_def by blast

lemma resolve_keeps:
  assumes "resolve_ref tx sc n ref = Inr (v, sc', n')"
  shows "sc_host sc' = sc_host sc" "sc_secrets sc' = sc_secrets sc" "sc_vars sc' = sc_vars sc"
    "released (sc_secrets sc) (sc_host sc) (sc_used sc) \<Longrightarrow> released (sc_secrets sc) (sc_host sc) (sc_used sc')"
  using assms
  by (auto simp: resolve_ref_def split: option.splits prod.splits if_splits sum.splits intro: released_update)

lemma render_loop_keeps:
  assumes "render_loop tx whole sc n s = Inr (t, sc', n')"
  shows "sc_host sc' = sc_host sc" "sc_secrets sc' = sc_secrets sc" "sc_vars sc' = sc_vars sc"
    "released (sc_secrets sc) (sc_host sc) (sc_used sc) \<Longrightarrow> released (sc_secrets sc) (sc_host sc) (sc_used sc')"
proof -
  have "sc_host sc' = sc_host sc \<and> sc_secrets sc' = sc_secrets sc \<and> sc_vars sc' = sc_vars sc \<and>
    (released (sc_secrets sc) (sc_host sc) (sc_used sc) \<longrightarrow> released (sc_secrets sc) (sc_host sc) (sc_used sc'))"
    using assms
  proof (induction tx whole sc n s arbitrary: t sc' n' rule: render_loop.induct)
    case (1 tx whole sc n s)
    show ?case
    proof (cases "next_piece s")
      case (Placeholder before ref rest)
      then obtain v sc1 n1 t1 where r: "resolve_ref tx sc n ref = Inr (v, sc1, n1)" "render_loop tx whole sc1 n1 rest = Inr (t1, sc', n')"
        using 1(2) by (subst (asm) render_loop.simps) (auto split: sum.splits prod.splits)
      show ?thesis using 1(1) [OF Placeholder r(1) _ _ r(2)] resolve_keeps [OF r(1)] by auto
    qed (use 1(2) in \<open>subst (asm) render_loop.simps, simp\<close>)+
  qed
  then show "sc_host sc' = sc_host sc" "sc_secrets sc' = sc_secrets sc" "sc_vars sc' = sc_vars sc"
    "released (sc_secrets sc) (sc_host sc) (sc_used sc) \<Longrightarrow> released (sc_secrets sc) (sc_host sc) (sc_used sc')" by blast+
qed

lemma render_keeps:
  assumes "render tx sc n s = Inr (t, sc', n')"
  shows "sc_host sc' = sc_host sc" "sc_secrets sc' = sc_secrets sc" "sc_vars sc' = sc_vars sc"
    "released (sc_secrets sc) (sc_host sc) (sc_used sc) \<Longrightarrow> released (sc_secrets sc) (sc_host sc) (sc_used sc')"
  using assms render_loop_keeps by (auto simp: render_def split: if_splits)

section \<open>What rendering writes\<close>

text \<open>The template with its placeholders filled by given values.\<close>

function fill :: "string \<Rightarrow> string list \<Rightarrow> string" where
  "fill s vs =
     (case (next_piece s, vs) of
        (Placeholder before ref rest, v # vs') \<Rightarrow> before @ v @ fill rest vs'
      | _ \<Rightarrow> s)"
  by pat_completeness auto
termination by (relation "measure (\<lambda>(s, vs). length s)") (auto dest!: sym [of _ "next_piece _"] simp: next_piece_shorter)

declare fill.simps [simp del]

definition value_of :: "texts \<Rightarrow> scope \<Rightarrow> string \<Rightarrow> string \<Rightarrow> bool" where
  "value_of tx sc ref v \<longleftrightarrow>
     (\<exists>name. ref = ''vars.'' @ name \<and> map_of (sc_vars sc) name = Some v \<or>
        ref = ''secrets.'' @ name \<and> sc_host sc \<noteq> [] \<and> (\<exists>u. sc_secrets sc = Some u \<and> u name (sc_host sc) = Inr v) \<or>
        (\<exists>k. ref = ''gen.'' @ name \<and> generate tx k name = Inr v))"

lemma cut_dot_eq: "cut_dot s = Some (a, b) \<Longrightarrow> s = a @ CHR ''.'' # b"
proof -
  assume "cut_dot s = Some (a, b)"
  then obtain i where i: "str_index s ''.'' = Some i" "a = take i s" "b = drop (i + 1) s"
    by (auto simp: cut_dot_def split: option.splits)
  obtain t where t: "s = take i s @ ''.'' @ t" "i \<le> length s" using str_index_Some [OF i(1)] by blast
  have "drop (i + 1) (take i s @ ''.'' @ t) = t" using t(2) by (simp add: min_absorb2)
  then have "b = t" using t(1) i(3) by metis
  then show ?thesis using t(1) i(2) by simp
qed

lemma resolve_value:
  assumes "resolve_ref tx sc n ref = Inr (v, sc', n')"
  shows "value_of tx sc ref v"
proof -
  obtain a b where c: "cut_dot ref = Some (a, b)" using assms by (auto simp: resolve_ref_def split: option.splits)
  note r = assms [unfolded resolve_ref_def c, simplified]
  consider "a = ''vars''" | "a = ''secrets''" | "a = ''gen''" using r by (auto split: if_splits)
  then show ?thesis
  proof cases
    case 1
    then have "map_of (sc_vars sc) b = Some v" using r by (auto split: option.splits)
    then show ?thesis using cut_dot_eq [OF c] 1 by (auto simp: value_of_def)
  next
    case 2
    then have "sc_host sc \<noteq> []" "\<exists>u. sc_secrets sc = Some u \<and> u b (sc_host sc) = Inr v"
      using r by (auto split: option.splits sum.splits if_splits)
    then show ?thesis using cut_dot_eq [OF c] 2 by (auto simp: value_of_def)
  next
    case 3
    then have "generate tx n b = Inr v" using r by (auto split: sum.splits)
    then show ?thesis using cut_dot_eq [OF c] 3 by (auto simp: value_of_def)
  qed
qed


lemma value_of_again: "sc_vars sc' = sc_vars sc \<Longrightarrow> sc_host sc' = sc_host sc \<Longrightarrow> sc_secrets sc' = sc_secrets sc \<Longrightarrow> value_of tx sc' = value_of tx sc"
  by (intro ext) (simp add: value_of_def)

lemma render_loop_fills:
  assumes "render_loop tx whole sc n s = Inr (t, sc', n')"
  shows "\<exists>vs. list_all2 (value_of tx sc) (refs_of s) vs \<and> t = fill s vs"
  using assms
proof (induction tx whole sc n s arbitrary: t sc' n' rule: render_loop.induct)
  case (1 tx whole sc n s)
  show ?case
  proof (cases "next_piece s")
    case (Placeholder before ref rest)
    then obtain v sc1 n1 t1 where r: "resolve_ref tx sc n ref = Inr (v, sc1, n1)" "render_loop tx whole sc1 n1 rest = Inr (t1, sc', n')"
        "t = before @ v @ t1"
      using 1(2) by (subst (asm) render_loop.simps) (auto split: sum.splits prod.splits)
    obtain vs where vs: "list_all2 (value_of tx sc1) (refs_of rest) vs" "t1 = fill rest vs"
      using 1(1) [OF Placeholder r(1) _ _ r(2)] by blast
    have "value_of tx sc1 = value_of tx sc" using resolve_keeps [OF r(1)] value_of_again by metis
    then have "list_all2 (value_of tx sc) (refs_of s) (v # vs) \<and> t = fill s (v # vs)"
      using vs resolve_value [OF r(1)] r(3) by (subst refs_of.simps, subst fill.simps) (simp add: Placeholder)
    then show ?thesis by blast
  next
    case (Literal u)
    then have "refs_of s = [] \<and> t = fill s []"
      using 1(2) by (subst refs_of.simps, subst fill.simps, subst (asm) render_loop.simps) (auto simp: next_piece_def split: option.splits)
    then show ?thesis by auto
  next
    case Unclosed
    then show ?thesis using 1(2) by (subst (asm) render_loop.simps) simp
  qed
qed

lemma no_braces: "\<not> str_contains s ''{{'' \<Longrightarrow> next_piece s = Literal s"
  by (auto simp: str_contains_def next_piece_def)

lemma render_fill:
  assumes "render tx sc n s = Inr (t, sc', n')"
  shows "\<exists>vs. list_all2 (value_of tx sc) (refs_of s) vs \<and> t = fill s vs"
proof (cases "str_contains s ''{{''")
  case True
  then show ?thesis using assms render_loop_fills by (simp add: render_def)
next
  case False
  then have "refs_of s = []" "fill s [] = s" by (subst refs_of.simps fill.simps, simp add: no_braces)+
  then show ?thesis using assms False by (auto simp: render_def)
qed

lemma rounds: "4 * length (refs_of s) \<le> length s"
proof (induction s rule: refs_of.induct)
  case (1 s)
  show ?case
  proof (cases "next_piece s")
    case (Placeholder before ref rest)
    then obtain i j where ij: "str_index s ''{{'' = Some i" "str_index (drop i s) ''}}'' = Some j" "rest = drop (i + j + 2) s"
      by (auto simp: next_piece_def split: option.splits)
    obtain t where t: "s = take i s @ ''{{'' @ t" "i \<le> length s" using str_index_Some [OF ij(1)] by blast
    obtain u where u: "drop i s = take j (drop i s) @ ''}}'' @ u" "j \<le> length (drop i s)" using str_index_Some [OF ij(2)] by blast
    have d: "drop i s = ''{{'' @ t" using t by (metis append_eq_conv_conj length_take min.absorb2)
    have "2 \<le> j"
    proof (rule ccontr)
      assume "\<not> 2 \<le> j"
      then have "j = 0 \<or> j = 1" by auto
      then show False using u(1) unfolding d by (auto simp: take_Cons')
    qed
    moreover have "j + 2 \<le> length (drop i s)" using arg_cong [OF u(1), of length] u(2) by simp
    ultimately have "length rest + 4 \<le> length s" using ij(3) by simp
    then show ?thesis using 1 [OF Placeholder] by (subst refs_of.simps) (simp add: Placeholder)
  qed (subst refs_of.simps, simp)+
qed

text \<open>
  Claim C30. Rendering a template ends, after at most one round for every four of its bytes,
  and when it succeeds the result is the template with each placeholder replaced once, by
  the variable, by the credential the store released for the host of the request, or by a
  generated value; what is put in is not read as a template again.
\<close>

theorem rendering_fills_each_placeholder_once:
  "4 * length (refs_of s) \<le> length s \<and>
   (case render tx sc n s of
      Inl e \<Rightarrow> True
    | Inr (t, sc', n') \<Rightarrow> \<exists>vs. list_all2 (value_of tx sc) (refs_of s) vs \<and> t = fill s vs)"
  using rounds render_fill by (auto split: sum.split)

end
