(* ===== verification/Assertion.thy ===== *)
theory Assertion
  imports Template Canon
begin

text \<open>
  Assertions over what a request produced (\<open>internal/journey/assert.go\<close>). Parsing
  and printing of JSON and of floating point numbers, regular expressions and quoting are
  parameters; a floating point number is a rational, an infinity or not a number.
\<close>

section \<open>Data\<close>

datatype fnum = Fin rat | PosInf | NegInf | NaN

fun f_lt :: "fnum \<Rightarrow> fnum \<Rightarrow> bool" where
  "f_lt (Fin a) (Fin b) = (a < b)"
| "f_lt NegInf b = (b \<notin> {NegInf, NaN})"
| "f_lt a PosInf = (a \<notin> {PosInf, NaN})"
| "f_lt _ _ = False"

definition f_eq :: "fnum \<Rightarrow> fnum \<Rightarrow> bool" where
  "f_eq a b \<longleftrightarrow> a = b \<and> a \<noteq> NaN"

definition f_le :: "fnum \<Rightarrow> fnum \<Rightarrow> bool" where
  "f_le a b \<longleftrightarrow> f_lt a b \<or> f_eq a b"

record lib =
  l_json :: "string \<Rightarrow> json option"
  l_number :: "string \<Rightarrow> string"
  l_marshal :: "json \<Rightarrow> string"
  l_float :: "string \<Rightarrow> fnum option"
  l_match :: "string \<Rightarrow> string \<Rightarrow> string + bool"
  l_quote :: "string \<Rightarrow> string"

record assertion =
  as_source :: string
  as_target :: string
  as_op :: string
  as_value :: string
  as_message :: string

record extraction =
  ex_var :: string
  ex_source :: string
  ex_target :: string
  ex_secret :: bool

record observation =
  ob_status :: int
  ob_latency :: int
  ob_headers :: "(string \<times> string) list"
  ob_body :: string
  ob_decoded :: "json option"
  ob_decoded_ok :: bool
  ob_vars :: "(string \<times> string) list"

section \<open>Paths\<close>

datatype path_seg = Key string | Index nat

text \<open>The inner loop over one dotted part: the segments, and whether an index that is no number ended the parse.\<close>

function part_segs :: "string \<Rightarrow> path_seg list \<times> bool" where
  "part_segs part =
     (case str_index part ''['' of
        None \<Rightarrow> (if part \<noteq> [] then [Key part] else [], False)
      | Some p \<Rightarrow>
          let key = (if p > 0 then [Key (take p part)] else [])
          in case str_index (drop p part) '']'' of
               None \<Rightarrow> (key, False)
             | Some c \<Rightarrow>
                 (case parse_int (take (c - 1) (drop (p + 1) part)) of
                    None \<Rightarrow> (key, True)
                  | Some n \<Rightarrow>
                      if n < 0 then (key, True)
                      else case part_segs (drop (p + c + 1) part) of
                        (segs, stopped) \<Rightarrow> (key @ Index (nat n) # segs, stopped)))"
  by pat_completeness auto
termination
proof (relation "measure length", goal_cases)
  case (2 part p key c n)
  then obtain t where "part = take p part @ ''['' @ t" using str_index_Some by blast
  then have "part \<noteq> []" by auto
  then show ?case by simp
qed simp

declare part_segs.simps [simp del]

fun parts_segs :: "string list \<Rightarrow> path_seg list" where
  "parts_segs [] = []"
| "parts_segs (p # ps) = (case part_segs p of (segs, stopped) \<Rightarrow> if stopped then segs else segs @ parts_segs ps)"

definition trim_prefix :: "string \<Rightarrow> string \<Rightarrow> string" where
  "trim_prefix s p = (if has_prefix s p then drop (length p) s else s)"

definition split_path :: "string \<Rightarrow> path_seg list" where
  "split_path path = parts_segs (str_split CHR ''.'' (trim_prefix (trim_prefix (trim_space path) ''$'') ''.''))"

fun lookup_segs :: "json \<Rightarrow> path_seg list \<Rightarrow> json option" where
  "lookup_segs cur [] = Some cur"
| "lookup_segs cur (Index n # segs) =
     (case cur of JArr es \<Rightarrow> if n < length es then lookup_segs (es ! n) segs else None | _ \<Rightarrow> None)"
| "lookup_segs cur (Key k # segs) =
     (case cur of JObj kvs \<Rightarrow> (case map_of kvs k of Some v \<Rightarrow> lookup_segs v segs | None \<Rightarrow> None) | _ \<Rightarrow> None)"

definition lookup :: "json \<Rightarrow> string \<Rightarrow> json option" where
  "lookup doc path = lookup_segs doc (split_path path)"

section \<open>Evaluation\<close>

definition observation_json :: "lib \<Rightarrow> observation \<Rightarrow> json option \<times> observation" where
  "observation_json lb ob =
     (if ob_decoded_ok ob then ((case ob_decoded ob of Some JNull \<Rightarrow> None | d \<Rightarrow> d), ob)
      else let d = l_json lb (ob_body ob) in (d, ob\<lparr>ob_decoded := d, ob_decoded_ok := True\<rparr>))"

definition stringify :: "lib \<Rightarrow> json \<Rightarrow> string" where
  "stringify lb v =
     (case v of JNull \<Rightarrow> [] | JStr s \<Rightarrow> s | JBool b \<Rightarrow> if b then ''true'' else ''false'' | JNum n \<Rightarrow> l_number lb n
      | _ \<Rightarrow> l_marshal lb v)"

definition VarOCRText :: string where "VarOCRText = ''__ocr_text''"
definition VarConsole :: string where "VarConsole = ''__console''"

definition subject :: "assertion \<Rightarrow> string" where
  "subject a =
     (if as_source a = ''status'' then ''the response status''
      else if as_source a = ''latency_ms'' then ''the response time in milliseconds''
      else if as_source a = ''header'' then ''the '' @ as_target a @ '' header''
      else if as_source a = ''body'' then ''the response body''
      else if as_source a = ''json'' then as_target a @ '' in the response''
      else if as_source a = ''var'' then ''the '' @ as_target a @ '' variable''
      else if as_source a = ''ocr'' then ''the text recognised in the screenshot''
      else if as_source a = ''console'' then ''the page's console output''
      else as_source a)"

definition describe :: "assertion \<Rightarrow> string \<Rightarrow> string" where
  "describe a what = (if as_message a \<noteq> [] then as_message a else subject a @ '' '' @ what)"

definition short :: "lib \<Rightarrow> string \<Rightarrow> string" where
  "short lb s = (let s = trim_space s in l_quote lb (if length s > 80 then take 80 s @ ''...'' else s))"

definition op_word :: "string \<Rightarrow> string" where
  "op_word op =
     (if op = ''lt'' then ''less than'' else if op = ''lte'' then ''at most'' else if op = ''gt'' then ''greater than''
      else if op = ''gte'' then ''at least'' else op)"

definition trimmed_float :: "lib \<Rightarrow> string \<Rightarrow> fnum option" where
  "trimmed_float lb s = l_float lb (trim_space s)"

definition equalish :: "lib \<Rightarrow> string \<Rightarrow> string \<Rightarrow> bool" where
  "equalish lb actual expected =
     (actual = expected \<or>
      (case (trimmed_float lb actual, trimmed_float lb expected) of (Some a, Some b) \<Rightarrow> f_eq a b | _ \<Rightarrow> False))"

text \<open>The subject of an assertion: its value and whether it is present, or a failure text.\<close>

definition observed_value :: "lib \<Rightarrow> observation \<Rightarrow> assertion \<Rightarrow> (string + string \<times> bool) \<times> observation" where
  "observed_value lb ob a =
     (let var = (\<lambda>v. case map_of (ob_vars ob) v of Some s \<Rightarrow> s | None \<Rightarrow> []) in
      if as_source a = ''status'' then (Inr (show_int (ob_status ob), ob_status ob > 0), ob)
      else if as_source a = ''latency_ms'' then (Inr (show_int (ob_latency ob), True), ob)
      else if as_source a = ''header'' then
        (Inr (case map_of (ob_headers ob) (to_lower (as_target a)) of Some v \<Rightarrow> (v, True) | None \<Rightarrow> ([], False)), ob)
      else if as_source a = ''body'' then (Inr (ob_body ob, True), ob)
      else if as_source a = ''var'' then
        (Inr (case map_of (ob_vars ob) (as_target a) of Some v \<Rightarrow> (v, True) | None \<Rightarrow> ([], False)), ob)
      else if as_source a = ''ocr'' then (Inr (var VarOCRText, var VarOCRText \<noteq> []), ob)
      else if as_source a = ''console'' then (Inr (var VarConsole, trim_space (var VarConsole) \<noteq> []), ob)
      else if as_source a = ''json'' then
        (case observation_json lb ob of
           (None, ob') \<Rightarrow> (Inl (''the response is not JSON, so '' @ subject a @ '' cannot be read''), ob')
         | (Some doc, ob') \<Rightarrow>
             (Inr (case lookup doc (as_target a) of None \<Rightarrow> ([], False) | Some v \<Rightarrow> (stringify lb v, True)), ob'))
      else (Inl (''unknown assertion source '' @ l_quote lb (as_source a)), ob))"

definition compare_ops :: "(string \<times> (fnum \<Rightarrow> fnum \<Rightarrow> bool)) list" where
  "compare_ops = [(''lt'', f_lt), (''lte'', f_le), (''gt'', \<lambda>a b. f_lt b a), (''gte'', \<lambda>a b. f_le b a)]"

text \<open>The reason an assertion on a present value fails, empty when it holds.\<close>

definition judge_value :: "lib \<Rightarrow> assertion \<Rightarrow> string \<Rightarrow> string" where
  "judge_value lb a actual =
     (if as_op a = ''eq'' then
        (if equalish lb actual (as_value a) then []
         else describe a (''is '' @ short lb actual @ '', expected '' @ short lb (as_value a)))
      else if as_op a = ''ne'' then
        (if equalish lb actual (as_value a) then describe a (''is '' @ short lb actual @ '', which was excluded'') else [])
      else if as_op a = ''contains'' then
        (if str_contains actual (as_value a) then [] else describe a (''does not contain '' @ short lb (as_value a)))
      else if as_op a = ''matches'' then
        (case l_match lb (as_value a) actual of
           Inl e \<Rightarrow> ''the assertion pattern '' @ short lb (as_value a) @ '' does not compile: '' @ e
         | Inr hit \<Rightarrow> if hit then [] else describe a (''does not match '' @ short lb (as_value a)))
      else case map_of compare_ops (as_op a) of
        None \<Rightarrow> []
      | Some cmp \<Rightarrow>
          (case (trimmed_float lb actual, trimmed_float lb (as_value a)) of
             (Some got, Some want) \<Rightarrow>
               if cmp got want then []
               else describe a (''is '' @ short lb actual @ '', expected '' @ op_word (as_op a) @ '' '' @ short lb (as_value a))
           | _ \<Rightarrow> describe a (''is '' @ short lb actual @ '', which is not a number to compare with '' @ short lb (as_value a))))"

definition evaluate :: "lib \<Rightarrow> observation \<Rightarrow> assertion \<Rightarrow> string \<times> observation" where
  "evaluate lb ob a =
     (case observed_value lb ob a of
        (Inl e, ob') \<Rightarrow> (e, ob')
      | (Inr (actual, present), ob') \<Rightarrow>
          (if as_op a = ''exists'' then (if present then [] else describe a ''is not present'')
           else if as_op a = ''absent'' then (if present then describe a (''is present ('' @ short lb actual @ '')'') else [])
           else if \<not> present then describe a ''is not present''
           else judge_value lb a actual, ob'))"

definition extract_value :: "lib \<Rightarrow> observation \<Rightarrow> extraction \<Rightarrow> string option \<times> observation" where
  "extract_value lb ob ex =
     (if ex_source ex = ''status'' then (if ob_status ob > 0 then Some (show_int (ob_status ob)) else None, ob)
      else if ex_source ex = ''header'' then (map_of (ob_headers ob) (to_lower (ex_target ex)), ob)
      else if ex_source ex = ''body'' then (Some (ob_body ob), ob)
      else if ex_source ex = ''json'' then
        (case observation_json lb ob of
           (None, ob') \<Rightarrow> (None, ob')
         | (Some doc, ob') \<Rightarrow> (map_option (stringify lb) (lookup doc (ex_target ex)), ob'))
      else (None, ob))"

section \<open>Paths read back\<close>

text \<open>The text of a path: keys separated by dots, indices in brackets.\<close>

fun show_segs :: "bool \<Rightarrow> path_seg list \<Rightarrow> string" where
  "show_segs first [] = []"
| "show_segs first (Key k # segs) = (if first then k else CHR ''.'' # k) @ show_segs False segs"
| "show_segs first (Index n # segs) = CHR ''['' # show_nat n @ CHR '']'' # show_segs False segs"

definition plain_key :: "string \<Rightarrow> bool" where
  "plain_key k \<longleftrightarrow> k \<noteq> [] \<and> (\<forall>c\<in>set k. \<not> is_space c \<and> c \<notin> {CHR ''.'', CHR ''['', CHR ''$''})"

fun plain_seg :: "path_seg \<Rightarrow> bool" where
  "plain_seg (Key k) = plain_key k"
| "plain_seg (Index n) = (int n < 2 ^ 63)"

definition part_text :: "string \<Rightarrow> nat list \<Rightarrow> string" where
  "part_text k ns = k @ concat (map (\<lambda>n. CHR ''['' # show_nat n @ '']'') ns)"

definition part_read :: "string \<Rightarrow> nat list \<Rightarrow> path_seg list" where
  "part_read k ns = (if k = [] then [] else [Key k]) @ map Index ns"

lemma index_one:
  assumes "c \<notin> set u"
  shows "str_index (u @ c # t) [c] = Some (length u)"
  using assms
proof (induction u)
  case Nil
  then show ?case by (subst str_index.simps) (simp add: has_prefix_def)
next
  case (Cons d u)
  then show ?case by (subst str_index.simps) (auto simp: has_prefix_def)
qed

lemma index_none:
  assumes "c \<notin> set u"
  shows "str_index u [c] = None"
  using assms str_index_Some [of u "[c]"] by (cases "str_index u [c]") (auto, metis in_set_conv_decomp)

lemma nat_plain: "c \<in> set (show_nat n) \<Longrightarrow> is_digit c"
  using show_nat_digits [of n] by (simp add: list_all_iff)

lemma parse_show_nat: "int n < 2 ^ 63 \<Longrightarrow> parse_int (show_nat n) = Some (int n)"
  using parse_show_int [of "int n"] by (simp add: show_int_def in_i64_def)

lemma part_read_back:
  assumes "CHR ''['' \<notin> set k" "\<forall>n\<in>set ns. int n < 2 ^ 63"
  shows "part_segs (part_text k ns) = (part_read k ns, False)"
  using assms
proof (induction ns arbitrary: k)
  case Nil
  then show ?case by (subst part_segs.simps) (simp add: part_text_def part_read_def index_none)
next
  case (Cons n ns)
  let ?rest = "part_text [] ns"
  have shape: "part_text k (n # ns) = k @ CHR ''['' # show_nat n @ CHR '']'' # ?rest" by (simp add: part_text_def)
  have brackets: "str_index (part_text k (n # ns)) ''['' = Some (length k)"
    unfolding shape by (rule index_one) (use Cons.prems in simp)
  have closing: "str_index (CHR ''['' # show_nat n @ CHR '']'' # ?rest) '']'' = Some (Suc (length (show_nat n)))"
    using index_one [of "CHR '']''" "CHR ''['' # show_nat n" ?rest] nat_plain [of "CHR '']''" n] by (auto simp: is_digit_def)
  have ih: "part_segs ?rest = (part_read [] ns, False)" using Cons by simp
  have parts: "take (length k) (part_text k (n # ns)) = k" "drop (length k) (part_text k (n # ns)) = CHR ''['' # show_nat n @ CHR '']'' # ?rest"
      "take (Suc (length (show_nat n)) - 1) (drop (length k + 1) (part_text k (n # ns))) = show_nat n"
      "drop (length k + Suc (length (show_nat n)) + 1) (part_text k (n # ns)) = ?rest"
    by (simp_all add: shape)
  have num: "parse_int (show_nat n) = Some (int n)" using Cons.prems(2) parse_show_nat by simp
  show ?case
    unfolding part_segs.simps [of "part_text k (n # ns)"] brackets option.case Let_def parts closing num ih
    by (simp add: part_read_def)
qed

lemma str_split_once: "c \<notin> set u \<Longrightarrow> str_split c (u @ c # v) = u # str_split c v" "c \<notin> set u \<Longrightarrow> str_split c u = [u]"
  by (induction u) auto

lemma dots_in_part: "CHR ''.'' \<notin> set k \<Longrightarrow> CHR ''.'' \<notin> set (part_text k ns)"
  using nat_plain [of "CHR ''.''"] by (auto simp: part_text_def is_digit_def)

lemma segs_read_back:
  assumes "\<forall>s\<in>set segs. plain_seg s" "set k \<inter> {CHR ''.'', CHR ''[''} = {}" "\<forall>n\<in>set ns. int n < 2 ^ 63"
  shows "parts_segs (str_split CHR ''.'' (part_text k ns @ show_segs False segs)) = part_read k ns @ segs"
  using assms
proof (induction segs arbitrary: k ns)
  case Nil
  then show ?case using part_read_back [of k ns] dots_in_part [of k ns] by (simp add: str_split_once)
next
  case (Cons s segs)
  show ?case
  proof (cases s)
    case (Index n)
    have same: "part_text k ns @ show_segs False (s # segs) = part_text k (ns @ [n]) @ show_segs False segs"
      by (simp add: Index part_text_def)
    have "parts_segs (str_split CHR ''.'' (part_text k (ns @ [n]) @ show_segs False segs)) = part_read k (ns @ [n]) @ segs"
      by (rule Cons.IH) (use Cons.prems Index in auto)
    then show ?thesis unfolding same by (simp add: part_read_def Index)
  next
    case (Key j)
    then have j: "j \<noteq> []" "set j \<inter> {CHR ''.'', CHR ''[''} = {}" using Cons.prems(1) by (auto simp: plain_key_def)
    have "part_text k ns @ show_segs False (s # segs) = part_text k ns @ CHR ''.'' # (part_text j [] @ show_segs False segs)"
      by (simp add: Key part_text_def)
    then have "str_split CHR ''.'' (part_text k ns @ show_segs False (s # segs)) =
        part_text k ns # str_split CHR ''.'' (part_text j [] @ show_segs False segs)"
      using dots_in_part [of k ns] Cons.prems(2) by (simp add: str_split_once)
    then show ?thesis
      using Cons.IH [of j "[]"] Cons.prems j part_read_back [of k ns] by (simp add: Key part_read_def)
  qed
qed

lemma no_space_trim: "\<forall>c\<in>set s. \<not> is_space c \<Longrightarrow> trim_space s = s"
proof -
  assume "\<forall>c\<in>set s. \<not> is_space c"
  then have d: "dropWhile is_space t = t" if "set t \<subseteq> set s" for t using that by (cases t) auto
  show ?thesis using d [of s] d [of "rev s"] by (simp add: trim_space_def trim_left_def trim_right_def)
qed

lemma digit_safe: "is_digit c \<Longrightarrow> \<not> is_space c \<and> c \<noteq> CHR ''$''"
  by (auto simp: is_digit_def is_space_def)

lemma shown_chars:
  "\<forall>s\<in>set segs. plain_seg s \<Longrightarrow> c \<in> set (show_segs first segs) \<Longrightarrow> \<not> is_space c \<and> c \<noteq> CHR ''$''"
proof (induction segs arbitrary: first)
  case (Cons s segs)
  have safe: "\<not> is_space CHR ''.''" "\<not> is_space CHR ''[''" "\<not> is_space CHR '']''" by (simp_all add: is_space_def)
  show ?case
  proof (cases s)
    case (Key k)
    then consider "c \<in> set k" | "c = CHR ''.''" | "c \<in> set (show_segs False segs)"
      using Cons.prems(2) by (auto split: if_split_asm)
    then show ?thesis
    proof cases
      case 1
      have "plain_key k" using Cons.prems(1) by (simp add: Key)
      then show ?thesis using 1 by (simp add: plain_key_def)
    next
      case 2
      then show ?thesis using safe by simp
    next
      case 3
      then show ?thesis using Cons.IH Cons.prems(1) by simp
    qed
  next
    case (Index n)
    then consider "c \<in> set (show_nat n)" | "c = CHR ''[''" | "c = CHR '']''" | "c \<in> set (show_segs False segs)"
      using Cons.prems(2) by auto
    then show ?thesis
      using Cons.IH Cons.prems(1) safe digit_safe [OF nat_plain [of c n]] by cases simp_all
  qed
qed simp

text \<open>
  The path of an assertion reads back as it is written: a list of keys and indices
  printed with dots and brackets is parsed to the same list, when no key is empty or has a
  dot, an opening bracket, a dollar sign or a blank in it.
\<close>

lemma paths_read_back:
  assumes "\<forall>s\<in>set segs. plain_seg s"
  shows "split_path (show_segs True segs) = segs"
proof -
  let ?p = "show_segs True segs"
  note chars = shown_chars [OF assms]
  have trim: "trim_space ?p = ?p" using chars by (intro no_space_trim) blast
  have dollar: "\<not> has_prefix ?p ''$''" using chars [of "CHR ''$''" True] by (auto simp: has_prefix_iff)
  have dot: "\<not> has_prefix ?p ''.''"
  proof (cases segs)
    case (Cons s rest)
    show ?thesis
    proof (cases s)
      case (Key k)
      then have "plain_key k" using assms by (simp add: Cons)
      then obtain e k' where k: "k = e # k'" "e \<noteq> CHR ''.''" unfolding plain_key_def by (cases k) simp_all
      then show ?thesis by (simp add: Cons Key has_prefix_def)
    qed (simp add: Cons has_prefix_def)
  qed (simp add: has_prefix_def)
  have path: "split_path ?p = parts_segs (str_split CHR ''.'' ?p)"
    by (simp only: split_path_def trim trim_prefix_def dollar dot if_False)
  show ?thesis
  proof (cases segs)
    case Nil
    then show ?thesis unfolding path by (simp add: part_segs.simps [of "[]"] index_none)
  next
    case (Cons s rest)
    show ?thesis
    proof (cases s)
      case (Key k)
      have p: "?p = part_text k [] @ show_segs False rest" by (simp add: Cons Key part_text_def)
      have k: "plain_key k" and rest: "\<forall>s\<in>set rest. plain_seg s" using assms by (simp_all add: Cons Key)
      then have "set k \<inter> {CHR ''.'', CHR ''[''} = {}" "k \<noteq> []" unfolding plain_key_def by blast+
      then have "parts_segs (str_split CHR ''.'' (part_text k [] @ show_segs False rest)) = Key k # rest"
        using segs_read_back [OF rest] by (simp add: part_read_def)
      then show ?thesis using path p by (simp add: Cons Key)
    next
      case (Index n)
      then have "?p = part_text [] [] @ show_segs False segs" by (simp add: Cons part_text_def)
      then show ?thesis using segs_read_back [OF assms, of "[]" "[]"] unfolding path by (simp add: part_read_def)
    qed
  qed
qed

text \<open>A path with a mistyped index silently stands for what comes before it.\<close>

lemma mistyped_index_reads_the_container:
  "split_path ''data.items[x].id'' = [Key ''data'', Key ''items'']" "split_path ''items[0.id'' = [Key ''items'', Key ''id'']"
  by code_simp+

end
