(* ===== verification/Journey.thy ===== *)
theory Journey
  imports Assertion
begin

text \<open>
  The journey engine (\<open>internal/journey/engine.go\<close>) for HTTP monitors. What the
  network, the clock and the random source do while one step runs is its \<open>turn\<close>;
  \<open>url.Parse\<close> and \<open>http.NewRequest\<close> are parameters, and the client follows
  redirects the way \<open>net/http\<close> does. Every request that leaves is kept in a log.
\<close>

section \<open>Data\<close>

definition MaxBody :: nat where "MaxBody = 262144"
definition MaxCapture :: nat where "MaxCapture = 1024"
definition MaxRedirects :: nat where "MaxRedirects = 5"

record step =
  st_name :: string
  st_kind :: string
  st_cleanup :: bool
  st_method :: string
  st_url :: string
  st_headers :: "(string \<times> string) list"
  st_body :: string
  st_expect :: "int list"
  st_follow :: bool
  st_assertions :: "assertion list"
  st_extractions :: "extraction list"
  st_sleep :: int

record journey =
  jy_budget :: int
  jy_steps :: "step list"

record step_result =
  sr_name :: string
  sr_kind :: string
  sr_status :: int
  sr_ms :: int
  sr_ok :: bool
  sr_detail :: string
  sr_capture :: string

record failure =
  f_class :: string
  f_detail :: string

abbreviation ClassAssertion :: string where "ClassAssertion \<equiv> ''assertion''"
abbreviation ClassStatus :: string where "ClassStatus \<equiv> ''status''"
abbreviation ClassTimeout :: string where "ClassTimeout \<equiv> ''timeout''"
abbreviation ClassConnect :: string where "ClassConnect \<equiv> ''connect''"
abbreviation ClassTLS :: string where "ClassTLS \<equiv> ''tls''"
abbreviation ClassDNS :: string where "ClassDNS \<equiv> ''dns''"
abbreviation ClassRedaction :: string where "ClassRedaction \<equiv> ''redaction''"
abbreviation ClassPolicy :: string where "ClassPolicy \<equiv> ''policy''"
abbreviation ClassInternal :: string where "ClassInternal \<equiv> ''internal''"

text \<open>A transport error, with what \<open>errors.As\<close> finds in it.\<close>

record terror =
  te_deadline :: bool
  te_timeout :: bool
  te_dns :: bool
  te_certificate :: bool
  te_record :: bool
  te_text :: string

record reply =
  ry_status :: int
  ry_headers :: "(string \<times> string list) list"
  ry_body :: string
  ry_read_error :: "terror option"
  ry_location :: "string option"

datatype hop = Fails terror | Answers reply

record turn =
  tn_texts :: texts
  tn_ms :: int
  tn_fail_ms :: int
  tn_waited :: bool
  tn_net :: "nat \<Rightarrow> hop"
  tn_wrap :: "string \<Rightarrow> string"

record engine =
  en_lib :: lib
  en_secrets :: "resolver option"
  en_egress :: "allowlist option"
  en_url :: "string \<Rightarrow> string + string"
  en_request :: "string \<Rightarrow> string \<Rightarrow> string option"

text \<open>A request that left: where it went first, what it carried, and every host contacted for it.\<close>

record sent =
  sn_host :: string
  sn_target :: string
  sn_headers :: "(string \<times> string) list"
  sn_body :: string
  sn_used :: "(string \<times> string) list"
  sn_hops :: "string list"

record jstate =
  js_vars :: "(string \<times> string) list"
  js_red :: redactor
  js_used :: "string list"
  js_log :: "sent list"

section \<open>Errors\<close>

definition verdict_for :: "string \<Rightarrow> string" where
  "verdict_for class = (if class \<in> {ClassPolicy, ClassInternal, ClassRedaction} then ''error'' else ''down'')"

definition classify_transport :: "terror \<Rightarrow> string" where
  "classify_transport e =
     (if te_deadline e \<or> te_timeout e then ClassTimeout
      else if te_dns e then ClassDNS
      else if te_certificate e \<or> te_record e then ClassTLS
      else if str_contains (te_text e) ''tls:'' \<or> str_contains (te_text e) ''certificate'' then ClassTLS
      else ClassConnect)"

definition get_prefix :: string where "get_prefix = ''Get '' @ [CHR 0x22]"

definition transport_detail :: "terror \<Rightarrow> string" where
  "transport_detail e =
     (let msg = (case str_index (te_text e) '': '' of
            Some i \<Rightarrow> if i > 0 \<and> has_prefix (te_text e) get_prefix then drop (i + 2) (te_text e) else te_text e
          | None \<Rightarrow> te_text e)
      in if str_contains msg ''connection refused'' then ''the connection was refused''
         else if str_contains msg ''no such host'' then ''the hostname does not resolve''
         else if str_contains msg ''context deadline exceeded'' \<or> str_contains msg ''Client.Timeout''
           then ''the service did not answer within the timeout''
         else if str_contains msg ''certificate'' then ''the TLS certificate was not accepted: '' @ msg
         else msg)"

section \<open>The client\<close>

definition egress_ok :: "allowlist option \<Rightarrow> string \<Rightarrow> bool" where
  "egress_ok al host = (case al of None \<Rightarrow> True | Some a \<Rightarrow> al_check a host)"

definition egress_error :: "string \<Rightarrow> string" where
  "egress_error host = ''egress: '' @ host_only host @ '' is not a declared target of this monitor''"

definition refused_hop :: "turn \<Rightarrow> string \<Rightarrow> terror" where
  "refused_hop tn why =
     \<lparr>te_deadline = False, te_timeout = False, te_dns = False, te_certificate = False, te_record = False, te_text = tn_wrap tn why\<rparr>"

definition redirect_status :: "int \<Rightarrow> bool" where
  "redirect_status st \<longleftrightarrow> st \<in> {301, 302, 303, 307, 308}"

text \<open>\<open>via\<close> is the number of requests made before this one; \<open>hops\<close> the hosts they went to.\<close>

function follow :: "turn \<Rightarrow> allowlist option \<Rightarrow> bool \<Rightarrow> nat \<Rightarrow> string list \<Rightarrow> string \<Rightarrow> (terror + reply) \<times> string list" where
  "follow tn al redirects via hops host =
     (case tn_net tn via of
        Fails e \<Rightarrow> (Inl e, hops @ [host])
      | Answers r \<Rightarrow>
          (case (if redirects \<and> redirect_status (ry_status r) then ry_location r else None) of
             None \<Rightarrow> (Inr r, hops @ [host])
           | Some next \<Rightarrow>
               if via + 1 \<ge> MaxRedirects
               then (Inl (refused_hop tn (''stopped after '' @ show_int (int MaxRedirects) @ '' redirects'')), hops @ [host])
               else if \<not> egress_ok al next then (Inl (refused_hop tn (egress_error next)), hops @ [host])
               else follow tn al redirects (via + 1) (hops @ [host]) next))"
  by pat_completeness auto
termination by (relation "measure (\<lambda>(tn, al, redirects, via, hops, host). MaxRedirects - via)") auto

declare follow.simps [simp del]

section \<open>One step\<close>

definition header_prefix :: string where "header_prefix = ''__header.''"

definition set_header_vars :: "(string \<times> string) list \<Rightarrow> (string \<times> string) list \<Rightarrow> (string \<times> string) list" where
  "set_header_vars vars headers =
     foldl (\<lambda>vs (k, v). AList.update (header_prefix @ k) v vs) (filter (\<lambda>(k, v). \<not> has_prefix k header_prefix) vars) headers"

definition header_vars :: "(string \<times> string) list \<Rightarrow> (string \<times> string) list" where
  "header_vars vars =
     map (\<lambda>(k, v). (drop (length header_prefix) k, v)) (filter (\<lambda>(k, v). has_prefix k header_prefix) vars)"

definition flatten_headers :: "(string \<times> string list) list \<Rightarrow> (string \<times> string) list" where
  "flatten_headers h =
     foldl (\<lambda>out (k, vs). case vs of [] \<Rightarrow> out | v # _ \<Rightarrow> AList.update (to_lower k) v out) [] h"

definition string_var :: "(string \<times> string) list \<Rightarrow> string \<Rightarrow> string" where
  "string_var vars k = (case map_of vars k of Some v \<Rightarrow> v | None \<Rightarrow> [])"

definition int_var :: "(string \<times> string) list \<Rightarrow> string \<Rightarrow> int" where
  "int_var vars k = (case scan_int (string_var vars k) of Some (n, _) \<Rightarrow> n | None \<Rightarrow> 0)"

definition capture :: "string \<Rightarrow> string" where
  "capture body = (let b = trim_space body in if length b \<le> MaxCapture then b else take MaxCapture b @ ''... (truncated)'')"

definition read_limited :: "string \<Rightarrow> string" where
  "read_limited body = take MaxBody body"

lemma read_limited_code [code]:
  "read_limited body = (if int (length body) \<le> 262144 then body else take MaxBody body)"
  by (simp add: read_limited_def MaxBody_def)

definition status_list :: "int list \<Rightarrow> string" where
  "status_list ns = str_join '' or '' (map show_int ns)"

fun run_extractions :: "lib \<Rightarrow> extraction list \<Rightarrow> observation \<Rightarrow> failure option \<times> observation" where
  "run_extractions lb [] ob = (None, ob)"
| "run_extractions lb (ex # exs) ob =
     (case extract_value lb ob ex of
        (None, ob') \<Rightarrow> (Some \<lparr>f_class = ClassAssertion, f_detail = ex_var ex @ '' could not be extracted from the response''\<rparr>, ob')
      | (Some v, ob') \<Rightarrow> run_extractions lb exs (ob'\<lparr>ob_vars := AList.update (ex_var ex) v (ob_vars ob')\<rparr>))"

definition policy :: "string \<Rightarrow> failure" where
  "policy detail = \<lparr>f_class = ClassPolicy, f_detail = detail\<rparr>"

definition vars_scope :: "(string \<times> string) list \<Rightarrow> scope" where
  "vars_scope vars = \<lparr>sc_vars = vars, sc_secrets = None, sc_host = [], sc_used = []\<rparr>"

fun run_assertions :: "lib \<Rightarrow> texts \<Rightarrow> nat \<Rightarrow> assertion list \<Rightarrow> observation \<Rightarrow> failure option" where
  "run_assertions lb tx n [] ob = None"
| "run_assertions lb tx n (a # as) ob =
     (if references_secret (as_value a) \<or> references_secret (as_target a)
      then Some (policy ''an assertion may not reference a credential'')
      else case render tx (vars_scope (ob_vars ob)) n (as_value a) of
        Inl e \<Rightarrow> Some (policy e)
      | Inr (val, _, n1) \<Rightarrow>
          (case render tx (vars_scope (ob_vars ob)) n1 (as_target a) of
             Inl e \<Rightarrow> Some (policy e)
           | Inr (target, _, n2) \<Rightarrow>
               (case evaluate lb ob (a\<lparr>as_value := val, as_target := target\<rparr>) of
                  (reason, ob') \<Rightarrow>
                    if reason \<noteq> [] then Some \<lparr>f_class = ClassAssertion, f_detail = reason\<rparr>
                    else run_assertions lb tx n2 as ob')))"

definition checks :: "lib \<Rightarrow> texts \<Rightarrow> nat \<Rightarrow> step \<Rightarrow> observation \<Rightarrow> failure option \<times> (string \<times> string) list" where
  "checks lb tx n s ob =
     (case run_extractions lb (st_extractions s) ob of
        (Some f, ob') \<Rightarrow> (Some f, ob_vars ob')
      | (None, ob') \<Rightarrow> (run_assertions lb tx n (st_assertions s) ob', ob_vars ob'))"

definition fail_step :: "turn \<Rightarrow> redactor \<Rightarrow> step_result \<Rightarrow> failure \<Rightarrow> step_result \<times> failure option" where
  "fail_step tn red sr f = (sr\<lparr>sr_ms := tn_fail_ms tn, sr_ok := False, sr_detail := redact red (f_detail f)\<rparr>, Some f)"

fun render_headers :: "texts \<Rightarrow> scope \<Rightarrow> nat \<Rightarrow> (string \<times> string) list \<Rightarrow> string + (string \<times> string) list \<times> scope \<times> nat" where
  "render_headers tx sc n [] = Inr ([], sc, n)"
| "render_headers tx sc n ((k, v) # hs) =
     (case render tx sc n v of
        Inl e \<Rightarrow> Inl e
      | Inr (rv, sc1, n1) \<Rightarrow>
          (case render_headers tx sc1 n1 hs of Inl e \<Rightarrow> Inl e | Inr (rest, sc2, n2) \<Rightarrow> Inr ((k, rv) # rest, sc2, n2)))"

text \<open>The request a step asks for: its URL without credentials, its headers and body with those bound to the host.\<close>

record prepared =
  pr_host :: string
  pr_target :: string
  pr_headers :: "(string \<times> string) list"
  pr_body :: string
  pr_used :: "(string \<times> string) list"
  pr_drawn :: nat

definition prepare :: "engine \<Rightarrow> turn \<Rightarrow> step \<Rightarrow> (string \<times> string) list \<Rightarrow> string + prepared" where
  "prepare en tn s vars =
     (if references_secret (st_url s) then Inl ErrSecretInURL
      else bind_res (render (tn_texts tn) (vars_scope vars) 0 (st_url s)) (\<lambda>(target, _, n).
        case en_url en target of
          Inl e \<Rightarrow> Inl (''the resolved URL is not valid: '' @ e)
        | Inr host \<Rightarrow>
            if \<not> egress_ok (en_egress en) host then Inl (egress_error host)
            else let sc = \<lparr>sc_vars = vars, sc_secrets = en_secrets en, sc_host = host, sc_used = []\<rparr>
              in bind_res (render (tn_texts tn) sc n (st_body s)) (\<lambda>(body, sc1, n1).
                 bind_res (render_headers (tn_texts tn) sc1 n1 (st_headers s)) (\<lambda>(headers, sc2, n2).
                   Inr \<lparr>pr_host = host, pr_target = target, pr_headers = headers, pr_body = body, pr_used = sc_used sc2,
                        pr_drawn = n2\<rparr>))))"


definition register_used :: "(string \<times> string) list \<Rightarrow> jstate \<Rightarrow> jstate" where
  "register_used used js =
     js\<lparr>js_red := foldl (\<lambda>r (name, v). red_add r name v) (js_red js) used,
       js_used := foldl (\<lambda>us (name, v). List.insert name us) (js_used js) used\<rparr>"

definition register_secrets :: "extraction list \<Rightarrow> jstate \<Rightarrow> jstate" where
  "register_secrets exs js =
     js\<lparr>js_red := foldl (\<lambda>r ex. if ex_secret ex then red_add r (ex_var ex) (string_var (js_vars js) (ex_var ex)) else r) (js_red js) exs\<rparr>"

text \<open>What the step does with a response, from the observation on.\<close>

definition take_response :: "engine \<Rightarrow> turn \<Rightarrow> step \<Rightarrow> nat \<Rightarrow> step_result \<Rightarrow> reply \<Rightarrow> jstate \<Rightarrow> (step_result \<times> failure option) \<times> jstate" where
  "take_response en tn s n sr r js =
     (let body = read_limited (ry_body r);
          headers = flatten_headers (ry_headers r);
          vars = set_header_vars (AList.update ''__body'' body (AList.update ''__latency_ms'' (show_int (tn_ms tn))
                   (AList.update ''__status'' (show_int (ry_status r)) (js_vars js)))) headers;
          js1 = js\<lparr>js_vars := vars\<rparr>;
          sr1 = sr\<lparr>sr_status := ry_status r, sr_ms := tn_ms tn, sr_capture := redact (js_red js) (capture body)\<rparr>
      in if st_expect s \<noteq> [] \<and> ry_status r \<notin> set (st_expect s) then
           (fail_step tn (js_red js) sr1 \<lparr>f_class = ClassStatus,
              f_detail = ''the service answered '' @ show_int (ry_status r) @ '', expected '' @ status_list (st_expect s)\<rparr>, js1)
         else if st_expect s = [] \<and> ry_status r \<ge> 500 then
           (fail_step tn (js_red js) sr1 \<lparr>f_class = ClassStatus, f_detail = ''the service answered '' @ show_int (ry_status r)\<rparr>, js1)
         else case checks (en_lib en) (tn_texts tn) n s
                \<lparr>ob_status = ry_status r, ob_latency = tn_ms tn, ob_headers = headers, ob_body = body, ob_decoded = None,
                 ob_decoded_ok = False, ob_vars = vars\<rparr> of
             (Some f, vars') \<Rightarrow>
               ((sr1\<lparr>sr_ok := False, sr_detail := redact (js_red js) (f_detail f)\<rparr>, Some f), js1\<lparr>js_vars := vars'\<rparr>)
           | (None, vars') \<Rightarrow>
               let js2 = register_secrets (st_extractions s) (js1\<lparr>js_vars := vars'\<rparr>)
               in ((sr1\<lparr>sr_capture := redact (js_red js2) (sr_capture sr1)\<rparr>, None), js2))"

definition to_upper :: "string \<Rightarrow> string" where
  "to_upper s = map (\<lambda>c. if 97 \<le> (of_char c :: nat) \<and> (of_char c :: nat) \<le> 122 then char_of ((of_char c :: nat) - 32) else c) s"

definition request :: "engine \<Rightarrow> turn \<Rightarrow> step \<Rightarrow> step_result \<Rightarrow> jstate \<Rightarrow> (step_result \<times> failure option) \<times> jstate" where
  "request en tn s sr js =
     (case prepare en tn s (js_vars js) of
        Inl e \<Rightarrow> (fail_step tn (js_red js) sr (policy e), js)
      | Inr p \<Rightarrow>
          let js1 = register_used (pr_used p) js in
          (case en_request en (to_upper (st_method s)) (pr_target p) of
             Some e \<Rightarrow> (fail_step tn (js_red js1) sr (policy e), js1)
           | None \<Rightarrow>
               (case follow tn (en_egress en) (st_follow s) 0 [] (pr_host p) of
                  (res, hops) \<Rightarrow>
                    let js2 = js1\<lparr>js_log := js_log js1 @
                          [\<lparr>sn_host = pr_host p, sn_target = pr_target p, sn_headers = pr_headers p, sn_body = pr_body p,
                            sn_used = pr_used p, sn_hops = hops\<rparr>]\<rparr>
                    in case res of
                         Inl e \<Rightarrow> (fail_step tn (js_red js2) sr \<lparr>f_class = classify_transport e, f_detail = transport_detail e\<rparr>, js2)
                       | Inr r \<Rightarrow>
                           (case ry_read_error r of
                              Some e \<Rightarrow> (fail_step tn (js_red js2) sr \<lparr>f_class = classify_transport e,
                                f_detail = ''the response could not be read: '' @ te_text e\<rparr>, js2)
                            | None \<Rightarrow> take_response en tn s (pr_drawn p) sr r js2))))"

definition run_step :: "engine \<Rightarrow> turn \<Rightarrow> step \<Rightarrow> jstate \<Rightarrow> (step_result \<times> failure option) \<times> jstate" where
  "run_step en tn s js =
     (let sr = \<lparr>sr_name = st_name s, sr_kind = st_kind s, sr_status = 0, sr_ms = tn_ms tn, sr_ok = True, sr_detail = [], sr_capture = []\<rparr>
      in if st_kind s = ''sleep'' then
           (if tn_waited tn then ((sr, None), js)
            else ((sr\<lparr>sr_ok := False\<rparr>, Some \<lparr>f_class = ClassTimeout, f_detail = ''the journey ran out of time while waiting''\<rparr>), js))
         else if st_kind s = ''assert'' \<or> st_kind s = ''extract'' then
           (case checks (en_lib en) (tn_texts tn) 0 s
                \<lparr>ob_status = int_var (js_vars js) ''__status'', ob_latency = int_var (js_vars js) ''__latency_ms'',
                 ob_headers = header_vars (js_vars js), ob_body = string_var (js_vars js) ''__body'', ob_decoded = None,
                 ob_decoded_ok = False, ob_vars = js_vars js\<rparr> of
              (Some f, vars') \<Rightarrow> ((sr\<lparr>sr_ok := False, sr_detail := redact (js_red js) (f_detail f)\<rparr>, Some f), js\<lparr>js_vars := vars'\<rparr>)
            | (None, vars') \<Rightarrow> ((sr, None), js\<lparr>js_vars := vars'\<rparr>))
         else if st_kind s = ''http'' then request en tn s (sr\<lparr>sr_ms := 0\<rparr>) js
         else ((sr\<lparr>sr_ok := False\<rparr>, Some (policy (''unknown step kind '' @ st_kind s))), js))"

section \<open>A run\<close>

record journey_result =
  rr_verdict :: string
  rr_ms :: int
  rr_failed_step :: string
  rr_class :: string
  rr_detail :: string
  rr_steps :: "step_result list"
  rr_used :: "string list"

text \<open>The steps of the journey up to the first failure, with its step; turns are numbered as they are used.\<close>

fun run_main :: "engine \<Rightarrow> (nat \<Rightarrow> turn) \<Rightarrow> nat \<Rightarrow> step list \<Rightarrow> jstate \<Rightarrow> step_result list \<times> (step \<times> failure) option \<times> nat \<times> jstate" where
  "run_main en turns k [] js = ([], None, k, js)"
| "run_main en turns k (s # ss) js =
     (if st_cleanup s then run_main en turns k ss js
      else case run_step en (turns k) s js of
        ((sr, Some f), js') \<Rightarrow> ([sr], Some (s, f), k + 1, js')
      | ((sr, None), js') \<Rightarrow> (case run_main en turns (k + 1) ss js' of (srs, res) \<Rightarrow> (sr # srs, res)))"

fun run_cleanup :: "engine \<Rightarrow> (nat \<Rightarrow> turn) \<Rightarrow> nat \<Rightarrow> step list \<Rightarrow> jstate \<Rightarrow> step_result list \<times> jstate" where
  "run_cleanup en turns k [] js = ([], js)"
| "run_cleanup en turns k (s # ss) js =
     (if \<not> st_cleanup s then run_cleanup en turns k ss js
      else case run_step en (turns k) s js of
        ((sr, f), js') \<Rightarrow>
          let sr' = (case f of None \<Rightarrow> sr | Some f \<Rightarrow> sr\<lparr>sr_detail := ''cleanup: '' @ redact (js_red js') (f_detail f)\<rparr>)
          in case run_cleanup en turns (k + 1) ss js' of (srs, js'') \<Rightarrow> (sr' # srs, js''))"

definition leaked :: "redactor \<Rightarrow> journey_result \<Rightarrow> bool" where
  "leaked red res \<longleftrightarrow>
     red \<noteq> [] \<and> (leaks red (rr_detail res) \<or> list_ex (\<lambda>s. leaks red (sr_capture s) \<or> leaks red (sr_detail s)) (rr_steps res))"

definition leak_detail :: string where
  "leak_detail = ''a credential appeared in the captured output; the capture was discarded''"

definition last_defence :: "redactor \<Rightarrow> journey_result \<Rightarrow> journey_result" where
  "last_defence red res =
     (if leaked red res
      then res\<lparr>rr_verdict := ''error'', rr_class := ClassRedaction, rr_detail := leak_detail,
             rr_steps := map (\<lambda>s. s\<lparr>sr_capture := [], sr_detail := []\<rparr>) (rr_steps res)\<rparr>
      else res)"

definition no_state :: jstate where
  "no_state = \<lparr>js_vars = [], js_red = [], js_used = [], js_log = []\<rparr>"

definition judge_run :: "int \<Rightarrow> int \<Rightarrow> redactor \<Rightarrow> (step \<times> failure) option \<Rightarrow> journey_result \<Rightarrow> journey_result" where
  "judge_run budget ms red failed res =
     (let res = res\<lparr>rr_ms := ms\<rparr> in
      case failed of
        Some (s, f) \<Rightarrow> res\<lparr>rr_verdict := verdict_for (f_class f), rr_failed_step := st_name s, rr_class := f_class f,
                            rr_detail := redact red (f_detail f)\<rparr>
      | None \<Rightarrow>
          if budget > 0 \<and> ms > budget
          then res\<lparr>rr_verdict := ''degraded'',
                 rr_detail := ''the journey completed in '' @ show_int ms @ ''ms, over the '' @ show_int budget @ ''ms budget''\<rparr>
          else res)"

text \<open>\<open>Run\<close>: the result and the state it ends in; \<open>ms\<close> is the time the whole run took.\<close>

definition run_journey :: "engine \<Rightarrow> (nat \<Rightarrow> turn) \<Rightarrow> int \<Rightarrow> journey \<Rightarrow> journey_result \<times> jstate" where
  "run_journey en turns ms m =
     (case run_main en turns 0 (jy_steps m) no_state of
        (main, failed, k, js1) \<Rightarrow>
          (case run_cleanup en turns k (jy_steps m) js1 of
             (cleanup, js2) \<Rightarrow>
               let res = judge_run (jy_budget m) ms (js_red js1) failed
                     \<lparr>rr_verdict = ''up'', rr_ms = 0, rr_failed_step = [], rr_class = [], rr_detail = [],
                      rr_steps = main @ cleanup, rr_used = sort (js_used js2)\<rparr>
               in (last_defence (js_red js2) res, js2)))"

section \<open>Where credentials go\<close>

lemma follow_hops:
  assumes "follow tn al redirects via hops host = (res, hs)" "list_all (egress_ok al) hops" "egress_ok al host"
    and "via = length hops" "via < MaxRedirects"
  shows "list_all (egress_ok al) hs \<and> length hs \<le> MaxRedirects \<and> hs \<noteq> [] \<and> hd hs = hd (hops @ [host])"
  using assms
proof (induction tn al redirects via hops host arbitrary: res hs rule: follow.induct)
  case (1 tn al redirects via hops host)
  have stop: ?case if "hs = hops @ [host]" using that 1(3-6) by simp
  show ?case
  proof (cases "tn_net tn via")
    case (Fails e)
    then show ?thesis using 1(2) stop by (subst (asm) follow.simps) simp
  next
    case (Answers r)
    define loc where "loc = (if redirects \<and> redirect_status (ry_status r) then ry_location r else None)"
    note f = 1(2) [unfolded follow.simps [of tn al redirects via hops host] Answers hop.case loc_def [symmetric]]
    show ?thesis
    proof (cases loc)
      case None
      then show ?thesis using f stop by simp
    next
      case (Some nxt)
      show ?thesis
      proof (cases "via + 1 \<ge> MaxRedirects \<or> \<not> egress_ok al nxt")
        case True
        then show ?thesis using f stop Some by (auto split: if_splits)
      next
        case False
        then have "follow tn al redirects (via + 1) (hops @ [host]) nxt = (res, hs)" using f Some by simp
        then show ?thesis
          using 1(1) [OF Answers, of nxt, folded loc_def, OF Some] False 1(3-5) by (simp add: hd_append)
      qed
    qed
  qed
qed

definition sent_ok :: "engine \<Rightarrow> sent \<Rightarrow> bool" where
  "sent_ok en sn \<longleftrightarrow>
     en_url en (sn_target sn) = Inr (sn_host sn) \<and> sn_hops sn \<noteq> [] \<and> hd (sn_hops sn) = sn_host sn \<and>
     length (sn_hops sn) \<le> MaxRedirects \<and> list_all (egress_ok (en_egress en)) (sn_hops sn) \<and>
     released (en_secrets en) (sn_host sn) (sn_used sn)"

lemma render_headers_keeps:
  assumes "render_headers tx sc n hs = Inr (out, sc', n')"
  shows "sc_host sc' = sc_host sc \<and> sc_secrets sc' = sc_secrets sc \<and> sc_vars sc' = sc_vars sc \<and>
    (released (sc_secrets sc) (sc_host sc) (sc_used sc) \<longrightarrow> released (sc_secrets sc) (sc_host sc) (sc_used sc'))"
  using assms
proof (induction tx sc n hs arbitrary: out sc' n' rule: render_headers.induct)
  case (2 tx sc n k v hs)
  obtain rv sc1 n1 where r1: "render tx sc n v = Inr (rv, sc1, n1)"
    using 2(2) by (cases "render tx sc n v") auto
  obtain rest where "render_headers tx sc1 n1 hs = Inr (rest, sc', n')"
    using 2(2) by (cases "render_headers tx sc1 n1 hs") (auto simp: r1)
  note r = r1 this
  note k = render_keeps [OF r(1)]
  have "sc_host sc' = sc_host sc1 \<and> sc_secrets sc' = sc_secrets sc1 \<and> sc_vars sc' = sc_vars sc1 \<and>
    (released (sc_secrets sc1) (sc_host sc1) (sc_used sc1) \<longrightarrow> released (sc_secrets sc1) (sc_host sc1) (sc_used sc'))"
    by (rule 2(1) [OF r(1) _ _ r(2)]) (rule refl)+
  then show ?case using k(4) unfolding k(1-3) by blast
qed simp

lemma prepare_ok:
  assumes "prepare en tn s vars = Inr p"
  shows "en_url en (pr_target p) = Inr (pr_host p)" "egress_ok (en_egress en) (pr_host p)"
    "released (en_secrets en) (pr_host p) (pr_used p)"
proof -
  have plain: "\<not> references_secret (st_url s)" using assms by (rule contrapos_pn) (simp add: prepare_def)
  note p = assms [unfolded prepare_def if_not_P [OF plain] bind_res_Inr_iff]
  obtain target sc0 n where t: "render (tn_texts tn) (vars_scope vars) 0 (st_url s) = Inr (target, sc0, n)"
    using p by fast
  note p = assms [unfolded prepare_def if_not_P [OF plain] t bind_res_simps prod.case]
  obtain host where h: "en_url en target = Inr host" "egress_ok (en_egress en) host"
    using p by (cases "en_url en target") (simp_all split: if_split_asm)
  define sc where "sc = \<lparr>sc_vars = vars, sc_secrets = en_secrets en, sc_host = host, sc_used = []\<rparr>"
  obtain body sc1 n1 headers sc2 n2 where r: "render (tn_texts tn) sc n (st_body s) = Inr (body, sc1, n1)"
      "render_headers (tn_texts tn) sc1 n1 (st_headers s) = Inr (headers, sc2, n2)"
      "p = \<lparr>pr_host = host, pr_target = target, pr_headers = headers, pr_body = body, pr_used = sc_used sc2, pr_drawn = n2\<rparr>"
    using p unfolding h(1) sum.case Let_def sc_def [symmetric] bind_res_Inr_iff
    by (simp only: h(2) not_True_eq_False if_False) (simp only: bind_res_Inr_iff split_paired_Ex prod.case, fastforce)
  have "released (sc_secrets sc) (sc_host sc) (sc_used sc)" by (simp add: sc_def released_def)
  then have "released (en_secrets en) host (sc_used sc2)"
    using render_keeps [OF r(1)] render_headers_keeps [OF r(2)] by (simp add: sc_def)
  then show "en_url en (pr_target p) = Inr (pr_host p)" "egress_ok (en_egress en) (pr_host p)"
    "released (en_secrets en) (pr_host p) (pr_used p)" using h r(3) by simp_all
qed

lemma checks_only_vars: "snd (take_response en tn s n sr r js) = js\<lparr>js_vars := js_vars (snd (take_response en tn s n sr r js)),
    js_red := js_red (snd (take_response en tn s n sr r js))\<rparr>"
  by (simp add: take_response_def Let_def register_secrets_def split: prod.split option.split)

lemma request_log:
  assumes "request en tn s sr js = (res, js')"
  shows "js_log js' = js_log js \<or> (\<exists>sn. js_log js' = js_log js @ [sn] \<and> sent_ok en sn)"
proof (cases "prepare en tn s (js_vars js)")
  case (Inl e)
  then show ?thesis using assms by (auto simp: request_def)
next
  case (Inr p)
  obtain out hops where f: "follow tn (en_egress en) (st_follow s) 0 [] (pr_host p) = (out, hops)" by fastforce
  have ok: "sent_ok en \<lparr>sn_host = pr_host p, sn_target = pr_target p, sn_headers = pr_headers p, sn_body = pr_body p,
      sn_used = pr_used p, sn_hops = hops\<rparr>"
    using follow_hops [OF f] prepare_ok [OF Inr] by (simp add: sent_ok_def MaxRedirects_def)
  have "js_log (snd (take_response en tn s n sr r j)) = js_log j" for n r j
    using arg_cong [OF checks_only_vars, of js_log] by simp
  note kept = this
  show ?thesis
  proof (cases "en_request en (to_upper (st_method s)) (pr_target p)")
    case (Some e)
    then have "js' = register_used (pr_used p) js" using assms by (simp add: request_def Inr Let_def)
    then show ?thesis by (simp add: register_used_def)
  next
    case None
    then have "js_log js' = js_log js @ [\<lparr>sn_host = pr_host p, sn_target = pr_target p, sn_headers = pr_headers p,
        sn_body = pr_body p, sn_used = pr_used p, sn_hops = hops\<rparr>]"
      using arg_cong [OF assms, of "\<lambda>x. js_log (snd x)"]
      by (cases out) (simp_all add: request_def Inr f Let_def register_used_def kept split: option.split_asm)
    then show ?thesis using ok by blast
  qed
qed

lemma run_step_log:
  assumes "run_step en tn s js = (res, js')"
  shows "js_log js' = js_log js \<or> (\<exists>sn. js_log js' = js_log js @ [sn] \<and> sent_ok en sn)"
proof (cases "st_kind s = ''http''")
  case True
  then show ?thesis using assms request_log unfolding run_step_def Let_def by (simp split: if_split_asm)
next
  case False
  then have "js_log js' = js_log js"
    using arg_cong [OF assms, of "\<lambda>x. js_log (snd x)"]
    unfolding run_step_def Let_def by (simp split: if_split_asm prod.split_asm option.split_asm)
  then show ?thesis ..
qed

lemma run_main_induct:
  assumes "run_main en turns k ss js = (srs, failed, k', js')" "P js"
    and "\<And>tn s js res js'. run_step en tn s js = (res, js') \<Longrightarrow> P js \<Longrightarrow> P js'"
  shows "P js'"
  using assms(1,2)
proof (induction ss arbitrary: k js srs failed k' js')
  case (Cons s ss)
  obtain sr f j where st: "run_step en (turns k) s js = ((sr, f), j)" by (metis prod.exhaust)
  show ?case
  proof (cases "st_cleanup s")
    case True
    then show ?thesis using Cons by simp
  next
    case False
    show ?thesis
    proof (cases f)
      case None
      obtain srs2 r2 where m: "run_main en turns (k + 1) ss j = (srs2, r2)" by (metis prod.exhaust)
      then have "r2 = (failed, k', js')" using Cons.prems(1) False st None by simp
      then show ?thesis using Cons.IH [of "k + 1" j] m assms(3) [OF st Cons.prems(2)] by blast
    next
      case (Some x)
      then have "j = js'" using Cons.prems(1) False st by simp
      then show ?thesis using assms(3) [OF st] Cons.prems(2) by simp
    qed
  qed
qed simp


lemma run_cleanup_induct:
  assumes "run_cleanup en turns k ss js = (srs, js')" "P js"
    and step: "\<And>tn s js res js'. run_step en tn s js = (res, js') \<Longrightarrow> P js \<Longrightarrow> P js'"
  shows "P js'"
  using assms(1,2)
proof (induction ss arbitrary: k js srs js')
  case (Cons s ss)
  obtain sr f j where st: "run_step en (turns k) s js = ((sr, f), j)" by (metis prod.exhaust)
  obtain srs2 j2 where m: "run_cleanup en turns (k + 1) ss j = (srs2, j2)" by (metis prod.exhaust)
  show ?case
  proof (cases "st_cleanup s")
    case False
    then show ?thesis using Cons by simp
  next
    case True
    then have "js' = j2" using arg_cong [OF Cons.prems(1), of snd] by (simp add: st m [simplified] Let_def)
    moreover have "P j2" using Cons.IH [OF m step [OF st Cons.prems(2)]] .
    ultimately show ?thesis by simp
  qed
qed simp

lemma run_parts:
  assumes "run_journey en turns ms m = (res, js)"
  obtains main failed k js1 cleanup where "run_main en turns 0 (jy_steps m) no_state = (main, failed, k, js1)"
    "run_cleanup en turns k (jy_steps m) js1 = (cleanup, js)"
    "res = last_defence (js_red js) (judge_run (jy_budget m) ms (js_red js1) failed
       \<lparr>rr_verdict = ''up'', rr_ms = 0, rr_failed_step = [], rr_class = [], rr_detail = [], rr_steps = main @ cleanup,
        rr_used = sort (js_used js)\<rparr>)"
proof -
  obtain main failed k js1 where m: "run_main en turns 0 (jy_steps m) no_state = (main, failed, k, js1)" by (metis prod.exhaust)
  obtain cleanup js2 where c: "run_cleanup en turns k (jy_steps m) js1 = (cleanup, js2)" by (metis prod.exhaust)
  have "js2 = js" using arg_cong [OF assms, of snd] by (simp add: run_journey_def m c Let_def)
  moreover note arg_cong [OF assms, of fst]
  ultimately show thesis using that [OF m, of cleanup] c by (simp add: run_journey_def m Let_def)
qed

lemma run_invariant:
  assumes "run_journey en turns ms m = (res, js)" "P no_state"
    and "\<And>tn s js res js'. run_step en tn s js = (res, js') \<Longrightarrow> P js \<Longrightarrow> P js'"
  shows "P js"
proof -
  obtain main failed k js1 cleanup where r: "run_main en turns 0 (jy_steps m) no_state = (main, failed, k, js1)"
    "run_cleanup en turns k (jy_steps m) js1 = (cleanup, js)"
    using run_parts [OF assms(1)] .
  show ?thesis using run_cleanup_induct [where P = P, OF r(2) run_main_induct [where P = P, OF r(1) assms(2,3)] assms(3)] .
qed

lemma every_sent_ok: "run_journey en turns ms m = (res, js) \<Longrightarrow> list_all (sent_ok en) (js_log js)"
  by (rule run_invariant [where P = "\<lambda>js. list_all (sent_ok en) (js_log js)"])
    (use run_step_log [of en] in \<open>fastforce simp: no_state_def\<close>)+

section \<open>Nothing leaks into the record\<close>

lemma add_form_grows: "set r \<subseteq> set (red_add_form r f t)" "f \<noteq> [] \<Longrightarrow> f \<in> fst ` set (red_add_form r f t)"
  by (auto simp: red_add_form_def)

lemma red_add_grows: "set r \<subseteq> set (red_add r name v)"
  unfolding red_add_def Let_def by (simp add: subset_trans [OF _ add_form_grows(1)] add_form_grows(1))

lemma red_add_has: "4 \<le> length v \<Longrightarrow> v \<in> fst ` set (red_add r name v)"
proof -
  assume "4 \<le> length v"
  then have "v \<in> fst ` set (red_add_form r v t)" for t by (intro add_form_grows(2)) auto
  then show ?thesis using \<open>4 \<le> length v\<close> add_form_grows(1) unfolding red_add_def Let_def
    by (smt (verit) image_mono in_mono not_le)
qed

definition registered :: "jstate \<Rightarrow> bool" where
  "registered js \<longleftrightarrow>
     list_all (\<lambda>sn. list_all (\<lambda>(n, v). v \<in> fst ` set (js_red js)) (filter (\<lambda>(n, v). 4 \<le> length v) (sn_used sn))) (js_log js)"

lemma fold_grows: "(\<And>r x. set r \<subseteq> set (f r x)) \<Longrightarrow> set r \<subseteq> set (foldl f r xs)"
  by (induction xs arbitrary: r) (simp, metis foldl_Cons subset_trans)

lemma keys_mono: "set r \<subseteq> set r' \<Longrightarrow> v \<in> fst ` set r \<Longrightarrow> v \<in> fst ` set r'"
  by blast

lemma registers_used:
  assumes "(n, v) \<in> set used" "4 \<le> length v"
  shows "v \<in> fst ` set (foldl (\<lambda>r (name, v). red_add r name v) r used)"
  using assms(1)
proof (induction used arbitrary: r)
  case (Cons p used)
  have grows: "set r' \<subseteq> set (foldl (\<lambda>r (name, v). red_add r name v) r' used)" for r'
    by (rule fold_grows) (auto simp: red_add_grows [THEN subsetD])
  show ?case
  proof (cases "p = (n, v)")
    case True
    then show ?thesis using red_add_has [OF assms(2), of r n] image_mono [OF grows [of "red_add r n v"], of fst] by auto
  next
    case False
    then show ?thesis using Cons by simp
  qed
qed simp

lemma take_response_grows: "set (js_red js) \<subseteq> set (js_red (snd (take_response en tn s n sr r js)))"
proof -
  have "set (js_red j) \<subseteq> set (js_red (register_secrets exs j))" for exs j
    unfolding register_secrets_def by (simp, rule fold_grows) (simp add: red_add_grows)
  note this [of "js\<lparr>js_vars := x\<rparr>" for x, simplified]
  then show ?thesis by (simp add: take_response_def Let_def split: prod.split option.split)
qed

lemma run_step_registers:
  assumes "run_step en tn s js = (res, js')"
  shows "set (js_red js) \<subseteq> set (js_red js') \<and>
    (js_log js' = js_log js \<or> (\<exists>sn. js_log js' = js_log js @ [sn] \<and>
       (\<forall>(n, v)\<in>set (sn_used sn). 4 \<le> length v \<longrightarrow> v \<in> fst ` set (js_red js'))))"
proof (cases "st_kind s = ''http''")
  case False
  then have "js_log js' = js_log js \<and> js_red js' = js_red js"
    using arg_cong [OF assms, of "\<lambda>x. (js_log (snd x), js_red (snd x))"]
    unfolding run_step_def Let_def by (simp split: if_split_asm prod.split_asm option.split_asm)
  then show ?thesis by simp
next
  case True
  obtain sr where rq: "request en tn s sr js = (res, js')"
    using assms True unfolding run_step_def Let_def by (simp split: if_split_asm)
  show ?thesis
  proof (cases "prepare en tn s (js_vars js)")
    case (Inl e)
    then show ?thesis using rq by (simp add: request_def)
  next
    case (Inr p)
    define js1 where "js1 = register_used (pr_used p) js"
    have red1: "set (js_red js) \<subseteq> set (js_red js1)"
      unfolding js1_def register_used_def by (simp, rule fold_grows) (auto simp: red_add_grows [THEN subsetD])
    have used1: "v \<in> fst ` set (js_red js1)" if "(n, v) \<in> set (pr_used p)" "4 \<le> length v" for n v
      using registers_used [OF that] by (simp add: js1_def register_used_def)
    obtain out hops where f: "follow tn (en_egress en) (st_follow s) 0 [] (pr_host p) = (out, hops)" by fastforce
    define sn where "sn = \<lparr>sn_host = pr_host p, sn_target = pr_target p, sn_headers = pr_headers p, sn_body = pr_body p,
      sn_used = pr_used p, sn_hops = hops\<rparr>"
    have log: "js_log (snd (take_response en tn s n sr r j)) = js_log j" for n sr r j
      using arg_cong [OF checks_only_vars, of js_log] by simp
    have log1: "js_log js1 = js_log js" by (simp add: js1_def register_used_def)
    show ?thesis
    proof (cases "en_request en (to_upper (st_method s)) (pr_target p)")
      case (Some e)
      then have "js' = js1" using rq by (simp add: request_def Inr js1_def Let_def)
      then show ?thesis using red1 log1 by simp
    next
      case None
      have "js_log js' = js_log js @ [sn] \<and> set (js_red js1) \<subseteq> set (js_red js')"
        using arg_cong [OF rq, of snd] None take_response_grows [of "js1\<lparr>js_log := js_log js1 @ [sn]\<rparr>" en tn s]
        by (cases out) (auto simp: request_def Inr f Let_def js1_def [symmetric] sn_def [symmetric] log log1 split: option.split_asm)
      moreover from this have "\<forall>(n, v)\<in>set (sn_used sn). 4 \<le> length v \<longrightarrow> v \<in> fst ` set (js_red js')"
        using used1 keys_mono [of "js_red js1" "js_red js'"] by (auto simp: sn_def)
      ultimately show ?thesis using red1 by blast
    qed
  qed
qed

lemma every_sent_registered: "run_journey en turns ms m = (res, js) \<Longrightarrow> registered js"
proof (rule run_invariant [where P = registered])
  fix tn s js res js'
  assume st: "run_step en tn s js = (res, js')" and reg: "registered js"
  note grows = run_step_registers [OF st]
  have old: "v \<in> fst ` set (js_red js')" if "sn \<in> set (js_log js)" "(n, v) \<in> set (sn_used sn)" "4 \<le> length v" for sn n v
    using reg that keys_mono [OF conjunct1 [OF grows]] unfolding registered_def list_all_iff by fastforce
  from grows consider "js_log js' = js_log js"
    | sn where "js_log js' = js_log js @ [sn]" "\<forall>(n, v)\<in>set (sn_used sn). 4 \<le> length v \<longrightarrow> v \<in> fst ` set (js_red js')"
    by blast
  then show "registered js'"
  proof cases
    case 1
    then show ?thesis using old unfolding registered_def list_all_iff by auto
  next
    case 2
    then show ?thesis using old unfolding registered_def list_all_iff by auto
  qed
qed (simp_all add: registered_def no_state_def)

text \<open>No text of a result holds a credential its requests carried, except that the sentence of the leak check may.\<close>

definition silent :: "jstate \<Rightarrow> string \<Rightarrow> bool" where
  "silent js msg \<longleftrightarrow>
     list_all (\<lambda>sn. list_all (\<lambda>(n, v). \<not> str_contains msg v) (filter (\<lambda>(n, v). 4 \<le> length v) (sn_used sn))) (js_log js)"

lemma empty_contains: "str_contains [] v \<Longrightarrow> v = []"
  by (simp add: str_contains_iff)

lemma silent_unleaked:
  assumes "registered js" "\<not> leaks (js_red js) msg"
  shows "silent js msg"
proof -
  have "\<not> str_contains msg v" if "sn \<in> set (js_log js)" "(n, v) \<in> set (sn_used sn)" "4 \<le> length v" for sn n v
  proof
    assume c: "str_contains msg v"
    then have "msg \<noteq> []" using empty_contains [of v] that(3) by auto
    moreover have "v \<in> fst ` set (js_red js)" using assms(1) that unfolding registered_def list_all_iff by fastforce
    ultimately have "leaks (js_red js) msg" using c by (force simp: leaks_def list_ex_iff)
    then show False using assms(2) by simp
  qed
  then show ?thesis unfolding silent_def list_all_iff by auto
qed

lemma silent_empty: "silent js []"
  unfolding silent_def list_all_iff using empty_contains by fastforce


section \<open>Credentials of the vault\<close>

definition vault_resolver :: "(secret_error \<Rightarrow> string) \<Rightarrow> sealer \<Rightarrow> vault \<Rightarrow> resolver" where
  "vault_resolver say sl v name host = (case vault_use sl v name host of Inl e \<Rightarrow> Inl (say e) | Inr val \<Rightarrow> Inr val)"

definition bound_to :: "vault \<Rightarrow> string \<Rightarrow> string \<Rightarrow> bool" where
  "bound_to v host name \<longleftrightarrow>
     (case vault_bindings v name of None \<Rightarrow> False | Some hosts \<Rightarrow> covered (set hosts) (clean_host host))"

text \<open>
  What a run relies on of the store that resolves its credentials: one is released for a host
  only when it is bound to it.
\<close>

locale credential_store =
  fixes release :: resolver
    and bound :: "string \<Rightarrow> string \<Rightarrow> bool"
  assumes release_bound: "release name host = Inr val \<Longrightarrow> bound host name"
begin

lemma sent_bound:
  assumes "sent_ok en sn" "en_secrets en = Some release"
  shows "list_all (\<lambda>(name, val). bound (sn_host sn) name \<and> release name (sn_host sn) = Inr val) (sn_used sn)"
  using assms release_bound by (fastforce simp: sent_ok_def released_def list_all_iff)

end

lemma resolver_Inr: "vault_resolver say sl v name host = Inr val \<longleftrightarrow> vault_use sl v name host = Inr val"
  by (simp add: vault_resolver_def split: sum.split)

interpretation vault_store: credential_store "vault_resolver say sl v" "bound_to v" for say sl v
proof
  fix name host val
  assume "vault_resolver say sl v name host = Inr val"
  then show "bound_to v host name"
    using use_covered [of sl v name host val] by (auto simp: resolver_Inr bound_to_def vault_bindings_def)
qed


section \<open>Whose failure it was\<close>

lemma unsent_request_is_policy:
  assumes "request en tn s sr js = ((sr', Some f), js')" "js_log js' = js_log js"
  shows "f_class f = ClassPolicy"
proof (cases "prepare en tn s (js_vars js)")
  case (Inl e)
  then show ?thesis using assms(1) by (auto simp: request_def fail_step_def policy_def)
next
  case (Inr p)
  obtain out hops where fo: "follow tn (en_egress en) (st_follow s) 0 [] (pr_host p) = (out, hops)" by fastforce
  have log: "js_log (snd (take_response en tn s n sr r j)) = js_log j" for n sr r j
    using arg_cong [OF checks_only_vars, of js_log] by simp
  show ?thesis
  proof (cases "en_request en (to_upper (st_method s)) (pr_target p)")
    case (Some e)
    then show ?thesis using assms(1) by (auto simp: request_def Inr fail_step_def policy_def Let_def)
  next
    case None
    have "js_log js' \<noteq> js_log js"
      using arg_cong [OF assms(1), of "\<lambda>x. js_log (snd x)"] None
      by (cases out) (auto simp: request_def Inr fo Let_def register_used_def log split: option.split_asm)
    then show ?thesis using assms(2) by simp
  qed
qed

lemma run_step_extends: "run_step en tn s js = (res, js') \<Longrightarrow> \<exists>more. js_log js' = js_log js @ more"
  using run_step_log by fastforce

lemma unsent_run_is_policy:
  assumes "run_main en turns k ss js = (srs, Some (s, f), k', js')" "list_all (\<lambda>s. st_kind s = ''http'') ss" "js_log js' = js_log js"
  shows "f_class f = ClassPolicy"
  using assms
proof (induction ss arbitrary: k js srs)
  case (Cons s1 ss)
  obtain sr g j where st: "run_step en (turns k) s1 js = ((sr, g), j)" by (metis prod.exhaust)
  show ?case
  proof (cases "st_cleanup s1")
    case True
    then show ?thesis using Cons by simp
  next
    case False
    show ?thesis
    proof (cases g)
      case None
      obtain srs2 r2 where m: "run_main en turns (k + 1) ss j = (srs2, r2)" by (metis prod.exhaust)
      then have m2: "run_main en turns (k + 1) ss j = (srs2, Some (s, f), k', js')" using Cons.prems(1) False st None by simp
      obtain a where a: "js_log j = js_log js @ a" using run_step_extends [OF st] by blast
      have "\<exists>b. js_log js' = js_log j @ b"
        by (rule run_main_induct [OF m2, where P = "\<lambda>js. \<exists>b. js_log js = js_log j @ b"]) (simp, use run_step_extends in fastforce)
      then have "js_log js' = js_log j" using a Cons.prems(3) by auto
      then show ?thesis using Cons.IH [OF m2] Cons.prems(2) by simp
    next
      case (Some x)
      then have x: "x = f" "j = js'" using Cons.prems(1) False st by simp_all
      have "\<exists>sr0. request en (turns k) s1 sr0 js = ((sr, Some f), js')"
        using st Cons.prems(2) unfolding Some x by (auto simp: run_step_def Let_def)
      then show ?thesis using unsent_request_is_policy Cons.prems(3) by blast
    qed
  qed
qed simp


section \<open>Cleanup\<close>

lemma run_step_name: "run_step en tn s js = ((sr, f), js') \<Longrightarrow> sr_name sr = st_name s"
proof -
  have rq: "sr_name (fst (fst (request en tn s sr js))) = sr_name sr" for sr
    by (auto simp: request_def take_response_def fail_step_def Let_def split: sum.split option.split prod.split)
  assume "run_step en tn s js = ((sr, f), js')"
  from arg_cong [OF this, of "\<lambda>x. sr_name (fst (fst x))"] show ?thesis
    unfolding run_step_def Let_def by (simp add: rq split: if_split_asm prod.split_asm option.split_asm)
qed

lemma run_main_names:
  assumes "run_main en turns k ss js = (srs, failed, k', js')"
  shows "case failed of
      None \<Rightarrow> map sr_name srs = map st_name (filter (\<lambda>s. \<not> st_cleanup s) ss)
    | Some (s, f) \<Rightarrow> \<exists>a b. filter (\<lambda>s. \<not> st_cleanup s) ss = a @ s # b \<and> map sr_name srs = map st_name (a @ [s])"
  using assms
proof (induction ss arbitrary: k js srs)
  case (Cons s1 ss)
  obtain sr g j where st: "run_step en (turns k) s1 js = ((sr, g), j)" by (metis prod.exhaust)
  note name = run_step_name [OF st]
  show ?case
  proof (cases "st_cleanup s1")
    case True
    then have same: "filter (\<lambda>s. \<not> st_cleanup s) (s1 # ss) = filter (\<lambda>s. \<not> st_cleanup s) ss"
      and "run_main en turns k ss js = (srs, failed, k', js')" using Cons.prems by simp_all
    then show ?thesis unfolding same by (intro Cons.IH)
  next
    case False
    show ?thesis
    proof (cases g)
      case None
      obtain srs2 r2 where m: "run_main en turns (k + 1) ss j = (srs2, r2)" by (metis prod.exhaust)
      then have m2: "run_main en turns (k + 1) ss j = (srs2, failed, k', js')" and srs: "srs = sr # srs2"
        using Cons.prems(1) False st None by simp_all
      show ?thesis
      proof (cases failed)
        case None
        then show ?thesis using Cons.IH [OF m2] False srs name by simp
      next
        case (Some sf)
        obtain s f where sf: "sf = (s, f)" by fastforce
        from Cons.IH [OF m2] obtain a b where "filter (\<lambda>s. \<not> st_cleanup s) ss = a @ s # b" "map sr_name srs2 = map st_name (a @ [s])"
          by (auto simp: Some sf)
        then have "filter (\<lambda>s. \<not> st_cleanup s) (s1 # ss) = (s1 # a) @ s # b \<and> map sr_name srs = map st_name ((s1 # a) @ [s])"
          using False srs name by simp
        then show ?thesis unfolding Some sf option.case prod.case by blast
      qed
    next
      case (Some x)
      then have "failed = Some (s1, x)" "srs = [sr]" using Cons.prems(1) False st by simp_all
      then show ?thesis using False name by (auto intro: exI [of _ "[]"])
    qed
  qed
qed simp

lemma run_cleanup_names:
  assumes "run_cleanup en turns k ss js = (srs, js')"
  shows "map sr_name srs = map st_name (filter st_cleanup ss)"
  using assms
proof (induction ss arbitrary: k js srs)
  case (Cons s ss)
  obtain sr f j where st: "run_step en (turns k) s js = ((sr, f), j)" by (metis prod.exhaust)
  obtain srs2 j2 where m: "run_cleanup en turns (k + 1) ss j = (srs2, j2)" by (metis prod.exhaust)
  show ?case
  proof (cases "st_cleanup s")
    case False
    then show ?thesis using Cons by simp
  next
    case True
    then have "map sr_name srs = st_name s # map sr_name srs2"
      using arg_cong [OF Cons.prems(1), of fst] run_step_name [OF st] by (auto simp: st m [simplified] Let_def split: option.split)
    moreover have "j2 = js'" using arg_cong [OF Cons.prems(1), of snd] True by (simp add: st m [simplified] Let_def)
    ultimately show ?thesis using Cons.IH [OF m [unfolded \<open>j2 = js'\<close>]] True by simp
  qed
qed simp

text \<open>
  Claim C27. Housekeeping is never skipped: after the steps up to the first failure every
  cleanup step of the journey runs, once and in order; and the steps left out, if any, are
  left out of a run that is reported down or in error.
\<close>

theorem cleanup_always_runs:
  "\<exists>a b. filter (\<lambda>s. \<not> st_cleanup s) (jy_steps m) = a @ b \<and>
     map sr_name (rr_steps (fst (run_journey en turns ms m))) = map st_name (a @ filter st_cleanup (jy_steps m)) \<and>
     (b = [] \<or> rr_verdict (fst (run_journey en turns ms m)) \<in> {''down'', ''error''})"
proof -
  obtain res js where r: "run_journey en turns ms m = (res, js)" by fastforce
  obtain main failed k js1 cleanup where p: "run_main en turns 0 (jy_steps m) no_state = (main, failed, k, js1)"
    "run_cleanup en turns k (jy_steps m) js1 = (cleanup, js)"
    "res = last_defence (js_red js) (judge_run (jy_budget m) ms (js_red js1) failed
       \<lparr>rr_verdict = ''up'', rr_ms = 0, rr_failed_step = [], rr_class = [], rr_detail = [], rr_steps = main @ cleanup,
        rr_used = sort (js_used js)\<rparr>)"
    using run_parts [OF r] .
  have kept: "map sr_name (rr_steps (last_defence red (judge_run budget ms red' failed res0))) = map sr_name (rr_steps res0)" for red budget red' res0
    by (auto simp: last_defence_def judge_run_def Let_def split: option.split)
  have names: "map sr_name (rr_steps res) = map sr_name main @ map st_name (filter st_cleanup (jy_steps m))"
    unfolding p(3) kept by (simp add: run_cleanup_names [OF p(2)])
  show ?thesis
  proof (cases failed)
    case None
    then have "map sr_name main = map st_name (filter (\<lambda>s. \<not> st_cleanup s) (jy_steps m))" using run_main_names [OF p(1)] by simp
    then show ?thesis using names r by (intro exI [of _ "filter (\<lambda>s. \<not> st_cleanup s) (jy_steps m)"] exI [of _ "[]"]) simp
  next
    case (Some sf)
    obtain s f where sf: "sf = (s, f)" by fastforce
    obtain a b where ab: "filter (\<lambda>s. \<not> st_cleanup s) (jy_steps m) = a @ s # b" "map sr_name main = map st_name (a @ [s])"
      using run_main_names [OF p(1)] by (auto simp: Some sf)
    have "rr_verdict res \<in> {''down'', ''error''}"
      unfolding p(3) Some sf by (simp add: last_defence_def judge_run_def Let_def verdict_for_def)
    then show ?thesis using names r ab by (intro exI [of _ "a @ [s]"] exI [of _ b]) simp
  qed
qed

section \<open>Examples\<close>

definition plain_lib :: lib where
  "plain_lib = \<lparr>l_json = (\<lambda>_. None), l_number = (\<lambda>n. n), l_marshal = (\<lambda>_. []), l_float = (\<lambda>_. None),
     l_match = (\<lambda>_ _. Inr False), l_quote = (\<lambda>s. s)\<rparr>"

definition plain_turn :: "(nat \<Rightarrow> hop) \<Rightarrow> turn" where
  "plain_turn net = \<lparr>tn_texts = \<lparr>tx_quote = (\<lambda>s. s), tx_gen = (\<lambda>_ _. Inl [])\<rparr>, tn_ms = 5, tn_fail_ms = 5, tn_waited = True,
     tn_net = net, tn_wrap = (\<lambda>s. s)\<rparr>"

definition answer :: "int \<Rightarrow> string \<Rightarrow> string option \<Rightarrow> hop" where
  "answer st body loc = Answers \<lparr>ry_status = st, ry_headers = [], ry_body = body, ry_read_error = None, ry_location = loc\<rparr>"

definition plain_engine :: engine where
  "plain_engine = \<lparr>en_lib = plain_lib, en_secrets = None, en_egress = Some (al_add new_allowlist ''api''), en_url = (\<lambda>u. Inr ''api''),
     en_request = (\<lambda>_ _. None)\<rparr>"

definition get_step :: "string \<Rightarrow> step" where
  "get_step url = \<lparr>st_name = ''get'', st_kind = ''http'', st_cleanup = False, st_method = ''get'', st_url = url, st_headers = [],
     st_body = [], st_expect = [], st_follow = True, st_assertions = [], st_extractions = [], st_sleep = 0\<rparr>"

definition single :: "step \<Rightarrow> journey" where
  "single s = \<lparr>jy_budget = 0, jy_steps = [s]\<rparr>"


text \<open>
  A session token a step marks as secret is written down when an assertion of the same step
  fails, since it reaches the redactor only after all checks have passed.
\<close>

definition login_step :: step where
  "login_step = (get_step ''http://api/'')\<lparr>
     st_extractions := [\<lparr>ex_var = ''token'', ex_source = ''body'', ex_target = [], ex_secret = True\<rparr>],
     st_assertions := [\<lparr>as_source = ''body'', as_target = [], as_op = ''eq'', as_value = ''ok'', as_message = ''not ok''\<rparr>]\<rparr>"

lemma failed_login_records_its_token:
  "map sr_capture (rr_steps (fst (run_journey plain_engine (\<lambda>_. plain_turn (\<lambda>_. answer 200 ''session-8899'' None)) 5 (single login_step)))) = [''session-8899'']"
  by code_simp

text \<open>An extraction marked as secret in a step without a request never reaches the redactor.\<close>

lemma extract_steps_do_not_redact:
  assumes "st_kind s = ''extract''"
  shows "js_red (snd (run_step en tn s js)) = js_red js"
  using assms by (simp add: run_step_def Let_def split: prod.split option.split)

text \<open>A redirect to a host that is not declared is refused by the monitor and charged to the service.\<close>

lemma refused_redirect_is_downtime:
  "rr_verdict (fst (run_journey plain_engine (\<lambda>_. plain_turn (\<lambda>_. answer 302 [] (Some ''elsewhere''))) 5 (single (get_step ''http://api/'')))) = ''down'' \<and>
   rr_class (fst (run_journey plain_engine (\<lambda>_. plain_turn (\<lambda>_. answer 302 [] (Some ''elsewhere''))) 5 (single (get_step ''http://api/'')))) = ClassConnect"
  by code_simp

text \<open>Four redirects are followed where the limit is named five.\<close>

lemma four_redirects_are_followed:
  "map (\<lambda>sn. length (sn_hops sn)) (js_log (snd (run_journey plain_engine (\<lambda>_. plain_turn (\<lambda>_. answer 302 [] (Some ''api''))) 5 (single (get_step ''http://api/''))))) = [5]"
  by code_simp

text \<open>An assert step with no request before it has nothing to read, and the run is charged to the service.\<close>

lemma assertion_without_a_request_is_downtime:
  "rr_verdict (fst (run_journey plain_engine (\<lambda>_. plain_turn (\<lambda>_. answer 200 [] None)) 5
     (single ((get_step [])\<lparr>st_kind := ''assert'', st_assertions := [\<lparr>as_source = ''status'', as_target = [], as_op = ''eq'', as_value = ''200'', as_message = []\<rparr>]\<rparr>)))) = ''down''"
  by code_simp

section \<open>Credentials that are not released do not matter\<close>

definition with_store :: "resolver \<Rightarrow> scope \<Rightarrow> scope" where
  "with_store u sc = sc\<lparr>sc_secrets := Some u\<rparr>"

lemma store_fields [simp]:
  "sc_vars (with_store u sc) = sc_vars sc" "sc_host (with_store u sc) = sc_host sc" "sc_used (with_store u sc) = sc_used sc"
  "sc_secrets (with_store u sc) = Some u" "with_store u (sc\<lparr>sc_used := x\<rparr>) = (with_store u sc)\<lparr>sc_used := x\<rparr>"
  by (simp_all add: with_store_def)

lemma resolve_same:
  assumes "\<And>name. u' name (sc_host sc) = u name (sc_host sc)"
  shows "resolve_ref tx (with_store u' sc) n ref =
    (case resolve_ref tx (with_store u sc) n ref of Inl e \<Rightarrow> Inl e | Inr (v, sc', n') \<Rightarrow> Inr (v, with_store u' sc', n'))"
  using assms by (simp add: resolve_ref_def with_store_def split: option.split prod.split sum.split)

lemma resolve_store:
  assumes "resolve_ref tx (with_store u sc) n ref = Inr (v, sc', n')"
  shows "sc' = with_store u sc' \<and> sc_host sc' = sc_host sc"
  using resolve_keeps [OF assms] by (cases sc') (simp add: with_store_def)

lemma render_loop_same:
  assumes "\<And>name. u' name (sc_host sc) = u name (sc_host sc)"
  shows "render_loop tx whole (with_store u' sc) n s =
    (case render_loop tx whole (with_store u sc) n s of Inl e \<Rightarrow> Inl e | Inr (t, sc', n') \<Rightarrow> Inr (t, with_store u' sc', n'))"
  using assms
proof (induction "length s" arbitrary: s sc n rule: less_induct)
  case less
  note same = resolve_same [of u' sc u, OF less(2)]
  show ?case
  proof (cases "next_piece s")
    case (Placeholder before ref rest)
    note u = render_loop.simps [of tx whole "with_store u sc" n s, unfolded Placeholder piece.case]
    note u' = render_loop.simps [of tx whole "with_store u' sc" n s, unfolded Placeholder piece.case same]
    show ?thesis
    proof (cases "resolve_ref tx (with_store u sc) n ref")
      case (Inl e)
      then show ?thesis unfolding u u' by simp
    next
      case (Inr vsn)
      obtain v sc1 n1 where vsn: "vsn = (v, sc1, n1)" by (metis prod.exhaust)
      have sc1: "with_store u sc1 = sc1" "sc_host sc1 = sc_host sc" using resolve_store [OF Inr [unfolded vsn]] by simp_all
      have "render_loop tx whole (with_store u' sc1) n1 rest =
          (case render_loop tx whole (with_store u sc1) n1 rest of Inl e \<Rightarrow> Inl e | Inr (t, sc', n') \<Rightarrow> Inr (t, with_store u' sc', n'))"
        by (rule less(1) [OF next_piece_shorter [OF Placeholder]]) (simp add: sc1 less(2))
      then show ?thesis unfolding u u' Inr vsn sc1 sum.case prod.case
        by (cases "render_loop tx whole sc1 n1 rest") (auto simp: sc1)
    qed
  qed (simp_all add: render_loop.simps [of tx whole _ n s])
qed

lemma render_same:
  assumes "\<And>name. u' name (sc_host sc) = u name (sc_host sc)"
  shows "render tx (with_store u' sc) n s =
    (case render tx (with_store u sc) n s of Inl e \<Rightarrow> Inl e | Inr (t, sc', n') \<Rightarrow> Inr (t, with_store u' sc', n'))"
  using render_loop_same [of u' sc u, OF assms] by (simp add: render_def with_store_def)

lemma render_store:
  assumes "render tx (with_store u sc) n s = Inr (t, sc', n')"
  shows "with_store u sc' = sc' \<and> sc_host sc' = sc_host sc"
  using render_keeps [OF assms] by (cases sc') (simp add: with_store_def)

lemma render_headers_same:
  assumes "\<And>name. u' name (sc_host sc) = u name (sc_host sc)"
  shows "render_headers tx (with_store u' sc) n hs =
    (case render_headers tx (with_store u sc) n hs of Inl e \<Rightarrow> Inl e | Inr (t, sc', n') \<Rightarrow> Inr (t, with_store u' sc', n'))"
  using assms
proof (induction hs arbitrary: sc n)
  case (Cons h hs)
  obtain k v where h: "h = (k, v)" by fastforce
  show ?case
  proof (cases "render tx (with_store u sc) n v")
    case (Inl e)
    then show ?thesis by (simp add: h render_same [of u' sc u, OF Cons.prems])
  next
    case (Inr r)
    obtain rv sc1 n1 where r: "r = (rv, sc1, n1)" by (metis prod.exhaust)
    have sc1: "with_store u sc1 = sc1" "sc_host sc1 = sc_host sc" using render_store [OF Inr [unfolded r]] by simp_all
    have "render_headers tx (with_store u' sc1) n1 hs =
        (case render_headers tx (with_store u sc1) n1 hs of Inl e \<Rightarrow> Inl e | Inr (t, sc', n') \<Rightarrow> Inr (t, with_store u' sc', n'))"
      by (rule Cons.IH) (simp add: sc1 Cons.prems)
    then show ?thesis
      using Inr by (cases "render_headers tx sc1 n1 hs") (auto simp: h r sc1 render_same [of u' sc u, OF Cons.prems])
  qed
qed simp

text \<open>
  Claim C8. A request depends on the credential store only through what the store releases
  for the host of its URL: with any other store that releases the same for that host, the
  step prepares the very same URL, headers and body.
\<close>

theorem other_credentials_do_not_matter:
  assumes "prepare (en\<lparr>en_secrets := Some u\<rparr>) tn s vars = Inr p" "\<And>name. u' name (pr_host p) = u name (pr_host p)"
  shows "prepare (en\<lparr>en_secrets := Some u'\<rparr>) tn s vars = Inr p"
proof -
  let ?en = "en\<lparr>en_secrets := Some u\<rparr>" and ?en' = "en\<lparr>en_secrets := Some u'\<rparr>"
  have plain: "\<not> references_secret (st_url s)" using assms(1) by (rule contrapos_pn) (simp add: prepare_def)
  note p = assms(1) [unfolded prepare_def if_not_P [OF plain] bind_res_Inr_iff]
  obtain target sc0 n where t: "render (tn_texts tn) (vars_scope vars) 0 (st_url s) = Inr (target, sc0, n)"
    using p by fast
  note p = assms(1) [unfolded prepare_def if_not_P [OF plain] t bind_res_simps prod.case]
  obtain host where h: "en_url en target = Inr host" "egress_ok (en_egress en) host"
    using p by (cases "en_url en target") (simp_all split: if_split_asm)
  define sc where "sc = \<lparr>sc_vars = vars, sc_secrets = None, sc_host = host, sc_used = []\<rparr>"
  have store: "\<lparr>sc_vars = vars, sc_secrets = Some x, sc_host = host, sc_used = []\<rparr> = with_store x sc" for x
    by (simp add: sc_def with_store_def)
  have p: "bind_res (render (tn_texts tn) (with_store u sc) n (st_body s)) (\<lambda>(body, sc1, n1).
      bind_res (render_headers (tn_texts tn) sc1 n1 (st_headers s)) (\<lambda>(headers, sc2, n2).
        Inr \<lparr>pr_host = host, pr_target = target, pr_headers = headers, pr_body = body, pr_used = sc_used sc2, pr_drawn = n2\<rparr>)) = Inr p"
    using assms(1) plain t h by (simp add: prepare_def store)
  obtain body sc1 n1 where b: "render (tn_texts tn) (with_store u sc) n (st_body s) = Inr (body, sc1, n1)"
    using p by (cases "render (tn_texts tn) (with_store u sc) n (st_body s)") auto
  obtain headers sc2 n2 where hs: "render_headers (tn_texts tn) sc1 n1 (st_headers s) = Inr (headers, sc2, n2)"
    using p b by (cases "render_headers (tn_texts tn) sc1 n1 (st_headers s)") auto
  have pp: "p = \<lparr>pr_host = host, pr_target = target, pr_headers = headers, pr_body = body, pr_used = sc_used sc2, pr_drawn = n2\<rparr>"
    using p b hs by simp
  have same: "u' name host = u name host" for name using assms(2) [of name] by (simp add: pp)
  have sc1: "with_store u sc1 = sc1" "sc_host sc1 = host" using render_store [OF b] by (simp_all add: sc_def)
  have "render (tn_texts tn) (with_store u' sc) n (st_body s) = Inr (body, with_store u' sc1, n1)"
    using render_same [of u' sc u] b same by (simp add: sc_def)
  moreover have "render_headers (tn_texts tn) (with_store u' sc1) n1 (st_headers s) = Inr (headers, with_store u' sc2, n2)"
    using render_headers_same [of u' sc1 u] hs same sc1 by simp
  ultimately show ?thesis using plain t h by (simp add: prepare_def store pp)
qed

theorem other_credentials_do_not_matter_witness:
  "prepare (plain_engine\<lparr>en_secrets := Some (\<lambda>n h. if h = ''api'' then Inr ''s'' else Inr ''other'')\<rparr>) (plain_turn (\<lambda>_. answer 200 [] None))
     ((get_step ''u'')\<lparr>st_headers := [(''auth'', ''{{secrets.k}}'')]\<rparr>) [] =
   Inr \<lparr>pr_host = ''api'', pr_target = ''u'', pr_headers = [(''auth'', ''s'')], pr_body = [], pr_used = [(''k'', ''s'')], pr_drawn = 0\<rparr>"
proof -
  have "prepare (plain_engine\<lparr>en_secrets := Some (\<lambda>n h. Inr ''s'')\<rparr>) (plain_turn (\<lambda>_. answer 200 [] None))
     ((get_step ''u'')\<lparr>st_headers := [(''auth'', ''{{secrets.k}}'')]\<rparr>) [] =
   Inr \<lparr>pr_host = ''api'', pr_target = ''u'', pr_headers = [(''auth'', ''s'')], pr_body = [], pr_used = [(''k'', ''s'')], pr_drawn = 0\<rparr>"
    by code_simp
  from other_credentials_do_not_matter [OF this] show ?thesis by simp
qed

end
