(* ===== verification/Monitors.thy ===== *)
theory Monitors
  imports Journey Report
begin

text \<open>
  Monitor definitions (\<open>internal/model/domain.go\<close>, \<open>browser.go\<close>): the whole record of a
  monitor with the steps of an HTTP or a browser journey, the checks a definition passes
  before it is accepted, and the JSON that is stored of it. \<open>url.Parse\<close> is the parameter
  \<open>scheme_of\<close>, the scheme of a URL it accepts.
\<close>

section \<open>Data\<close>

record region =
  rg_x :: int
  rg_y :: int
  rg_w :: int
  rg_h :: int

record screenshot_check =
  sk_baseline :: string
  sk_distance :: int
  sk_ink :: int
  sk_masks :: "region list"
  sk_store :: string

record viewport =
  vp_width :: int
  vp_height :: int
  vp_ocr :: bool

record monitor_step = step +
  bs_selector :: string
  bs_value :: string
  bs_key :: string
  bs_expression :: string
  bs_visible :: bool
  bs_full :: bool
  bs_capture :: bool
  bs_screenshot :: "screenshot_check option"
  bs_timeout :: int

record monitor_def = monitor +
  md_viewport :: viewport
  md_steps :: "monitor_step list"

definition FloorInterval :: int where "FloorInterval = 10"
definition DefaultInterval :: int where "DefaultInterval = 60"
definition DefaultTimeout :: int where "DefaultTimeout = 30"
definition MaxSteps :: nat where "MaxSteps = 40"

abbreviation EngineBrowser :: string where "EngineBrowser \<equiv> ''browser''"

text \<open>The journey the HTTP engine runs.\<close>

definition journey_of :: "monitor_def \<Rightarrow> journey" where
  "journey_of m = \<lparr>jy_budget = mon_budget m, jy_steps = map step.truncate (md_steps m)\<rparr>"

section \<open>Faults\<close>

datatype step_fault =
    StepNeedsURL
  | URLDoesNotParse
  | SchemeNotAllowed string
  | StepNeedsMethod
  | StepNeedsAssertion
  | StepNeedsExtraction
  | SleepOutOfRange
  | UnknownStepKind string
  | UnknownAssertionSource string
  | UnknownOperator string
  | AssertionNeedsTarget string
  | ExtractionNeedsVariable
  | UnknownExtractionSource string
  | StepNeedsSelector
  | FillNeedsValue
  | PressNeedsKey
  | EvalNeedsExpression
  | NotABrowserStep string
  | SecretInURL
  | BaselineNotAHash nat
  | DistanceOutOfRange
  | InkOutOfRange
  | NotAStorageRule string

datatype monitor_fault =
    MonitorNeedsName
  | MonitorNeedsComponent
  | BelowFloorInterval
  | TimeoutOutOfRange
  | ThresholdBelowOne
  | JourneyNeedsStep
  | TooManySteps nat
  | StepNeedsName nat
  | TwoStepsNamed string
  | FaultyStep string step_fault
  | JourneyNeedsRequest
  | JourneyNeedsNavigation

fun first_fault :: "('a \<Rightarrow> 'e option) \<Rightarrow> 'a list \<Rightarrow> 'e option" where
  "first_fault f [] = None"
| "first_fault f (a # as) = (case f a of Some e \<Rightarrow> Some e | None \<Rightarrow> first_fault f as)"

lemma first_fault_None [simp]: "first_fault f as = None \<longleftrightarrow> list_all (\<lambda>a. f a = None) as"
  by (induction as) (auto split: option.split)

section \<open>Checks\<close>

definition assertion_sources :: "string list" where
  "assertion_sources = [''status'', ''latency_ms'', ''header'', ''body'', ''json'', ''var'', ''ocr'', ''console'']"

definition assertion_ops :: "string list" where
  "assertion_ops = [''eq'', ''ne'', ''lt'', ''lte'', ''gt'', ''gte'', ''contains'', ''matches'', ''exists'', ''absent'']"

definition validate_assertion :: "assertion \<Rightarrow> step_fault option" where
  "validate_assertion a =
     (if as_source a \<notin> set assertion_sources then Some (UnknownAssertionSource (as_source a))
      else if as_op a \<notin> set assertion_ops then Some (UnknownOperator (as_op a))
      else if as_source a \<in> {''header'', ''json'', ''var''} \<and> as_target a = []
        then Some (AssertionNeedsTarget (as_source a))
      else None)"

definition validate_extraction :: "extraction \<Rightarrow> step_fault option" where
  "validate_extraction e =
     (if ex_var e = [] then Some ExtractionNeedsVariable
      else if ex_source e \<notin> {''json'', ''header'', ''body'', ''status''} then Some (UnknownExtractionSource (ex_source e))
      else None)"

definition validate_kind :: "(string \<Rightarrow> string option) \<Rightarrow> 'a step_scheme \<Rightarrow> step_fault option" where
  "validate_kind scheme_of s =
     (if step.st_kind s = ''http'' then
        (if st_url s = [] then Some StepNeedsURL
         else case scheme_of (blank_templates (st_url s)) of
           None \<Rightarrow> Some URLDoesNotParse
         | Some sch \<Rightarrow>
             if sch \<noteq> ''https'' \<and> sch \<noteq> ''http'' then Some (SchemeNotAllowed sch)
             else if st_method s = [] then Some StepNeedsMethod else None)
      else if step.st_kind s = ''assert'' then (if st_assertions s = [] then Some StepNeedsAssertion else None)
      else if step.st_kind s = ''extract'' then (if st_extractions s = [] then Some StepNeedsExtraction else None)
      else if step.st_kind s = ''sleep'' then (if st_sleep s \<le> 0 \<or> st_sleep s > 60000 then Some SleepOutOfRange else None)
      else Some (UnknownStepKind (step.st_kind s)))"

definition validate_step :: "(string \<Rightarrow> string option) \<Rightarrow> 'a step_scheme \<Rightarrow> step_fault option" where
  "validate_step scheme_of s =
     (case validate_kind scheme_of s of Some e \<Rightarrow> Some e
      | None \<Rightarrow>
          (case first_fault validate_assertion (st_assertions s) of Some e \<Rightarrow> Some e
           | None \<Rightarrow> first_fault validate_extraction (st_extractions s)))"

text \<open>The loop over the steps: \<open>i\<close> steps before this one, the names \<open>seen\<close>, the requests counted.\<close>

fun validate_steps :: "(string \<Rightarrow> string option) \<Rightarrow> nat \<Rightarrow> string list \<Rightarrow> nat \<Rightarrow> monitor_step list \<Rightarrow> monitor_fault option" where
  "validate_steps scheme_of i seen requests [] = (if requests = 0 then Some JourneyNeedsRequest else None)"
| "validate_steps scheme_of i seen requests (s # ss) =
     (if trim_space (st_name s) = [] then Some (StepNeedsName (i + 1))
      else if st_name s \<in> set seen then Some (TwoStepsNamed (st_name s))
      else case validate_step scheme_of s of
        Some e \<Rightarrow> Some (FaultyStep (st_name s) e)
      | None \<Rightarrow> validate_steps scheme_of (i + 1) (st_name s # seen)
          (if step.st_kind s = ''http'' then requests + 1 else requests) ss)"

definition validate_screenshot :: "screenshot_check \<Rightarrow> step_fault option" where
  "validate_screenshot c =
     (if sk_baseline c \<noteq> [] \<and> length (sk_baseline c) \<noteq> 16 then Some (BaselineNotAHash (length (sk_baseline c)))
      else if sk_distance c < 0 \<or> sk_distance c > 64 then Some DistanceOutOfRange
      else if sk_ink c < 0 \<or> sk_ink c > 1000000 then Some InkOutOfRange
      else if sk_store c \<notin> {[], ''always'', ''on_fault'', ''never''} then Some (NotAStorageRule (sk_store c))
      else None)"

definition validate_browser_kind :: "monitor_step \<Rightarrow> step_fault option" where
  "validate_browser_kind s =
     (let k = step.st_kind s in
      if k = ''goto'' then (if st_url s = [] then Some StepNeedsURL else None)
      else if k = ''click'' \<or> k = ''wait'' then (if bs_selector s = [] then Some StepNeedsSelector else None)
      else if k = ''fill'' then
        (if bs_selector s = [] then Some StepNeedsSelector else if bs_value s = [] then Some FillNeedsValue else None)
      else if k = ''press'' then (if bs_key s = [] then Some PressNeedsKey else None)
      else if k = ''eval'' then (if bs_expression s = [] then Some EvalNeedsExpression else None)
      else if k = ''sleep'' then (if st_sleep s \<le> 0 \<or> st_sleep s > 30000 then Some SleepOutOfRange else None)
      else if k \<in> {''screenshot'', ''read'', ''assert''} then None
      else Some (NotABrowserStep k))"

definition validate_browser_step :: "monitor_step \<Rightarrow> step_fault option" where
  "validate_browser_step s =
     (case validate_browser_kind s of Some e \<Rightarrow> Some e
      | None \<Rightarrow>
          if step.st_kind s = ''goto'' \<and> str_contains (st_url s) ''{{ secrets.'' then Some SecretInURL
          else case (case bs_screenshot s of None \<Rightarrow> None | Some c \<Rightarrow> validate_screenshot c) of
            Some e \<Rightarrow> Some e
          | None \<Rightarrow> first_fault validate_assertion (st_assertions s))"

definition validate_browser :: "monitor_step list \<Rightarrow> monitor_fault option" where
  "validate_browser ss =
     (case first_fault (\<lambda>s. map_option (FaultyStep (st_name s)) (validate_browser_step s)) ss of
        Some e \<Rightarrow> Some e
      | None \<Rightarrow> if list_ex (\<lambda>s. step.st_kind s = ''goto'') ss then None else Some JourneyNeedsNavigation)"

definition validate_monitor :: "(string \<Rightarrow> string option) \<Rightarrow> monitor_def \<Rightarrow> monitor_fault option" where
  "validate_monitor scheme_of m =
     (if trim_space (mon_name m) = [] then Some MonitorNeedsName
      else if mon_component m = [] then Some MonitorNeedsComponent
      else if mon_interval m < FloorInterval then Some BelowFloorInterval
      else if mon_timeout m \<le> 0 \<or> mon_timeout m > mon_interval m then Some TimeoutOutOfRange
      else if mon_failure m < 1 \<or> mon_recovery m < 1 then Some ThresholdBelowOne
      else if length (md_steps m) = 0 then Some JourneyNeedsStep
      else if length (md_steps m) > MaxSteps then Some (TooManySteps (length (md_steps m)))
      else if mon_engine m = EngineBrowser then validate_browser (md_steps m)
      else validate_steps scheme_of 0 [] 0 (md_steps m))"

section \<open>JSON\<close>

text \<open>As \<open>encoding/json\<close> makes it of the structs; an empty list is the nil slice.\<close>

definition int_member :: "string \<Rightarrow> int \<Rightarrow> (string \<times> json) list" where
  "int_member k i = omit_empty k (json_nat i) (i = 0)"

definition str_member :: "string \<Rightarrow> string \<Rightarrow> (string \<times> json) list" where
  "str_member k s = omit_empty k (JStr s) (s = [])"

definition flag_member :: "string \<Rightarrow> bool \<Rightarrow> (string \<times> json) list" where
  "flag_member k b = omit_empty k (JBool b) (\<not> b)"

definition seq_member :: "string \<Rightarrow> json list \<Rightarrow> (string \<times> json) list" where
  "seq_member k js = omit_empty k (JArr js) (js = [])"

definition json_list :: "json list \<Rightarrow> json" where
  "json_list js = (if js = [] then JNull else JArr js)"

definition region_json :: "region \<Rightarrow> json" where
  "region_json r =
     JObj [(''x'', json_nat (rg_x r)), (''y'', json_nat (rg_y r)), (''w'', json_nat (rg_w r)), (''h'', json_nat (rg_h r))]"

definition screenshot_json :: "screenshot_check \<Rightarrow> json" where
  "screenshot_json c =
     JObj (str_member ''baseline'' (sk_baseline c) @ int_member ''max_distance'' (sk_distance c) @
       int_member ''min_ink_ppm'' (sk_ink c) @ seq_member ''masks'' (map region_json (sk_masks c)) @
       str_member ''store'' (sk_store c))"

definition viewport_json :: "viewport \<Rightarrow> json" where
  "viewport_json v =
     JObj (int_member ''width'' (vp_width v) @ int_member ''height'' (vp_height v) @ flag_member ''ocr'' (vp_ocr v))"

definition assertion_json :: "assertion \<Rightarrow> json" where
  "assertion_json a =
     JObj ([(''source'', JStr (as_source a))] @ str_member ''target'' (as_target a) @ [(''op'', JStr (as_op a))] @
       str_member ''value'' (as_value a) @ str_member ''message'' (as_message a))"

definition extraction_json :: "extraction \<Rightarrow> json" where
  "extraction_json e =
     JObj ([(''var'', JStr (ex_var e)), (''source'', JStr (ex_source e))] @ str_member ''target'' (ex_target e) @
       flag_member ''secret'' (ex_secret e))"

definition step_json :: "monitor_step \<Rightarrow> json" where
  "step_json s =
     JObj ([(''name'', JStr (st_name s)), (''kind'', JStr (step.st_kind s))] @ flag_member ''cleanup'' (st_cleanup s) @
       str_member ''method'' (st_method s) @ str_member ''url'' (st_url s) @
       omit_empty ''headers'' (JObj (map (\<lambda>(k, v). (k, JStr v)) (st_headers s))) (st_headers s = []) @
       str_member ''body'' (st_body s) @ seq_member ''expect_status'' (map json_nat (st_expect s)) @
       flag_member ''follow_redirects'' (st_follow s) @
       seq_member ''assertions'' (map assertion_json (st_assertions s)) @
       seq_member ''extractions'' (map extraction_json (st_extractions s)) @ int_member ''sleep_ms'' (st_sleep s) @
       str_member ''selector'' (bs_selector s) @ str_member ''value'' (bs_value s) @ str_member ''key'' (bs_key s) @
       str_member ''expression'' (bs_expression s) @ flag_member ''wait_visible'' (bs_visible s) @
       flag_member ''full_page'' (bs_full s) @ flag_member ''capture'' (bs_capture s) @
       (case bs_screenshot s of None \<Rightarrow> [] | Some c \<Rightarrow> [(''screenshot'', screenshot_json c)]) @
       int_member ''timeout_seconds'' (bs_timeout s))"

definition steps_json :: "monitor_step list \<Rightarrow> json" where
  "steps_json ss = json_list (map step_json ss)"

definition monitor_json :: "monitor_def \<Rightarrow> json" where
  "monitor_json m =
     JObj ([(''id'', JStr (mon_id m)), (''service_id'', JStr (mon_service m)), (''component_id'', JStr (mon_component m)),
        (''name'', JStr (mon_name m)), (''version'', json_nat (mon_version m)), (''enabled'', JBool (mon_enabled m)),
        (''interval_seconds'', json_nat (mon_interval m)), (''timeout_seconds'', json_nat (mon_timeout m)),
        (''failure_threshold'', json_nat (mon_failure m)), (''recovery_threshold'', json_nat (mon_recovery m)),
        (''latency_budget_ms'', json_nat (mon_budget m))] @ str_member ''engine'' (mon_engine m) @
       [(''viewport'', viewport_json (md_viewport m)), (''steps'', steps_json (md_steps m)),
        (''created_at'', json_nat (mon_created m)), (''updated_at'', json_nat (mon_updated m))])"

text \<open>\<open>jsonBytes\<close>.\<close>

definition json_bytes :: "outside \<Rightarrow> json \<Rightarrow> val option" where
  "json_bytes x j = map_option VBinary (write_json (x_fmt x) j)"

section \<open>What an accepted definition has\<close>

lemma validate_steps_None:
  "validate_steps scheme_of i seen requests ss = None \<longleftrightarrow>
     list_all (\<lambda>s. trim_space (st_name s) \<noteq> [] \<and> validate_step scheme_of s = None) ss \<and>
     distinct (map st_name ss) \<and> list_all (\<lambda>s. st_name s \<notin> set seen) ss \<and>
     (requests \<noteq> 0 \<or> list_ex (\<lambda>s. step.st_kind s = ''http'') ss)"
proof (induction ss arbitrary: i seen requests)
  case (Cons s ss)
  then show ?case by (cases "validate_step scheme_of s") (auto simp: list_all_iff list_ex_iff image_iff)
qed auto

lemma accepted_http:
  assumes "validate_monitor scheme_of m = None" "mon_engine m \<noteq> EngineBrowser"
  shows "list_all (\<lambda>s. validate_step scheme_of s = None) (md_steps m)" "distinct (map st_name (md_steps m))"
    "list_ex (\<lambda>s. step.st_kind s = ''http'') (md_steps m)"
  using assms
  by (auto simp: validate_monitor_def validate_steps_None list_all_iff split: if_splits)

lemma accepted_browser:
  assumes "validate_monitor scheme_of m = None" "mon_engine m = EngineBrowser"
  shows "list_all (\<lambda>s. validate_browser_step s = None) (md_steps m)"
    "list_ex (\<lambda>s. step.st_kind s = ''goto'') (md_steps m)"
  using assms
  by (auto simp: validate_monitor_def validate_browser_def split: if_splits option.splits)

lemma accepted_bounds:
  assumes "validate_monitor scheme_of m = None"
  shows "10 \<le> mon_interval m" "0 < mon_timeout m" "mon_timeout m \<le> mon_interval m" "1 \<le> mon_failure m" "1 \<le> mon_recovery m"
    "0 < length (md_steps m)" "length (md_steps m) \<le> 40" "mon_component m \<noteq> []"
  using assms by (auto simp: validate_monitor_def FloorInterval_def MaxSteps_def split: if_splits)

end
