(* ===== verification/Writes.thy ===== *)
theory Writes
  imports Ledger
begin

text \<open>
  Reading back what a commit wrote. The operations of the service build a write set and hand
  it to \<open>commit\<close>; the facts here say, for every key of every table, which row the register
  holds afterwards, whatever the SQL engine may have refused.
\<close>

section \<open>An entry that went through\<close>

text \<open>An engine that accepts one statement more changes nothing about one that was accepted.\<close>

lemma accepting_engine:
  "substitute (x\<lparr>x_engine := e\<rparr>) txid v = substitute x txid v"
  "subst_fields (x\<lparr>x_engine := e\<rparr>) txid fs = subst_fields x txid fs"
  "where_text (x\<lparr>x_engine := e\<rparr>) cols k = where_text x cols k"
  "entry_key (x\<lparr>x_engine := e\<rparr>) txid op = entry_key x txid op"
  "entry_fields (x\<lparr>x_engine := e\<rparr>) txid op = entry_fields x txid op"
  "entry_ok (x\<lparr>x_engine := e\<rparr>) txid op = entry_ok x txid op"
  "entry_run (x\<lparr>x_engine := e\<rparr>) txid op = entry_run x txid op"
proof -
  have d: "decode_binary (x\<lparr>x_engine := e\<rparr>) = decode_binary x"
    by (rule ext) (auto simp: decode_binary_def split: list.split val.split prod.split)
  show s: "substitute (x\<lparr>x_engine := e\<rparr>) txid v = substitute x txid v" for v
    by (cases v) (simp_all add: substitute_def d split: option.split)
  show f: "subst_fields (x\<lparr>x_engine := e\<rparr>) txid fs = subst_fields x txid fs" for fs by (simp add: subst_fields_def s)
  show "where_text (x\<lparr>x_engine := e\<rparr>) cols k = where_text x cols k"
    unfolding where_text_def by simp
  show k: "entry_key (x\<lparr>x_engine := e\<rparr>) txid op = entry_key x txid op" for op by (simp add: entry_key_def f)
  show g: "entry_fields (x\<lparr>x_engine := e\<rparr>) txid op = entry_fields x txid op" for op by (simp add: entry_fields_def f)
  show "entry_ok (x\<lparr>x_engine := e\<rparr>) txid op = entry_ok x txid op"
    by (simp add: entry_ok_def f k g split: option.split)
  show "entry_run (x\<lparr>x_engine := e\<rparr>) txid op = entry_run x txid op" by (simp add: entry_run_def k g)
qed

lemma run_sql_accepted: "run_sql x stmt t' = Inr t'' \<Longrightarrow> run_sql (x\<lparr>x_engine := \<lambda>_. None\<rparr>) stmt t' = Inr t''"
  by (auto simp: run_sql_def split: option.splits)

lemma apply_one_accepted:
  "apply_one x txid t op = Inr t' \<Longrightarrow> apply_one (x\<lparr>x_engine := \<lambda>_. None\<rparr>) txid t op = Inr t'"
  by (auto simp: apply_one_def Let_def accepting_engine intro: run_sql_accepted split: option.split_asm if_split_asm)

lemma apply_one_effect:
  assumes "entry_ok x txid op" "apply_one x txid t op = Inr t'"
  shows "t' = t(w_table op := rows.run1 (entry_run x txid op) (t (w_table op)))"
  using apply_one_run [of "x\<lparr>x_engine := \<lambda>_. None\<rparr>" txid op t] apply_one_accepted [OF assms(2)] assms(1)
  by (simp add: accepting_engine)

section \<open>A write set that went through\<close>

lemma apply_entries_effect:
  assumes "list_all (entry_ok x txid) ops" "apply_entries x txid i t ops = Inr t'"
  shows "t' tab = rows.run (map (entry_run x txid) (filter (\<lambda>op. w_table op = tab) ops)) (t tab)"
  using assms
proof (induction ops arbitrary: i t)
  case (Cons op ops)
  then obtain t1 where t1: "apply_one x txid t op = Inr t1" "apply_entries x txid (i + 1) t1 ops = Inr t'"
    by (auto split: sum.splits)
  have ok: "entry_ok x txid op" "list_all (entry_ok x txid) ops" using Cons.prems(1) by auto
  show ?case
    using Cons.IH [OF ok(2) t1(2)] apply_one_effect [OF ok(1) t1(1)] by (auto simp: rows.run_def)
qed (simp add: rows.run_def)

lemma apply_entries_other:
  "apply_entries x txid i t ops = Inr t' \<Longrightarrow> tab \<notin> w_table ` set ops \<Longrightarrow> t' tab = t tab"
proof (induction ops arbitrary: i t)
  case (Cons op ops)
  then obtain t1 where t1: "apply_one x txid t op = Inr t1" "apply_entries x txid (i + 1) t1 ops = Inr t'"
    by (auto split: sum.splits)
  show ?case using Cons.IH [OF t1(2)] apply_one_other [OF t1(1), of tab] Cons.prems(2) by auto
qed simp

lemma commit_refused: "commit x tenant now reg env ops = (Inl e, reg') \<Longrightarrow> reg' = reg"
  by (cases rule: commit_cases [of x tenant now reg env ops]) auto

text \<open>Every commit, successful or not, leaves the tables it does not name.\<close>

lemma commit_other:
  assumes "commit x tenant now reg env ops = (res, reg')" "tab \<notin> w_table ` set ops" "tab \<noteq> ''tx_refs''"
  shows "reg_tables reg' tab = reg_tables reg tab"
proof (cases res)
  case (Inl e)
  then show ?thesis using assms(1) commit_refused by blast
next
  case (Inr row)
  show ?thesis
  proof (cases "reg' = reg")
    case False
    then have "apply_all x (t_txid row) (reg_tables reg) (fill_envelope tenant now env) ops = Inr (reg_tables reg')"
      using commit_changed(1) assms(1) Inr by blast
    then obtain t where "apply_entries x (t_txid row) 0 (reg_tables reg) ops = Inr t"
      "apply_refs x (t_txid row) 0 t (env_refs (fill_envelope tenant now env)) = Inr (reg_tables reg')"
      by (auto simp: apply_all_def bind_res_Inr_iff)
    then show ?thesis using apply_entries_other assms(2,3) apply_refs_other by metis
  qed simp
qed

text \<open>The row of a key after a commit that changed the register.\<close>

lemma committed_row:
  assumes "commit x tenant now reg env ops = (Inr row, reg')" "reg' \<noteq> reg"
    and "list_all (entry_ok x (t_txid row)) ops" "pk_columns tab = Some cols" "valid_key cols k" "tab \<noteq> ''tx_refs''"
  shows "row_at k (reg_tables reg' tab) =
    rows.effect k (map (entry_run x (t_txid row)) (filter (\<lambda>op. w_table op = tab) ops)) (row_at k (reg_tables reg tab))"
proof -
  have "apply_all x (t_txid row) (reg_tables reg) (fill_envelope tenant now env) ops = Inr (reg_tables reg')"
    using commit_changed(1) [OF assms(1,2)] .
  then obtain t where t: "apply_entries x (t_txid row) 0 (reg_tables reg) ops = Inr t"
    "apply_refs x (t_txid row) 0 t (env_refs (fill_envelope tenant now env)) = Inr (reg_tables reg')"
    by (auto simp: apply_all_def bind_res_Inr_iff)
  have "reg_tables reg' tab = t tab" using apply_refs_other [OF t(2) assms(6)] .
  also have "\<dots> = rows.run (map (entry_run x (t_txid row)) (filter (\<lambda>op. w_table op = tab) ops)) (reg_tables reg tab)"
    using apply_entries_effect [OF assms(3) t(1)] .
  finally show ?thesis
    using rows.get_run [OF entries_valid [OF assms(3,4)] assms(5), of "reg_tables reg tab"] by simp
qed

text \<open>Unfolds what an entry with literal values writes.\<close>

lemmas entry_defs =
  entry_ok_def entry_key_def entry_fields_def entry_run_def subst_fields_def lit_fields_def valid_key_def valid_fields_def
  pk_columns_def substitute_simps

text \<open>The columns a row has once an entry has been laid over it.\<close>

lemma overlay_row_column:
  assumes "map_of fs c = Some v"
  shows "overlay_row k fs (Some r) c = v" "map_of k c = None \<Longrightarrow> overlay_row k fs None c = v"
  using assms by (simp_all add: overlay_row_def set_columns_def map_add_def)

lemma overlay_row_key:
  assumes "map_of fs c = None"
  shows "overlay_row k fs (Some r) c = r c" "map_of k c = Some v \<Longrightarrow> overlay_row k fs None c = v"
  using assms by (simp_all add: overlay_row_def set_columns_def map_add_def)

lemma row_at_key: "row_at k rs = Some r \<Longrightarrow> (c, v) \<in> set k \<Longrightarrow> r c = v"
  by (auto simp: row_at_def find_Some_iff selects_def list_all_iff)

section \<open>When a commit with references goes through\<close>

lemma ref_op_ok: "entry_ok x txid' (ref_op txid i r)"
  by (auto simp: ref_op_def entry_defs)

lemma apply_refs_accepted:
  assumes "x_engine x = (\<lambda>_. None)"
  shows "\<exists>t'. apply_refs x txid i t rs = Inr t'"
proof (induction rs arbitrary: i t)
  case (Cons r rs)
  then show ?case using apply_one_run [OF assms ref_op_ok, of txid t txid i r] by auto
qed simp

lemma commit_succeeds:
  assumes "x_engine x = (\<lambda>_. None)" "x_fmt x = Some" "validate_envelope (fill_envelope tenant now env) = None"
    and "check_ops ops = None" "\<And>txid. list_all (entry_ok x txid) ops" "reg_log reg = []"
  shows "\<exists>row reg'. commit x tenant now reg env ops = (Inr row, reg') \<and> reg' \<noteq> reg"
proof -
  obtain a b where ab: "marshal_envelope x (fill_envelope tenant now env) = Some a" "marshal_ops x ops = Some b"
    using write_json_total assms(2) unfolding marshal_envelope_def marshal_ops_def by (metis option.exhaust)
  obtain t where t: "apply_entries x (txid_of (x_sha x) a b) 0 (reg_tables reg) ops = Inr t"
    using apply_entries_run [OF assms(1,5)] by blast
  obtain t' where "apply_refs x (txid_of (x_sha x) a b) 0 t (env_refs (fill_envelope tenant now env)) = Inr t'"
    using apply_refs_accepted [OF assms(1)] by blast
  with t have "apply_all x (txid_of (x_sha x) a b) (reg_tables reg) (fill_envelope tenant now env) ops = Inr t'"
    by (simp add: apply_all_def)
  then obtain row reg' where c: "commit x tenant now reg env ops = (Inr row, reg')" "reg_version reg' = reg_version reg + 1"
    using assms(1,3,4,6) ab by (simp add: commit_def Let_def find_tx_def)
  then have "reg' \<noteq> reg" by auto
  with c(1) show ?thesis by blast
qed

end
