(* ===== verification/Catalogue.thy ===== *)
theory Catalogue
  imports Monitors Auth Writes
begin

text \<open>
  The service model (\<open>internal/core/catalogue.go\<close>, with the outbound allowlist of
  \<open>samples.go\<close>): services, components, monitors, schedules and objectives, each created or
  amended by a transaction of the ledger. What \<open>NewID\<close> draws, the configuration and the JSON
  decoders are parameters.
\<close>

section \<open>Identifiers\<close>

text \<open>
  \<open>Slug\<close>. \<open>strings.ToLower\<close> on UTF-8: the ASCII letters, and the two other letters
  whose lower case is ASCII, the Kelvin sign and the dotted capital I; every other character
  stays outside ASCII.
\<close>

fun slug_lower :: "string \<Rightarrow> string" where
  "slug_lower (a # b # c # s) =
     (if a = CHR 0xE2 \<and> b = CHR 0x84 \<and> c = CHR 0xAA then CHR ''k'' # slug_lower s
      else if a = CHR 0xC4 \<and> b = CHR 0xB0 then CHR ''i'' # slug_lower (c # s)
      else ascii_lower a # slug_lower (b # c # s))"
| "slug_lower [a, b] = (if a = CHR 0xC4 \<and> b = CHR 0xB0 then ''i'' else [ascii_lower a, ascii_lower b])"
| "slug_lower [a] = [ascii_lower a]"
| "slug_lower [] = []"

definition slug_char :: "char \<Rightarrow> bool" where
  "slug_char c \<longleftrightarrow> (97 \<le> (of_char c :: nat) \<and> (of_char c :: nat) \<le> 122) \<or> is_digit c"

fun slug_loop :: "bool \<Rightarrow> string \<Rightarrow> string" where
  "slug_loop last_dash [] = []"
| "slug_loop last_dash (c # s) =
     (if slug_char c then c # slug_loop False s
      else if \<not> last_dash then CHR ''-'' # slug_loop True s
      else slug_loop last_dash s)"

definition slug :: "string \<Rightarrow> string" where
  "slug name =
     trim_right (\<lambda>c. c = CHR ''-'') (trim_left (\<lambda>c. c = CHR ''-'') (slug_loop True (slug_lower (trim_space name))))"

section \<open>Reading\<close>

record model_codec = codec +
  j_steps :: "string \<Rightarrow> monitor_step list option"
  j_viewport :: "string \<Rightarrow> viewport option"

datatype catalogue_error =
    MayNotChangeModel string
  | ServiceNeedsName
  | ComponentNeedsServiceAndName
  | ScheduleNeedsService
  | ObjectiveNeedsParts
  | TargetOutOfRange
  | MonitorRefused monitor_fault
  | NoSuchComponent string
  | NoSuchMonitor string
  | NoIDDrawn
  | NotEncodable
  | Unreadable string
  | ModelNotCommitted commit_error

definition monitor_def_from_row :: "outside \<Rightarrow> model_codec \<Rightarrow> sql_row \<Rightarrow> catalogue_error + monitor_def" where
  "monitor_def_from_row x cd r =
     (let mon = monitor_from_row x r; vp = row_bytes r ''viewport''; st = row_bytes r ''steps'' in
      case (if length vp > 0 then j_viewport cd vp else Some \<lparr>vp_width = 0, vp_height = 0, vp_ocr = False\<rparr>) of
        None \<Rightarrow> Inl (Unreadable (mon_id mon))
      | Some v \<Rightarrow>
          (case (if length st > 0 then j_steps cd st else Some []) of
             None \<Rightarrow> Inl (Unreadable (mon_id mon))
           | Some ss \<Rightarrow> Inr (monitor.extend mon (monitor_def.fields v ss))))"

definition read_monitor_def :: "outside \<Rightarrow> model_codec \<Rightarrow> tables \<Rightarrow> string \<Rightarrow> catalogue_error + monitor_def option" where
  "read_monitor_def x cd t i =
     (case (if i = [] then None else row_at [(''id'', SStr i)] (t ''monitors'')) of
        None \<Rightarrow> Inr None
      | Some r \<Rightarrow> (case monitor_def_from_row x cd r of Inl e \<Rightarrow> Inl e | Inr m \<Rightarrow> Inr (Some m)))"

record service_objective = objective +
  so_service :: string
  so_created :: int
  so_updated :: int

definition read_objective :: "outside \<Rightarrow> model_codec \<Rightarrow> tables \<Rightarrow> string \<Rightarrow> catalogue_error + service_objective option" where
  "read_objective x cd t i =
     (case (if i = [] then None else row_at [(''id'', SStr i)] (t ''objectives'')) of
        None \<Rightarrow> Inr None
      | Some r \<Rightarrow>
          (case objective_from_row x (codec.truncate cd) r of
             Inl e \<Rightarrow> Inl (Unreadable i)
           | Inr ob \<Rightarrow> Inr (Some (objective.extend ob
               (service_objective.fields (row_str (x_ftext x) r ''service_id'') (row_int r ''created_at'') (row_int r ''updated_at''))))))"

definition read_schedule_row :: "outside \<Rightarrow> model_codec \<Rightarrow> tables \<Rightarrow> string \<Rightarrow> catalogue_error + schedule option" where
  "read_schedule_row x cd t i =
     (case read_schedule x (codec.truncate cd) t i of Inl e \<Rightarrow> Inl (Unreadable i) | Inr s \<Rightarrow> Inr s)"

section \<open>Rows to write\<close>

definition model_envelope :: "string \<Rightarrow> string \<Rightarrow> string \<Rightarrow> principal \<Rightarrow> int \<Rightarrow> string \<Rightarrow> envelope" where
  "model_envelope kind service i p now message =
     \<lparr>env_kind = kind, env_tenant = [], env_service = service, env_object_ids = [i],
      env_author = author_of p, env_timestamp = now, env_message = message, env_refs = []\<rparr>"

abbreviation KindServiceUpsert :: string where "KindServiceUpsert \<equiv> ''service.upsert''"
abbreviation KindComponentUpsert :: string where "KindComponentUpsert \<equiv> ''component.upsert''"
abbreviation KindMonitorUpsert :: string where "KindMonitorUpsert \<equiv> ''monitor.upsert''"
abbreviation KindMonitorRetire :: string where "KindMonitorRetire \<equiv> ''monitor.retire''"
abbreviation KindScheduleUpsert :: string where "KindScheduleUpsert \<equiv> ''schedule.upsert''"
abbreviation KindObjectiveUpsert :: string where "KindObjectiveUpsert \<equiv> ''objective.upsert''"

text \<open>The end of every operation: the commit, and what the operation returns.\<close>

definition commit_model :: "outside \<Rightarrow> string \<Rightarrow> int \<Rightarrow> register \<Rightarrow> envelope \<Rightarrow> write_op list \<Rightarrow> (tx_row \<Rightarrow> 'a) \<Rightarrow>
    (catalogue_error + 'a) \<times> register" where
  "commit_model x tenant now reg env ops f =
     (case commit x tenant now reg env ops of
        (Inl e, reg') \<Rightarrow> (Inl (ModelNotCommitted e), reg')
      | (Inr tr, reg') \<Rightarrow> (Inr (f tr), reg'))"

definition DefaultCoverageFloorPPM :: int where "DefaultCoverageFloorPPM = 990000"

definition service_op :: "service \<Rightarrow> write_op" where
  "service_op s =
     \<lparr>w_table = ''services'', w_key = [(''id'', VStr (svc_id s))],
      w_values =
        [(''tenant'', VStr (svc_tenant s)), (''name'', VStr (svc_name s)), (''slug'', VStr (svc_slug s)),
         (''description'', VStr (svc_description s)), (''timezone'', VStr (svc_timezone s)),
         (''schedule_id'', VStr (svc_schedule s)), (''visibility'', VStr (svc_visibility s)),
         (''maintenance_lead_time'', VInt64 (svc_lead s)), (''coverage_floor_ppm'', VInt64 (svc_coverage_floor s)),
         (''callback_url'', VStr (svc_callback s)), (''created_at'', VInt64 (svc_created s)),
         (''updated_at'', VInt64 (svc_updated s))],
      w_delete = False\<rparr>"

definition window_json :: "schedule_window \<Rightarrow> json" where
  "window_json w =
     JObj [(''weekday'', json_nat (sw_weekday w)), (''start_min'', json_nat (sw_start w)), (''end_min'', json_nat (sw_end w))]"

definition exception_json :: "schedule_exception \<Rightarrow> json" where
  "exception_json e =
     JObj ([(''date'', JStr (se_date e)), (''include'', JBool (se_include e))] @ int_member ''start_min'' (se_start e) @
       int_member ''end_min'' (se_end e) @ str_member ''reason'' (se_reason e))"

definition schedule_json :: "schedule \<Rightarrow> json" where
  "schedule_json s =
     JObj ([(''id'', JStr (sc_id s)), (''service_id'', JStr (sc_service s)), (''name'', JStr (sc_name s)),
        (''timezone'', JStr (sc_timezone s)), (''version'', json_nat (sc_version s)),
        (''windows'', json_list (map window_json (sc_windows s)))] @
       seq_member ''exceptions'' (map exception_json (sc_exceptions s)) @
       [(''created_at'', json_nat (sc_created s)), (''updated_at'', json_nat (sc_updated s))])"

definition schedule_op :: "outside \<Rightarrow> schedule \<Rightarrow> write_op option" where
  "schedule_op x s =
     map_option (\<lambda>definition_bytes.
       \<lparr>w_table = ''schedules'', w_key = [(''id'', VStr (sc_id s))],
        w_values =
          [(''service_id'', VStr (sc_service s)), (''name'', VStr (sc_name s)), (''timezone'', VStr (sc_timezone s)),
           (''version'', VUint64 (sc_version s)), (''definition'', definition_bytes),
           (''created_at'', VInt64 (sc_created s)), (''updated_at'', VInt64 (sc_updated s))],
        w_delete = False\<rparr>)
       (json_bytes x (schedule_json s))"

definition component_op :: "component \<Rightarrow> write_op" where
  "component_op c =
     \<lparr>w_table = ''components'', w_key = [(''id'', VStr (cmp_id c))],
      w_values =
        [(''service_id'', VStr (cmp_service c)), (''parent_id'', VStr (cmp_parent c)), (''name'', VStr (cmp_name c)),
         (''description'', VStr (cmp_description c)), (''user_weight'', VInt64 (cmp_weight c)),
         (''rollup'', VStr (cmp_rollup c)), (''sort_order'', VInt64 (cmp_position c)),
         (''showcase'', VBool (cmp_showcase c)), (''created_at'', VInt64 (cmp_created c)),
         (''updated_at'', VInt64 (cmp_updated c))],
      w_delete = False\<rparr>"

definition monitor_op :: "monitor_def \<Rightarrow> val \<Rightarrow> val \<Rightarrow> write_op" where
  "monitor_op m steps viewport =
     \<lparr>w_table = ''monitors'', w_key = [(''id'', VStr (mon_id m))],
      w_values =
        [(''service_id'', VStr (mon_service m)), (''component_id'', VStr (mon_component m)), (''name'', VStr (mon_name m)),
         (''version'', VUint64 (mon_version m)), (''enabled'', VBool (mon_enabled m)),
         (''interval_seconds'', VInt (mon_interval m)), (''timeout_seconds'', VInt (mon_timeout m)),
         (''failure_threshold'', VInt (mon_failure m)), (''recovery_threshold'', VInt (mon_recovery m)),
         (''latency_budget_ms'', VInt (mon_budget m)), (''steps'', steps), (''retired'', VBool False),
         (''engine'', VStr (mon_engine m)), (''viewport'', viewport), (''created_at'', VInt64 (mon_created m)),
         (''updated_at'', VInt64 (mon_updated m))],
      w_delete = False\<rparr>"

definition version_op :: "monitor_def \<Rightarrow> val \<Rightarrow> int \<Rightarrow> write_op" where
  "version_op m definition_bytes now =
     \<lparr>w_table = ''monitor_versions'', w_key = [(''monitor_id'', VStr (mon_id m)), (''version'', VUint64 (mon_version m))],
      w_values = [(''txid'', VStr TxIDPlaceholder), (''definition'', definition_bytes), (''created_at'', VInt64 now)],
      w_delete = False\<rparr>"

definition enabled_op :: "string \<Rightarrow> bool \<Rightarrow> int \<Rightarrow> write_op" where
  "enabled_op i enabled now =
     \<lparr>w_table = ''monitors'', w_key = [(''id'', VStr i)],
      w_values = [(''enabled'', VBool enabled), (''updated_at'', VInt64 now)], w_delete = False\<rparr>"

definition band_json :: "credit_band \<Rightarrow> json" where
  "band_json b = JObj [(''below_ppm'', json_nat (cb_below b)), (''credit_percent'', json_nat (cb_percent b))]"

definition objective_op :: "service_objective \<Rightarrow> val \<Rightarrow> write_op" where
  "objective_op ob credits =
     \<lparr>w_table = ''objectives'', w_key = [(''id'', VStr (o_id ob))],
      w_values =
        [(''service_id'', VStr (so_service ob)), (''name'', VStr (o_name ob)), (''metric'', VStr (o_metric ob)),
         (''target_ppm'', VInt64 (o_target ob)), (''window_kind'', VStr (o_window ob)),
         (''latency_budget_ms'', VInt (o_budget ob)), (''credits'', credits),
         (''created_at'', VInt64 (so_created ob)), (''updated_at'', VInt64 (so_updated ob))],
      w_delete = False\<rparr>"

section \<open>Operations\<close>

text \<open>\<open>fresh\<close> is what \<open>NewID\<close> came back with; a given identifier is used as it is.\<close>

definition id_or_fresh :: "string \<Rightarrow> string option \<Rightarrow> string option" where
  "id_or_fresh i fresh = (if i = [] then fresh else Some i)"

definition amended_service :: "string \<Rightarrow> int \<Rightarrow> int \<Rightarrow> service \<Rightarrow> service" where
  "amended_service tenant lead now s0 =
     (let s1 = s0\<lparr>svc_timezone := (if svc_timezone s0 = [] then ''UTC'' else svc_timezone s0),
                 svc_visibility := (if svc_visibility s0 = [] then ''public'' else svc_visibility s0),
                 svc_lead := (if svc_lead s0 \<le> 0 then lead else svc_lead s0),
                 svc_coverage_floor := (if svc_coverage_floor s0 \<le> 0 then DefaultCoverageFloorPPM else svc_coverage_floor s0),
                 svc_tenant := tenant, svc_updated := now\<rparr>
      in s1\<lparr>svc_slug := (if svc_slug s1 = [] then slug (svc_name s1) else svc_slug s1)\<rparr>)"

definition stored_service :: "int \<Rightarrow> string \<Rightarrow> service option \<Rightarrow> service \<Rightarrow> service" where
  "stored_service now i existing s =
     (case existing of
        None \<Rightarrow> s\<lparr>svc_id := i, svc_created := now\<rparr>
      | Some old \<Rightarrow> s\<lparr>svc_created := svc_created old,
                      svc_schedule := (if svc_schedule s = [] then svc_schedule old else svc_schedule s)\<rparr>)"

definition service_writes :: "outside \<Rightarrow> int \<Rightarrow> string option \<Rightarrow> service \<Rightarrow> catalogue_error + service \<times> write_op list" where
  "service_writes x now fresh_schedule s =
     (if svc_schedule s \<noteq> [] then Inr (s, [service_op s])
      else case fresh_schedule of
        None \<Rightarrow> Inl NoIDDrawn
      | Some sch \<Rightarrow>
          (case schedule_op x (always_on sch (svc_id s) (svc_timezone s) now) of
             None \<Rightarrow> Inl NotEncodable
           | Some op \<Rightarrow> Inr (s\<lparr>svc_schedule := sch\<rparr>, [service_op (s\<lparr>svc_schedule := sch\<rparr>), op])))"

definition upsert_service :: "outside \<Rightarrow> string \<Rightarrow> int \<Rightarrow> int \<Rightarrow> string option \<Rightarrow> string option \<Rightarrow> register \<Rightarrow> principal \<Rightarrow>
    service \<Rightarrow> string \<Rightarrow> (catalogue_error + service \<times> tx_row) \<times> register" where
  "upsert_service x tenant lead now fresh fresh_schedule reg p s0 message =
     (if \<not> can p PermModel then (Inl (MayNotChangeModel (pr_acting p)), reg)
      else if trim_space (svc_name s0) = [] then (Inl ServiceNeedsName, reg)
      else
        let s1 = amended_service tenant lead now s0;
            existing = read_service x (reg_tables reg) (svc_id s1)
        in case (case existing of None \<Rightarrow> id_or_fresh (svc_id s1) fresh | Some _ \<Rightarrow> Some (svc_id s1)) of
             None \<Rightarrow> (Inl NoIDDrawn, reg)
           | Some i \<Rightarrow>
               (case service_writes x now fresh_schedule (stored_service now i existing s1) of
                  Inl e \<Rightarrow> (Inl e, reg)
                | Inr (s2, ops) \<Rightarrow>
                    commit_model x tenant now reg
                      (model_envelope KindServiceUpsert (svc_id s2) (svc_id s2) p now message) ops (Pair s2)))"

definition upsert_component :: "outside \<Rightarrow> string \<Rightarrow> int \<Rightarrow> string option \<Rightarrow> register \<Rightarrow> principal \<Rightarrow>
    component \<Rightarrow> string \<Rightarrow> (catalogue_error + component \<times> tx_row) \<times> register" where
  "upsert_component x tenant now fresh reg p c0 message =
     (if \<not> can p PermModel then (Inl (MayNotChangeModel (pr_acting p)), reg)
      else if cmp_service c0 = [] \<or> trim_space (cmp_name c0) = [] then (Inl ComponentNeedsServiceAndName, reg)
      else
        let c1 = c0\<lparr>cmp_rollup := (if cmp_rollup c0 = [] then ''any'' else cmp_rollup c0), cmp_updated := now\<rparr>;
            existing = read_component x (reg_tables reg) (cmp_id c1)
        in case (case existing of None \<Rightarrow> id_or_fresh (cmp_id c1) fresh | Some _ \<Rightarrow> Some (cmp_id c1)) of
             None \<Rightarrow> (Inl NoIDDrawn, reg)
           | Some i \<Rightarrow>
               let c2 = (case existing of None \<Rightarrow> c1\<lparr>cmp_id := i, cmp_created := now\<rparr>
                         | Some old \<Rightarrow> c1\<lparr>cmp_created := cmp_created old\<rparr>)
               in (commit_model x tenant now reg
                   (model_envelope KindComponentUpsert (cmp_service c2) (cmp_id c2) p now message)
                   [component_op c2] (Pair c2)))"

text \<open>\<open>UpsertMonitor\<close> up to the commit; \<open>upsert_monitor\<close> below adds the refreshed allowlist.\<close>

definition defaulted_monitor :: "int \<Rightarrow> monitor_def \<Rightarrow> monitor_def" where
  "defaulted_monitor now m0 =
     (let m1 = m0\<lparr>mon_interval := (if mon_interval m0 = 0 then DefaultInterval else mon_interval m0)\<rparr>;
          m2 = m1\<lparr>mon_timeout := (if mon_timeout m1 = 0 then min DefaultTimeout (mon_interval m1) else mon_timeout m1)\<rparr>
      in m2\<lparr>mon_failure := (if mon_failure m2 = 0 then 2 else mon_failure m2),
           mon_recovery := (if mon_recovery m2 = 0 then 2 else mon_recovery m2), mon_updated := now\<rparr>)"

definition next_version :: "int \<Rightarrow> int" where
  "next_version v = (v + 1) mod 2 ^ 64"

definition versioned_monitor :: "int \<Rightarrow> string \<Rightarrow> monitor_def option \<Rightarrow> monitor_def \<Rightarrow> monitor_def" where
  "versioned_monitor now i existing m =
     (case existing of
        None \<Rightarrow> m\<lparr>mon_id := i, mon_version := 1, mon_created := now, mon_enabled := True\<rparr>
      | Some old \<Rightarrow> m\<lparr>mon_version := next_version (mon_version old), mon_created := mon_created old\<rparr>)"

definition publish_monitor :: "outside \<Rightarrow> model_codec \<Rightarrow> (string \<Rightarrow> string option) \<Rightarrow> string \<Rightarrow> int \<Rightarrow> string option \<Rightarrow> register \<Rightarrow>
    principal \<Rightarrow> monitor_def \<Rightarrow> string \<Rightarrow> (catalogue_error + monitor_def \<times> tx_row) \<times> register" where
  "publish_monitor x cd scheme_of tenant now fresh reg p m0 message =
     (if \<not> can p PermModel then (Inl (MayNotChangeModel (pr_acting p)), reg)
      else
        let m1 = defaulted_monitor now m0 in
        case validate_monitor scheme_of m1 of Some f \<Rightarrow> (Inl (MonitorRefused f), reg)
        | None \<Rightarrow>
        (case read_component x (reg_tables reg) (mon_component m1) of None \<Rightarrow> (Inl (NoSuchComponent (mon_component m1)), reg)
         | Some c \<Rightarrow>
         (case read_monitor_def x cd (reg_tables reg) (mon_id m1) of Inl e \<Rightarrow> (Inl e, reg)
          | Inr existing \<Rightarrow>
          (case (case existing of None \<Rightarrow> id_or_fresh (mon_id m1) fresh | Some _ \<Rightarrow> Some (mon_id m1)) of
             None \<Rightarrow> (Inl NoIDDrawn, reg)
           | Some i \<Rightarrow>
             let m2 = versioned_monitor now i existing (m1\<lparr>mon_service := cmp_service c\<rparr>) in
             (case (json_bytes x (steps_json (md_steps m2)), json_bytes x (viewport_json (md_viewport m2)),
                    json_bytes x (monitor_json m2)) of
                (Some steps, Some vp, Some definition_bytes) \<Rightarrow>
                  (commit_model x tenant now reg
                      (model_envelope KindMonitorUpsert (mon_service m2) (mon_id m2) p now message)
                      [monitor_op m2 steps vp, version_op m2 definition_bytes now] (Pair m2))
              | _ \<Rightarrow> (Inl NotEncodable, reg))))))"

definition set_monitor_enabled :: "outside \<Rightarrow> model_codec \<Rightarrow> string \<Rightarrow> int \<Rightarrow> register \<Rightarrow> principal \<Rightarrow> string \<Rightarrow> bool \<Rightarrow> string \<Rightarrow>
    (catalogue_error + tx_row) \<times> register" where
  "set_monitor_enabled x cd tenant now reg p i enabled message =
     (if \<not> can p PermModel then (Inl (MayNotChangeModel (pr_acting p)), reg)
      else case read_monitor_def x cd (reg_tables reg) i of
        Inl e \<Rightarrow> (Inl e, reg)
      | Inr None \<Rightarrow> (Inl (NoSuchMonitor i), reg)
      | Inr (Some m) \<Rightarrow>
          (commit_model x tenant now reg
              (model_envelope KindMonitorRetire (mon_service m) i p now message)
              [enabled_op i enabled now] id))"

definition upsert_schedule :: "outside \<Rightarrow> model_codec \<Rightarrow> string \<Rightarrow> int \<Rightarrow> string option \<Rightarrow> register \<Rightarrow> principal \<Rightarrow>
    schedule \<Rightarrow> string \<Rightarrow> (catalogue_error + schedule \<times> tx_row) \<times> register" where
  "upsert_schedule x cd tenant now fresh reg p s0 message =
     (if \<not> can p PermModel then (Inl (MayNotChangeModel (pr_acting p)), reg)
      else if sc_service s0 = [] then (Inl ScheduleNeedsService, reg)
      else
        let s1 = s0\<lparr>sc_timezone := (if sc_timezone s0 = [] then ''UTC'' else sc_timezone s0), sc_updated := now\<rparr> in
        case read_schedule_row x cd (reg_tables reg) (sc_id s1) of Inl e \<Rightarrow> (Inl e, reg)
        | Inr existing \<Rightarrow>
        (case (case existing of None \<Rightarrow> id_or_fresh (sc_id s1) fresh | Some _ \<Rightarrow> Some (sc_id s1)) of
           None \<Rightarrow> (Inl NoIDDrawn, reg)
         | Some i \<Rightarrow>
           let s2 = (case existing of None \<Rightarrow> s1\<lparr>sc_id := i, sc_version := 1, sc_created := now\<rparr>
                     | Some old \<Rightarrow> s1\<lparr>sc_version := next_version (sc_version old), sc_created := sc_created old\<rparr>)
           in (case schedule_op x s2 of None \<Rightarrow> (Inl NotEncodable, reg)
               | Some op \<Rightarrow>
               let repoint = (case read_service x (reg_tables reg) (sc_service s2) of
                     None \<Rightarrow> []
                   | Some svc \<Rightarrow> if svc_schedule svc \<noteq> sc_id s2
                       then [service_op (svc\<lparr>svc_schedule := sc_id s2, svc_updated := now\<rparr>)] else [])
               in (commit_model x tenant now reg
                   (model_envelope KindScheduleUpsert (sc_service s2) (sc_id s2) p now message)
                   (op # repoint) (Pair s2)))))"

definition upsert_objective :: "outside \<Rightarrow> model_codec \<Rightarrow> string \<Rightarrow> int \<Rightarrow> string option \<Rightarrow> register \<Rightarrow> principal \<Rightarrow>
    service_objective \<Rightarrow> string \<Rightarrow> (catalogue_error + service_objective \<times> tx_row) \<times> register" where
  "upsert_objective x cd tenant now fresh reg p o0 message =
     (if \<not> can p PermModel then (Inl (MayNotChangeModel (pr_acting p)), reg)
      else if so_service o0 = [] \<or> o_metric o0 = [] \<or> o_window o0 = [] then (Inl ObjectiveNeedsParts, reg)
      else if o_target o0 \<le> 0 \<or> o_target o0 > 1000000 then (Inl TargetOutOfRange, reg)
      else
        let o1 = o0\<lparr>so_updated := now\<rparr> in
        case read_objective x cd (reg_tables reg) (o_id o1) of Inl e \<Rightarrow> (Inl e, reg)
        | Inr existing \<Rightarrow>
        (case (case existing of None \<Rightarrow> id_or_fresh (o_id o1) fresh | Some _ \<Rightarrow> Some (o_id o1)) of
           None \<Rightarrow> (Inl NoIDDrawn, reg)
         | Some i \<Rightarrow>
           let o2 = (case existing of None \<Rightarrow> o1\<lparr>o_id := i, so_created := now\<rparr>
                     | Some old \<Rightarrow> o1\<lparr>so_created := so_created old\<rparr>)
           in (case json_bytes x (json_list (map band_json (o_credits o2))) of None \<Rightarrow> (Inl NotEncodable, reg)
               | Some credits \<Rightarrow>
                   (commit_model x tenant now reg
                       (model_envelope KindObjectiveUpsert (so_service o2) (o_id o2) p now message)
                       [objective_op o2 credits] (Pair o2)))))"

section \<open>The outbound allowlist\<close>

text \<open>\<open>hostOfTemplate\<close> and \<open>refreshEgress\<close>.\<close>

definition cut_path :: "string \<Rightarrow> string" where
  "cut_path s = takeWhile (\<lambda>c. c \<notin> {CHR ''/'', CHR ''?'', CHR ''#''}) s"

definition cut_scheme :: "string \<Rightarrow> string" where
  "cut_scheme s = (case str_index s ''://'' of Some i \<Rightarrow> drop (i + 3) s | None \<Rightarrow> s)"

definition host_of_template :: "string \<Rightarrow> string" where
  "host_of_template raw =
     (if raw = [] then []
      else
        let rest = cut_path (cut_scheme raw) in
        if str_contains rest ''{{'' then []
        else to_lower (case last_colon rest of Some i \<Rightarrow> if i > 0 then take i rest else rest | None \<Rightarrow> rest))"

definition declared_hosts :: "outside \<Rightarrow> model_codec \<Rightarrow> string list \<Rightarrow> tables \<Rightarrow> string list" where
  "declared_hosts x cd callback_hosts t =
     map to_lower callback_hosts @
     filter (\<lambda>h. h \<noteq> [])
       (concat (map (\<lambda>r. let raw = row_bytes r ''steps'' in
            case (if length raw > 0 then j_steps cd raw else Some []) of
              None \<Rightarrow> [] | Some ss \<Rightarrow> map (\<lambda>s. host_of_template (st_url s)) ss)
          (filter (\<lambda>r. r ''enabled'' = SInt 1) (t ''monitors''))) @
        map (\<lambda>r. host_of_template (row_str (x_ftext x) r ''callback_url'')) (t ''services''))"

definition refresh_egress :: "outside \<Rightarrow> model_codec \<Rightarrow> string list \<Rightarrow> tables \<Rightarrow> allowlist option \<Rightarrow> allowlist option" where
  "refresh_egress x cd callback_hosts t al =
     (case al of None \<Rightarrow> None
      | Some a \<Rightarrow> Some (if al_open a then a else al_replace a (sort (remdups (declared_hosts x cd callback_hosts t)))))"

definition upsert_monitor :: "outside \<Rightarrow> model_codec \<Rightarrow> (string \<Rightarrow> string option) \<Rightarrow> string list \<Rightarrow> string \<Rightarrow> int \<Rightarrow> string option \<Rightarrow>
    register \<times> allowlist option \<Rightarrow> principal \<Rightarrow> monitor_def \<Rightarrow> string \<Rightarrow>
    (catalogue_error + monitor_def \<times> tx_row) \<times> register \<times> allowlist option" where
  "upsert_monitor x cd scheme_of callback_hosts tenant now fresh st p m0 message =
     (case publish_monitor x cd scheme_of tenant now fresh (fst st) p m0 message of
        (Inl e, reg') \<Rightarrow> (Inl e, reg', snd st)
      | (Inr r, reg') \<Rightarrow> (Inr r, reg', refresh_egress x cd callback_hosts (reg_tables reg') (snd st)))"

section \<open>What an operation touches\<close>

definition writes_only :: "string set \<Rightarrow> register \<Rightarrow> register \<Rightarrow> bool" where
  "writes_only tabs reg reg' \<longleftrightarrow> (\<forall>tab. tab \<notin> tabs \<longrightarrow> tab \<noteq> ''tx_refs'' \<longrightarrow> reg_tables reg' tab = reg_tables reg tab)"

lemma writes_only_refl [simp]: "writes_only tabs reg reg"
  by (simp add: writes_only_def)

lemma snd_commit_model: "snd (commit_model x tenant now reg env ops f) = snd (commit x tenant now reg env ops)"
  by (simp add: commit_model_def split: sum.split prod.split)

lemma commit_writes_only: "w_table ` set ops \<subseteq> tabs \<Longrightarrow> writes_only tabs reg (snd (commit x tenant now reg env ops))"
proof -
  assume sub: "w_table ` set ops \<subseteq> tabs"
  obtain res reg' where c: "commit x tenant now reg env ops = (res, reg')" by fastforce
  show ?thesis
    unfolding c snd_conv writes_only_def
  proof (intro allI impI)
    fix tab assume "tab \<notin> tabs" "tab \<noteq> ''tx_refs''"
    then show "reg_tables reg' tab = reg_tables reg tab" using commit_other [OF c, of tab] sub by blast
  qed
qed

lemma commit_model_writes_only [simp]:
  "w_table ` set ops \<subseteq> tabs \<Longrightarrow> writes_only tabs reg (snd (commit_model x tenant now reg env ops f))"
  by (simp add: snd_commit_model commit_writes_only)

lemma op_tables [simp]:
  "w_table (service_op s) = ''services''" "w_table (component_op c) = ''components''"
  "w_table (objective_op ob credits) = ''objectives''" "w_table (monitor_op m steps vp) = ''monitors''"
  "w_table (version_op m d now) = ''monitor_versions''" "w_table (enabled_op i e now) = ''monitors''"
  by (simp_all add: service_op_def component_op_def objective_op_def monitor_op_def version_op_def enabled_op_def)

lemma schedule_op_table [simp]: "schedule_op x s = Some op \<Longrightarrow> w_table op = ''schedules''"
  by (auto simp: schedule_op_def)

lemma service_writes_tables:
  "service_writes x now fs s = Inr (s', ops) \<Longrightarrow> w_table ` set ops \<subseteq> {''services'', ''schedules''}"
  by (auto simp: service_writes_def split: if_splits option.splits)

lemma upsert_service_touches:
  "writes_only {''services'', ''schedules''} reg (snd (upsert_service x tenant lead now fresh fs reg p s message))"
proof -
  let ?s = "amended_service tenant lead now s"
  let ?old = "read_service x (reg_tables reg) (svc_id ?s)"
  let ?i = "case ?old of None \<Rightarrow> id_or_fresh (svc_id ?s) fresh | Some _ \<Rightarrow> Some (svc_id ?s)"
  show ?thesis
  proof (cases ?i)
    case (Some i)
    show ?thesis
    proof (cases "service_writes x now fs (stored_service now i ?old ?s)")
      case (Inr r)
      then show ?thesis
        using Some service_writes_tables [of x now fs "stored_service now i ?old ?s" "fst r" "snd r"]
        by (cases r) (simp add: upsert_service_def Let_def)
    qed (simp add: upsert_service_def Let_def Some)
  qed (simp add: upsert_service_def Let_def)
qed

lemma upsert_component_touches:
  "writes_only {''components''} reg (snd (upsert_component x tenant now fresh reg p c message))"
  unfolding upsert_component_def Let_def by (simp split: option.split)

lemma publish_monitor_touches:
  "writes_only {''monitors'', ''monitor_versions''} reg (snd (publish_monitor x cd scheme_of tenant now fresh reg p m message))"
  unfolding publish_monitor_def Let_def by (simp split: option.split sum.split)

lemma set_monitor_enabled_touches:
  "writes_only {''monitors''} reg (snd (set_monitor_enabled x cd tenant now reg p i enabled message))"
  unfolding set_monitor_enabled_def Let_def by (simp split: option.split sum.split)

lemma upsert_schedule_touches:
  "writes_only {''schedules'', ''services''} reg (snd (upsert_schedule x cd tenant now fresh reg p s message))"
  unfolding upsert_schedule_def Let_def by (simp split: option.split sum.split)

lemma upsert_objective_touches:
  "writes_only {''objectives''} reg (snd (upsert_objective x cd tenant now fresh reg p ob message))"
  unfolding upsert_objective_def Let_def by (simp split: option.split sum.split)

section \<open>Versions\<close>

text \<open>The version a monitor's row names, and the row that keeps a version's definition.\<close>

definition current_version :: "tables \<Rightarrow> string \<Rightarrow> int" where
  "current_version t i =
     (case row_at [(''id'', SStr i)] (t ''monitors'') of None \<Rightarrow> 0 | Some r \<Rightarrow> row_uint r ''version'')"

definition version_row :: "tables \<Rightarrow> string \<Rightarrow> int \<Rightarrow> sql_row option" where
  "version_row t i v = row_at [(''monitor_id'', SStr i), (''version'', SInt v)] (t ''monitor_versions'')"

lemma json_bytes_binary: "json_bytes x j = Some v \<Longrightarrow> \<exists>b. v = VBinary b"
  by (auto simp: json_bytes_def)

lemma publish_cases:
  assumes "publish_monitor x cd scheme_of tenant now fresh reg p m0 message = (res, reg')" "reg' \<noteq> reg"
  obtains existing i m steps vp d tr where
    "can p PermModel" "validate_monitor scheme_of (defaulted_monitor now m0) = None"
    "read_monitor_def x cd (reg_tables reg) (mon_id m0) = Inr existing"
    "(if existing = None \<and> mon_id m0 = [] then fresh else Some (mon_id m0)) = Some i"
    "mon_id m = i" "mon_version m = (case existing of None \<Rightarrow> 1 | Some old \<Rightarrow> next_version (mon_version old))"
    "json_bytes x (monitor_json m) = Some (VBinary d)" "res = Inr (m, tr)"
    "commit x tenant now reg (model_envelope KindMonitorUpsert (mon_service m) i p now message)
       [monitor_op m (VBinary steps) (VBinary vp), version_op m (VBinary d) now] = (Inr tr, reg')"
proof -
  let ?m1 = "defaulted_monitor now m0"
  have i1: "mon_id ?m1 = mon_id m0" by (simp add: defaulted_monitor_def Let_def)
  have ok: "can p PermModel" "validate_monitor scheme_of ?m1 = None"
    using assms by (auto simp: publish_monitor_def Let_def split: if_splits option.splits)
  obtain c where c: "read_component x (reg_tables reg) (mon_component ?m1) = Some c"
    using assms ok by (auto simp: publish_monitor_def Let_def split: option.splits)
  obtain existing where ex: "read_monitor_def x cd (reg_tables reg) (mon_id m0) = Inr existing"
    using assms ok c i1 by (cases "read_monitor_def x cd (reg_tables reg) (mon_id m0)") (auto simp: publish_monitor_def Let_def)
  obtain i where i: "(case existing of None \<Rightarrow> id_or_fresh (mon_id m0) fresh | Some _ \<Rightarrow> Some (mon_id m0)) = Some i"
    using assms ok c ex i1 by (auto simp: publish_monitor_def Let_def split: option.splits)
  have ex': "read_monitor_def x cd (reg_tables reg) (mon_id ?m1) = Inr existing"
    and i': "(case existing of None \<Rightarrow> id_or_fresh (mon_id ?m1) fresh | Some _ \<Rightarrow> Some (mon_id ?m1)) = Some i"
    using ex i by (simp_all only: i1)
  define m where "m = versioned_monitor now i existing (?m1\<lparr>mon_service := cmp_service c\<rparr>)"
  have r0: "publish_monitor x cd scheme_of tenant now fresh reg p m0 message =
      (case (json_bytes x (steps_json (md_steps m)), json_bytes x (viewport_json (md_viewport m)), json_bytes x (monitor_json m)) of
         (Some steps, Some vp, Some d) \<Rightarrow>
           commit_model x tenant now reg (model_envelope KindMonitorUpsert (mon_service m) (mon_id m) p now message)
             [monitor_op m steps vp, version_op m d now] (Pair m)
       | _ \<Rightarrow> (Inl NotEncodable, reg))"
    using i' ok by (simp add: publish_monitor_def Let_def c ex' flip: m_def)
  obtain s v d where js: "json_bytes x (steps_json (md_steps m)) = Some s" "json_bytes x (viewport_json (md_viewport m)) = Some v"
    "json_bytes x (monitor_json m) = Some d"
    using assms(1,2) unfolding r0 by (auto split: option.splits)
  obtain sb vb db where b: "s = VBinary sb" "v = VBinary vb" "d = VBinary db"
    using js json_bytes_binary by metis
  have id: "mon_id m = i"
    using i i1 by (auto simp: m_def versioned_monitor_def id_or_fresh_def split: option.splits)
  have r: "publish_monitor x cd scheme_of tenant now fresh reg p m0 message =
      commit_model x tenant now reg (model_envelope KindMonitorUpsert (mon_service m) i p now message)
        [monitor_op m s v, version_op m d now] (Pair m)"
    using r0 js id by simp
  obtain tr where tr: "res = Inr (m, tr)"
    "commit x tenant now reg (model_envelope KindMonitorUpsert (mon_service m) i p now message)
       [monitor_op m s v, version_op m d now] = (Inr tr, reg')"
  proof (cases "fst (commit x tenant now reg (model_envelope KindMonitorUpsert (mon_service m) i p now message)
       [monitor_op m s v, version_op m d now])")
    case (Inl e)
    then show ?thesis
      using assms r commit_refused by (metis prod.collapse snd_commit_model sndI)
  next
    case (Inr tr)
    then show ?thesis
      using assms r by (intro that [of tr]) (auto simp: commit_model_def split: prod.splits)
  qed
  show thesis
  proof (rule that [OF ok ex _ id])
    show "(if existing = None \<and> mon_id m0 = [] then fresh else Some (mon_id m0)) = Some i"
      using i by (auto simp: id_or_fresh_def split: option.splits if_splits)
    show "mon_version m = (case existing of None \<Rightarrow> 1 | Some old \<Rightarrow> next_version (mon_version old))"
      by (simp add: m_def versioned_monitor_def split: option.split)
    show "json_bytes x (monitor_json m) = Some (VBinary db)" using js b by simp
    show "res = Inr (m, tr)" using tr by simp
    show "commit x tenant now reg (model_envelope KindMonitorUpsert (mon_service m) i p now message)
       [monitor_op m (VBinary sb) (VBinary vb), version_op m (VBinary db) now] = (Inr tr, reg')" using tr b by simp
  qed
qed

lemma monitor_op_entry:
  assumes "mon_id m \<noteq> TxIDPlaceholder"
  shows "entry_ok x txid (monitor_op m (VBinary a) (VBinary b))"
    "entry_key x txid (monitor_op m (VBinary a) (VBinary b)) = [(''id'', SStr (mon_id m))]"
    "map_of (entry_fields x txid (monitor_op m (VBinary a) (VBinary b))) ''version'' = Some (SInt (mon_version m))"
  using assms by (simp_all add: monitor_op_def entry_defs)

lemma version_op_entry:
  assumes "mon_id m \<noteq> TxIDPlaceholder"
  shows "entry_ok x txid (version_op m (VBinary d) now)"
    "entry_key x txid (version_op m (VBinary d) now) = [(''monitor_id'', SStr (mon_id m)), (''version'', SInt (mon_version m))]"
    "entry_fields x txid (version_op m (VBinary d) now) =
       [(''txid'', SStr txid), (''definition'', SStr d), (''created_at'', SInt now)]"
  using assms by (simp_all add: version_op_def entry_defs)

lemma monitor_keys:
  "valid_key [''id''] [(''id'', SStr i)]"
  "valid_key [''monitor_id'', ''version''] [(''monitor_id'', SStr i), (''version'', SInt v)]"
  "pk_columns ''monitors'' = Some [''id'']" "pk_columns ''monitor_versions'' = Some [''monitor_id'', ''version'']"
  by (simp_all add: valid_key_def pk_columns_def)

text \<open>Publishing touches one monitor: its version goes up by one, and that version gets a definition.\<close>

lemma publish_effect:
  assumes "publish_monitor x cd scheme_of tenant now fresh reg p m0 message = (res, reg')" "reg' \<noteq> reg"
    and "mon_id m0 \<noteq> TxIDPlaceholder"
    and "\<And>i. fresh = Some i \<Longrightarrow> i \<noteq> TxIDPlaceholder \<and> row_at [(''id'', SStr i)] (reg_tables reg ''monitors'') = None"
  shows "\<exists>i m tr. res = Inr (m, tr) \<and> mon_id m = i \<and> mon_version m = next_version (current_version (reg_tables reg) i) \<and>
    current_version (reg_tables reg') i = mon_version m \<and>
    (\<forall>j. j \<noteq> i \<longrightarrow> current_version (reg_tables reg') j = current_version (reg_tables reg) j) \<and>
    (\<forall>j v. (j, v) \<noteq> (i, mon_version m) \<longrightarrow> version_row (reg_tables reg') j v = version_row (reg_tables reg) j v) \<and>
    (\<exists>r. version_row (reg_tables reg') i (mon_version m) = Some r \<and>
       r ''txid'' = SStr (t_txid tr) \<and> Some (r ''definition'') = map_option SStr (write_json (x_fmt x) (monitor_json m)))"
proof -
  obtain existing i m steps vp d tr where c:
    "read_monitor_def x cd (reg_tables reg) (mon_id m0) = Inr existing"
    "(if existing = None \<and> mon_id m0 = [] then fresh else Some (mon_id m0)) = Some i"
    "mon_id m = i" "mon_version m = (case existing of None \<Rightarrow> 1 | Some old \<Rightarrow> next_version (mon_version old))"
    "json_bytes x (monitor_json m) = Some (VBinary d)" "res = Inr (m, tr)"
    "commit x tenant now reg (model_envelope KindMonitorUpsert (mon_service m) i p now message)
       [monitor_op m (VBinary steps) (VBinary vp), version_op m (VBinary d) now] = (Inr tr, reg')"
    using publish_cases [OF assms(1,2)] by metis
  have ni: "mon_id m \<noteq> TxIDPlaceholder" using c(2,3) assms(3,4) by (auto split: if_splits)
  note me = monitor_op_entry [OF ni, of x "t_txid tr" steps vp] and ve = version_op_entry [OF ni, of x "t_txid tr" d now]
  have ok: "list_all (entry_ok x (t_txid tr)) [monitor_op m (VBinary steps) (VBinary vp), version_op m (VBinary d) now]"
    using me ve by simp
  have cur: "mon_version m = next_version (current_version (reg_tables reg) i)"
  proof (cases existing)
    case None
    have "row_at [(''id'', SStr i)] (reg_tables reg ''monitors'') = None"
    proof (cases "mon_id m0 = []")
      case True
      then show ?thesis using None c(2) assms(4) by simp
    next
      case False
      then show ?thesis using None c(1,2) by (auto simp: read_monitor_def_def split: option.splits sum.splits)
    qed
    then show ?thesis using None c(4) by (simp add: current_version_def next_version_def)
  next
    case (Some old)
    then have "mon_id m0 = i" "mon_id m0 \<noteq> []" using c(1,2) by (auto simp: read_monitor_def_def)
    then obtain r where "row_at [(''id'', SStr i)] (reg_tables reg ''monitors'') = Some r" "monitor_def_from_row x cd r = Inr old"
      using c(1) Some by (auto simp: read_monitor_def_def split: option.splits sum.splits)
    then have "mon_version old = current_version (reg_tables reg) i"
      by (auto simp: current_version_def monitor_def_from_row_def monitor_from_row_def monitor.extend_def Let_def
          split: option.splits)
    then show ?thesis using Some c(4) by simp
  qed
  have mon: "row_at [(''id'', SStr j)] (reg_tables reg' ''monitors'') =
      rows.effect [(''id'', SStr j)] [entry_run x (t_txid tr) (monitor_op m (VBinary steps) (VBinary vp))]
        (row_at [(''id'', SStr j)] (reg_tables reg ''monitors''))" for j
    using committed_row [OF c(7) assms(2) ok monitor_keys(3) monitor_keys(1)] by simp
  have ver: "version_row (reg_tables reg') j v =
      rows.effect [(''monitor_id'', SStr j), (''version'', SInt v)] [entry_run x (t_txid tr) (version_op m (VBinary d) now)]
        (version_row (reg_tables reg) j v)" for j v
    unfolding version_row_def
    using committed_row [OF c(7) assms(2) ok monitor_keys(4) monitor_keys(2)] by simp
  have nd: "\<not> w_delete (monitor_op m (VBinary steps) (VBinary vp))" "\<not> w_delete (version_op m (VBinary d) now)"
    by (simp_all add: monitor_op_def version_op_def)
  have pos: "0 \<le> mon_version m" using cur by (simp add: next_version_def)
  have "current_version (reg_tables reg') i = mon_version m"
    using me(3) pos nd
    by (cases "row_at [(''id'', SStr i)] (reg_tables reg ''monitors'')")
      (simp_all add: current_version_def mon entry_run_def me(2) c(3) row_uint_def overlay_row_column)
  moreover have "current_version (reg_tables reg') j = current_version (reg_tables reg) j" if "j \<noteq> i" for j
    using that nd by (simp add: current_version_def mon entry_run_def me(2) c(3))
  moreover have "version_row (reg_tables reg') j v = version_row (reg_tables reg) j v" if "(j, v) \<noteq> (i, mon_version m)" for j v
    using that nd by (auto simp: ver entry_run_def ve(2) c(3))
  moreover have "\<exists>r. version_row (reg_tables reg') i (mon_version m) = Some r \<and> r ''txid'' = SStr (t_txid tr) \<and>
      r ''definition'' = SStr d"
    using nd
    by (cases "version_row (reg_tables reg) i (mon_version m)")
      (simp_all add: ver entry_run_def ve(2,3) c(3) overlay_row_column)
  moreover have "map_option SStr (write_json (x_fmt x) (monitor_json m)) = Some (SStr d)"
    using c(5) by (auto simp: json_bytes_def)
  ultimately show ?thesis using c(3,6) cur by auto
qed

lemma row_uint_same: "r' col = r col \<Longrightarrow> row_uint r' col = row_uint r col"
  by (cases "r col") (simp_all add: row_uint_def)

lemma set_enabled_versions:
  assumes "i \<noteq> TxIDPlaceholder"
  shows "current_version (reg_tables (snd (set_monitor_enabled x cd tenant now reg p i enabled message))) j =
    current_version (reg_tables reg) j"
proof (cases "snd (set_monitor_enabled x cd tenant now reg p i enabled message) = reg")
  case False
  obtain m where m: "can p PermModel" "read_monitor_def x cd (reg_tables reg) i = Inr (Some m)"
    using False by (auto simp: set_monitor_enabled_def split: if_splits sum.splits option.splits)
  let ?env = "model_envelope KindMonitorRetire (mon_service m) i p now message"
  obtain res reg' where c: "commit x tenant now reg ?env [enabled_op i enabled now] = (res, reg')" by fastforce
  have s: "snd (set_monitor_enabled x cd tenant now reg p i enabled message) = reg'"
    using m c by (simp add: set_monitor_enabled_def snd_commit_model)
  with False obtain tr where "res = Inr tr" using c commit_refused by (cases res) auto
  with c have c': "commit x tenant now reg ?env [enabled_op i enabled now] = (Inr tr, reg')" "reg' \<noteq> reg" using False s by auto
  obtain r where r: "row_at [(''id'', SStr i)] (reg_tables reg ''monitors'') = Some r"
    using m(2) by (auto simp: read_monitor_def_def split: option.splits if_splits)
  have e: "entry_ok x (t_txid tr) (enabled_op i enabled now)" "entry_key x (t_txid tr) (enabled_op i enabled now) = [(''id'', SStr i)]"
    "map_of (entry_fields x (t_txid tr) (enabled_op i enabled now)) ''version'' = None" "\<not> w_delete (enabled_op i enabled now)"
    using assms by (simp_all add: enabled_op_def entry_defs)
  have "row_at [(''id'', SStr j)] (reg_tables reg' ''monitors'') =
      rows.effect [(''id'', SStr j)] [entry_run x (t_txid tr) (enabled_op i enabled now)] (row_at [(''id'', SStr j)] (reg_tables reg ''monitors''))"
    using committed_row [OF c' _ monitor_keys(3) monitor_keys(1)] e(1) by simp
  moreover have "row_uint (overlay_row [(''id'', SStr i)] (entry_fields x (t_txid tr) (enabled_op i enabled now)) (Some r)) ''version'' =
      row_uint r ''version''"
    by (rule row_uint_same) (rule overlay_row_key(1) [OF e(3)])
  ultimately show ?thesis
    using e r by (cases "j = i") (simp_all add: s current_version_def entry_run_def)
qed simp

section \<open>The catalogue over time\<close>

text \<open>
  One operation of the catalogue, or any other commit of the service: none of those names the
  monitors' tables. An identifier \<open>NewID\<close> draws is not in use, and no monitor is called like
  the placeholder of a transaction id.
\<close>

inductive catalogue_step :: "outside \<Rightarrow> model_codec \<Rightarrow> register \<Rightarrow> register \<Rightarrow> bool" for x cd where
  service_upserted: "catalogue_step x cd reg (snd (upsert_service x tenant lead now fresh fs reg p s message))"
| component_upserted: "catalogue_step x cd reg (snd (upsert_component x tenant now fresh reg p c message))"
| monitor_published: "mon_id m \<noteq> TxIDPlaceholder \<Longrightarrow>
    (\<And>i. fresh = Some i \<Longrightarrow> i \<noteq> TxIDPlaceholder \<and> row_at [(''id'', SStr i)] (reg_tables reg ''monitors'') = None) \<Longrightarrow>
    catalogue_step x cd reg (snd (publish_monitor x cd scheme_of tenant now fresh reg p m message))"
| monitor_switched: "i \<noteq> TxIDPlaceholder \<Longrightarrow>
    catalogue_step x cd reg (snd (set_monitor_enabled x cd tenant now reg p i enabled message))"
| schedule_upserted: "catalogue_step x cd reg (snd (upsert_schedule x cd tenant now fresh reg p sc message))"
| objective_upserted: "catalogue_step x cd reg (snd (upsert_objective x cd tenant now fresh reg p ob message))"
| committed_elsewhere: "list_all (\<lambda>op. w_table op \<notin> {''monitors'', ''monitor_versions''}) ops \<Longrightarrow>
    catalogue_step x cd reg (snd (commit x tenant now reg env ops))"

text \<open>What one step may do to the versions of one monitor.\<close>

definition version_step :: "string \<Rightarrow> register \<Rightarrow> register \<Rightarrow> bool" where
  "version_step i reg reg' \<longleftrightarrow>
     (let v = current_version (reg_tables reg) i; v' = current_version (reg_tables reg') i in
      (v' = v \<or> v' = next_version v \<and> version_row (reg_tables reg') i v' \<noteq> None) \<and>
      (\<forall>w. w \<noteq> next_version v \<longrightarrow> version_row (reg_tables reg') i w = version_row (reg_tables reg) i w))"

lemma untouched_versions:
  "writes_only tabs reg reg' \<Longrightarrow> ''monitors'' \<notin> tabs \<Longrightarrow> ''monitor_versions'' \<notin> tabs \<Longrightarrow> version_step i reg reg'"
  by (simp add: writes_only_def version_step_def current_version_def version_row_def)

lemma catalogue_step_versions: "catalogue_step x cd reg reg' \<Longrightarrow> version_step i reg reg'"
proof (induction rule: catalogue_step.induct)
  case (service_upserted reg tenant lead now fresh fs p s message)
  show ?case by (rule untouched_versions [OF upsert_service_touches]) simp_all
next
  case (component_upserted reg tenant now fresh p c message)
  show ?case by (rule untouched_versions [OF upsert_component_touches]) simp_all
next
  case (schedule_upserted reg tenant now fresh p sc message)
  show ?case by (rule untouched_versions [OF upsert_schedule_touches]) simp_all
next
  case (objective_upserted reg tenant now fresh p ob message)
  show ?case by (rule untouched_versions [OF upsert_objective_touches]) simp_all
next
  case (committed_elsewhere ops reg tenant now env)
  then have "''monitors'' \<notin> w_table ` set ops" "''monitor_versions'' \<notin> w_table ` set ops" by (auto simp: list_all_iff)
  then show ?case using untouched_versions [OF commit_writes_only [OF order_refl]] by blast
next
  case (monitor_switched j reg tenant now p enabled message)
  have "version_row (reg_tables (snd (set_monitor_enabled x cd tenant now reg p j enabled message))) i w = version_row (reg_tables reg) i w" for w
    using set_monitor_enabled_touches by (simp add: writes_only_def version_row_def)
  then show ?case using set_enabled_versions [OF monitor_switched(1)] by (simp add: version_step_def)
next
  case (monitor_published m fresh reg scheme_of tenant now p message)
  let ?res = "publish_monitor x cd scheme_of tenant now fresh reg p m message"
  show ?case
  proof (cases "snd ?res = reg")
    case False
    obtain res reg' where r: "?res = (res, reg')" by fastforce
    obtain j v where e: "v = next_version (current_version (reg_tables reg) j)" "current_version (reg_tables reg') j = v"
      "\<forall>k. k \<noteq> j \<longrightarrow> current_version (reg_tables reg') k = current_version (reg_tables reg) k"
      "\<forall>k w. (k, w) \<noteq> (j, v) \<longrightarrow> version_row (reg_tables reg') k w = version_row (reg_tables reg) k w"
      "version_row (reg_tables reg') j v \<noteq> None"
      using publish_effect [OF r _ monitor_published] False r by fastforce
    then show ?thesis by (cases "i = j") (simp_all add: r version_step_def Let_def)
  qed (simp add: version_step_def Let_def)
qed

lemma current_version_nonneg: "0 \<le> current_version t i"
  by (auto simp: current_version_def row_uint_def Let_def split: option.split sqlv.split)

text \<open>
  Claim C17. A published version is never edited. Over any number of catalogue operations and
  other commits, successful or not, the version a monitor's row names never goes back, the
  definition of every version up to it keeps its row, txid and bytes included, and every
  version number passed on the way has a definition; the version counter itself wraps at
  \<open>2 ^ 64\<close>, which the bound on the number of steps keeps away.
\<close>

theorem published_versions_are_never_edited:
  assumes "(catalogue_step x cd ^^ n) reg reg'" "current_version (reg_tables reg) i + int n < 2 ^ 64"
  shows "current_version (reg_tables reg) i \<le> current_version (reg_tables reg') i \<and>
    current_version (reg_tables reg') i \<le> current_version (reg_tables reg) i + int n \<and>
    (\<forall>v. v \<le> current_version (reg_tables reg) i \<longrightarrow> version_row (reg_tables reg') i v = version_row (reg_tables reg) i v) \<and>
    (\<forall>v. current_version (reg_tables reg) i < v \<longrightarrow> v \<le> current_version (reg_tables reg') i \<longrightarrow>
      version_row (reg_tables reg') i v \<noteq> None)"
  using assms
proof (induction n arbitrary: reg')
  case (Suc n)
  then obtain reg1 where r: "(catalogue_step x cd ^^ n) reg reg1" "catalogue_step x cd reg1 reg'" by auto
  let ?v = "current_version (reg_tables reg) i" and ?v1 = "current_version (reg_tables reg1) i"
    and ?v' = "current_version (reg_tables reg') i"
  have IH: "?v \<le> ?v1" "?v1 \<le> ?v + int n" "\<forall>v\<le>?v. version_row (reg_tables reg1) i v = version_row (reg_tables reg) i v"
    "\<forall>v. ?v < v \<longrightarrow> v \<le> ?v1 \<longrightarrow> version_row (reg_tables reg1) i v \<noteq> None"
    using Suc.IH [OF r(1)] Suc.prems(2) by auto
  have nx: "next_version ?v1 = ?v1 + 1"
    using current_version_nonneg [of "reg_tables reg1" i] IH(2) Suc.prems(2) by (simp add: next_version_def)
  have st: "?v' = ?v1 \<or> ?v' = ?v1 + 1 \<and> version_row (reg_tables reg') i ?v' \<noteq> None"
    "\<forall>w. w \<noteq> ?v1 + 1 \<longrightarrow> version_row (reg_tables reg') i w = version_row (reg_tables reg1) i w"
    using catalogue_step_versions [OF r(2), of i] by (auto simp: version_step_def Let_def nx)
  show ?case
  proof (intro conjI allI impI)
    show "?v \<le> ?v'" "?v' \<le> ?v + int (Suc n)" using st(1) IH(1,2) by auto
    show "version_row (reg_tables reg') i v = version_row (reg_tables reg) i v" if "v \<le> ?v" for v
      using that IH(1,3) st(2) by simp
    show "version_row (reg_tables reg') i v \<noteq> None" if "?v < v" "v \<le> ?v'" for v
      using that IH(4) st by (cases "v = ?v1 + 1") auto
  qed
qed simp

section \<open>The agreed time of a new service\<close>

lemma always_on_minutes: "minutes_ok (always_on i service timezone now)"
  by (simp add: minutes_ok_def always_on_def list_all_iff)

lemma always_on_agreed:
  assumes "zone_ok z" "\<And>d. z_at z d 1440 = midnight z (d + 1)"
  shows "agreed_at z (always_on i service timezone now) t"
proof -
  have "weekday (z_day z t) \<in> set [0..6]" by (simp add: weekday_def)
  moreover have "z_at z (z_day z t) 0 \<le> t" "t < z_at z (z_day z t) 1440"
    using assms by (auto simp: zone_ok_def midnight_def)
  ultimately show ?thesis by (auto simp: agreed_at_def always_on_def Let_def)
qed

lemma write_json_nonempty: "write_json fmt (JObj kvs) = Some d \<Longrightarrow> d \<noteq> []"
  by auto

lemma commit_model_Inr:
  "commit_model x tenant now reg env ops f = (Inr r, reg') \<Longrightarrow> \<exists>tr. r = f tr \<and> commit x tenant now reg env ops = (Inr tr, reg')"
  by (auto simp: commit_model_def split: prod.splits sum.splits)

lemma upsert_service_writes:
  assumes "upsert_service x tenant lead now fresh fs reg p s0 message = (Inr (s', tr), reg')"
  shows "\<exists>i ops. service_writes x now fs (stored_service now i (read_service x (reg_tables reg) (svc_id s0)) (amended_service tenant lead now s0)) =
        Inr (s', ops) \<and>
      commit x tenant now reg (model_envelope KindServiceUpsert (svc_id s') (svc_id s') p now message) ops = (Inr tr, reg')"
proof -
  let ?s = "amended_service tenant lead now s0"
  let ?old = "read_service x (reg_tables reg) (svc_id ?s)"
  let ?i = "case ?old of None \<Rightarrow> id_or_fresh (svc_id ?s) fresh | Some _ \<Rightarrow> Some (svc_id ?s)"
  have sid: "svc_id ?s = svc_id s0" by (simp add: amended_service_def Let_def)
  have g: "can p PermModel" "trim_space (svc_name s0) \<noteq> []"
    using assms by (auto simp: upsert_service_def split: if_splits)
  obtain i where i: "?i = Some i"
    using assms g by (cases ?i) (simp_all add: upsert_service_def Let_def)
  obtain s2 ops where w: "service_writes x now fs (stored_service now i ?old ?s) = Inr (s2, ops)"
    using assms g i by (cases "service_writes x now fs (stored_service now i ?old ?s)") (auto simp: upsert_service_def Let_def)
  have "commit_model x tenant now reg (model_envelope KindServiceUpsert (svc_id s2) (svc_id s2) p now message) ops (Pair s2) =
      (Inr (s', tr), reg')"
    using assms g i w by (simp add: upsert_service_def Let_def)
  then have "s2 = s'" "commit x tenant now reg (model_envelope KindServiceUpsert (svc_id s2) (svc_id s2) p now message) ops = (Inr tr, reg')"
    by (auto dest!: commit_model_Inr)
  with i w show ?thesis by (auto simp: sid)
qed


section \<open>Instances\<close>

definition sample_modeller :: principal where
  "sample_modeller = grant [PermModel] (anonymous ''t'')"

definition sample_shop :: service where
  "sample_shop =
     \<lparr>svc_id = ''svc'', svc_tenant = ''t'', svc_name = ''Shop'', svc_slug = ''shop'', svc_description = [],
      svc_timezone = ''UTC'', svc_schedule = [], svc_visibility = ''public'', svc_lead = 3600, svc_coverage_floor = 990000,
      svc_callback = [], svc_created = 1790000000, svc_updated = 1790000000\<rparr>"

definition sample_codec_of :: "schedule \<Rightarrow> codec" where
  "sample_codec_of sc = \<lparr>j_schedule = (\<lambda>_. Some sc), j_credits = (\<lambda>_. None)\<rparr>"

lemma sample_shop_created:
  "\<exists>tr reg'. upsert_service sample_outside ''t'' 3600 1790000000 None (Some ''sch_1'') sample_register sample_modeller
      sample_shop ''Create the shop'' = (Inr (sample_shop\<lparr>svc_schedule := ''sch_1''\<rparr>, tr), reg') \<and> reg' \<noteq> sample_register"
proof -
  let ?s = "sample_shop\<lparr>svc_schedule := ''sch_1''\<rparr>" and ?sc = "always_on ''sch_1'' ''svc'' ''UTC'' 1790000000"
  obtain d where d: "write_json Some (schedule_json ?sc) = Some d" using write_json_total by blast
  define op where "op = \<lparr>w_table = ''schedules'', w_key = [(''id'', VStr (sc_id ?sc))],
        w_values = [(''service_id'', VStr (sc_service ?sc)), (''name'', VStr (sc_name ?sc)), (''timezone'', VStr (sc_timezone ?sc)),
          (''version'', VUint64 (sc_version ?sc)), (''definition'', VBinary d), (''created_at'', VInt64 (sc_created ?sc)),
          (''updated_at'', VInt64 (sc_updated ?sc))],
        w_delete = False\<rparr>"
  have op: "schedule_op sample_outside ?sc = Some op"
    using d by (simp add: schedule_op_def json_bytes_def op_def sample_outside_def)
  let ?env = "model_envelope KindServiceUpsert ''svc'' ''svc'' sample_modeller 1790000000 ''Create the shop''"
  have "list_all (entry_ok sample_outside txid) [service_op ?s, op]" for txid
    by (simp add: service_op_def op_def sample_shop_def always_on_def entry_defs TxIDPlaceholder_def)
  moreover have "validate_envelope (fill_envelope ''t'' 1790000000 ?env) = None" by code_simp
  moreover have "check_ops [service_op ?s, op] = None" by (simp add: service_op_def op_def pk_columns_def)
  ultimately obtain tr reg' where c: "commit sample_outside ''t'' 1790000000 sample_register ?env [service_op ?s, op] = (Inr tr, reg')"
    "reg' \<noteq> sample_register"
    using commit_goes_through [of sample_outside "''t''" 1790000000 ?env "[service_op ?s, op]" sample_register]
    by (auto simp: sample_outside_def model_envelope_def sample_register_def)
  have g: "can sample_modeller PermModel" "trim_space ''Shop'' \<noteq> []" by code_simp+
  have a: "amended_service ''t'' 3600 1790000000 sample_shop = sample_shop"
    by (simp add: amended_service_def sample_shop_def Let_def)
  have r: "read_service sample_outside (reg_tables sample_register) ''svc'' = None"
    by (simp add: read_service_def sample_register_def row_at_def)
  have f: "svc_id sample_shop = ''svc''" "svc_name sample_shop = ''Shop''" "svc_schedule sample_shop = []"
    "svc_timezone sample_shop = ''UTC''" by (simp_all add: sample_shop_def)
  have st: "stored_service 1790000000 ''svc'' None sample_shop = sample_shop" by (simp add: stored_service_def sample_shop_def)
  have "service_writes sample_outside 1790000000 (Some ''sch_1'') sample_shop = Inr (?s, [service_op ?s, op])"
    using op by (simp add: service_writes_def f)
  then have "upsert_service sample_outside ''t'' 3600 1790000000 None (Some ''sch_1'') sample_register sample_modeller
      sample_shop ''Create the shop'' = (Inr (?s, tr), reg')"
    using g c(1) by (simp add: upsert_service_def Let_def a r f st id_or_fresh_def commit_model_def)
  with c(2) show ?thesis by blast
qed


definition sample_home :: monitor_def where
  "sample_home =
     \<lparr>mon_id = ''mon_1'', mon_service = [], mon_component = ''web'', mon_name = ''Home page'', mon_version = 0,
      mon_enabled = False, mon_interval = 60, mon_timeout = 30, mon_failure = 2, mon_recovery = 2, mon_budget = 0,
      mon_engine = [], mon_created = 0, mon_updated = 1790000000, md_viewport = \<lparr>vp_width = 0, vp_height = 0, vp_ocr = False\<rparr>,
      md_steps = [\<lparr>st_name = ''get'', st_kind = ''http'', st_cleanup = False, st_method = ''GET'', st_url = ''https://shop/'',
        st_headers = [], st_body = [], st_expect = [], st_follow = False, st_assertions = [], st_extractions = [], st_sleep = 0,
        bs_selector = [], bs_value = [], bs_key = [], bs_expression = [], bs_visible = False, bs_full = False, bs_capture = False,
        bs_screenshot = None, bs_timeout = 0\<rparr>]\<rparr>"

definition sample_model_register :: register where
  "sample_model_register =
     \<lparr>reg_tables = (\<lambda>tab. if tab = ''components'' then [sample_row [(''id'', SStr ''web''), (''service_id'', SStr ''svc'')]] else []),
      reg_log = [], reg_root = [], reg_version = 0\<rparr>"

definition sample_model_codec :: model_codec where
  "sample_model_codec = \<lparr>j_schedule = (\<lambda>_. None), j_credits = (\<lambda>_. None), j_steps = (\<lambda>_. None), j_viewport = (\<lambda>_. None)\<rparr>"

lemma sample_home_published:
  "\<exists>m tr reg'. publish_monitor sample_outside sample_model_codec (\<lambda>_. Some ''https'') ''t'' 1790000000 None sample_model_register
      sample_modeller sample_home ''Watch the home page'' = (Inr (m, tr), reg') \<and> reg' \<noteq> sample_model_register"
proof -
  have d: "defaulted_monitor 1790000000 sample_home = sample_home" by (simp add: defaulted_monitor_def sample_home_def Let_def)
  have v: "validate_monitor (\<lambda>_. Some ''https'') sample_home = None" by code_simp
  have "map_option cmp_service (read_component sample_outside (reg_tables sample_model_register) ''web'') = Some ''svc''" by code_simp
  then obtain c where c: "read_component sample_outside (reg_tables sample_model_register) ''web'' = Some c" "cmp_service c = ''svc''" by auto
  have e: "read_monitor_def sample_outside sample_model_codec (reg_tables sample_model_register) ''mon_1'' = Inr None"
    by (simp add: read_monitor_def_def sample_model_register_def row_at_def)
  define m where "m = versioned_monitor 1790000000 ''mon_1'' None (sample_home\<lparr>mon_service := ''svc''\<rparr>)"
  obtain a b d' where js: "json_bytes sample_outside (steps_json (md_steps m)) = Some (VBinary a)"
    "json_bytes sample_outside (viewport_json (md_viewport m)) = Some (VBinary b)"
    "json_bytes sample_outside (monitor_json m) = Some (VBinary d')"
    using write_json_total unfolding json_bytes_def by (simp add: sample_outside_def) (metis option.exhaust)
  let ?env = "model_envelope KindMonitorUpsert ''svc'' ''mon_1'' sample_modeller 1790000000 ''Watch the home page''"
  let ?ops = "[monitor_op m (VBinary a) (VBinary b), version_op m (VBinary d') 1790000000]"
  have i: "mon_id m = ''mon_1''" "mon_service m = ''svc''" by (simp_all add: m_def versioned_monitor_def sample_home_def)
  have "list_all (entry_ok sample_outside txid) ?ops" for txid
    using monitor_op_entry(1) version_op_entry(1) by (simp add: i TxIDPlaceholder_def)
  moreover have "validate_envelope (fill_envelope ''t'' 1790000000 ?env) = None" by code_simp
  moreover have "check_ops ?ops = None" by (simp add: monitor_op_def version_op_def pk_columns_def)
  ultimately obtain tr reg' where r: "commit sample_outside ''t'' 1790000000 sample_model_register ?env ?ops = (Inr tr, reg')"
    "reg' \<noteq> sample_model_register"
    using commit_goes_through [of sample_outside "''t''" 1790000000 ?env ?ops sample_model_register]
    by (auto simp: sample_outside_def model_envelope_def sample_model_register_def)
  have g: "can sample_modeller PermModel" by code_simp
  have f: "mon_id sample_home = ''mon_1''" "mon_component sample_home = ''web''" by (simp_all add: sample_home_def)
  have "publish_monitor sample_outside sample_model_codec (\<lambda>_. Some ''https'') ''t'' 1790000000 None sample_model_register
      sample_modeller sample_home ''Watch the home page'' = (Inr (m, tr), reg')"
    using g r(1) by (simp add: publish_monitor_def Let_def d v f c e id_or_fresh_def js i commit_model_def flip: m_def)
  with r(2) show ?thesis by blast
qed

theorem published_versions_are_never_edited_witness:
  "\<exists>m tr reg'. publish_monitor sample_outside sample_model_codec (\<lambda>_. Some ''https'') ''t'' 1790000000 None sample_model_register
      sample_modeller sample_home ''Watch the home page'' = (Inr (m, tr), reg') \<and>
    current_version (reg_tables reg') ''mon_1'' = 1 \<and> version_row (reg_tables reg') ''mon_1'' 1 \<noteq> None"
proof -
  obtain m tr reg' where p: "publish_monitor sample_outside sample_model_codec (\<lambda>_. Some ''https'') ''t'' 1790000000 None sample_model_register
      sample_modeller sample_home ''Watch the home page'' = (Inr (m, tr), reg')" "reg' \<noteq> sample_model_register"
    using sample_home_published by blast
  have n: "mon_id sample_home \<noteq> TxIDPlaceholder" by (simp add: sample_home_def TxIDPlaceholder_def)
  have "catalogue_step sample_outside sample_model_codec sample_model_register (snd (publish_monitor sample_outside sample_model_codec
      (\<lambda>_. Some ''https'') ''t'' 1790000000 None sample_model_register sample_modeller sample_home ''Watch the home page''))"
    by (rule monitor_published [OF n]) simp
  then have s: "(catalogue_step sample_outside sample_model_codec ^^ 1) sample_model_register reg'"
    using p(1) by (metis relpowp_1 snd_conv)
  have z: "current_version (reg_tables sample_model_register) i = 0" for i
    by (simp add: current_version_def sample_model_register_def row_at_def)
  obtain i where i: "i = mon_id m" "current_version (reg_tables reg') i = 1"
    using publish_effect [OF p n] z by (auto simp: next_version_def)
  have "mon_id m = ''mon_1''"
    by (rule publish_cases [OF p]) (simp_all add: sample_home_def)
  then show ?thesis
    using published_versions_are_never_edited [OF s, of "''mon_1''"] p(1) i z by auto
qed

section \<open>What the allowlist admits\<close>

text \<open>An entry of the allowlist names a host: itself, with or without a port, or the subtree of a dotted entry.\<close>

definition names_host :: "string \<Rightarrow> string \<Rightarrow> bool" where
  "names_host e host \<longleftrightarrow>
     (let e' = clean_host e in
      e' \<noteq> [] \<and>
      (if has_prefix e' ''.'' then has_suffix (host_only host) e' \<or> host_only host = trim_dot e'
       else host_only host = e' \<or> to_lower host = e'))"

lemma al_add_check: "al_check (al_add a e) host \<longleftrightarrow> al_check a host \<or> names_host e host"
  by (auto simp: al_add_def al_check_def names_host_def Let_def list_ex_iff)

lemma al_foldl_check: "al_check (foldl al_add a es) host \<longleftrightarrow> al_check a host \<or> list_ex (\<lambda>e. names_host e host) es"
  by (induction es arbitrary: a) (auto simp: al_add_check)

lemma al_replace_check:
  "\<not> al_open a \<Longrightarrow> al_check (al_replace a es) host \<longleftrightarrow> list_ex (\<lambda>e. names_host e host) es"
  by (simp add: al_replace_def al_foldl_check) (simp add: al_check_def)

lemma refresh_egress_check:
  assumes "\<not> al_open a"
  shows "\<exists>a'. refresh_egress x cd callback_hosts t (Some a) = Some a' \<and>
    (\<forall>host. al_check a' host \<longleftrightarrow> list_ex (\<lambda>e. names_host e host) (declared_hosts x cd callback_hosts t))"
  using al_replace_check [OF assms] by (simp add: refresh_egress_def assms list_ex_iff)

lemma upsert_monitor_egress:
  assumes "upsert_monitor x cd scheme_of callback_hosts tenant now fresh (reg, Some a) p m0 message = (Inr r, reg', al')" "\<not> al_open a"
  shows "\<exists>a'. al' = Some a' \<and>
    (\<forall>host. al_check a' host \<longleftrightarrow> list_ex (\<lambda>e. names_host e host) (declared_hosts x cd callback_hosts (reg_tables reg')))"
  using assms(1) refresh_egress_check [OF assms(2)]
  by (auto simp: upsert_monitor_def split: prod.splits sum.splits)

end
