(* ===== verification/Response.thy ===== *)
theory Response
  imports Report Auth Writes
begin

text \<open>
  Incidents handled by people (\<open>internal/core/incidents.go\<close>): opening one, adding to its
  timeline and moving its status, and the reads of the status page. What \<open>NewID\<close> draws is a
  parameter.
\<close>

section \<open>Data\<close>

record incident_update =
  iu_id :: string
  iu_incident :: string
  iu_status :: string
  iu_body :: string
  iu_created :: int
  iu_author :: author
  iu_txid :: string

abbreviation IncidentResolved :: string where "IncidentResolved \<equiv> ''resolved''"

definition IncidentStatuses :: "string list" where
  "IncidentStatuses = [''investigating'', ''identified'', ''monitoring'', IncidentResolved]"

definition valid_status :: "string \<Rightarrow> bool" where
  "valid_status s \<longleftrightarrow> s \<in> set IncidentStatuses"

abbreviation KindIncidentOpen :: string where "KindIncidentOpen \<equiv> ''incident.open''"
abbreviation KindIncidentUpdate :: string where "KindIncidentUpdate \<equiv> ''incident.update''"

datatype response_error =
    MayNotRespond string
  | IncidentNeedsServiceAndTitle
  | NothingSaid
  | NotAStatus string
  | NoSuchIncident string
  | IDNotDrawn
  | ResponseNotCommitted commit_error

section \<open>Reads\<close>

definition read_incident :: "outside \<Rightarrow> tables \<Rightarrow> string \<Rightarrow> service_incident option" where
  "read_incident x t i = map_option (incident_from_row x) (row_at [(''id'', SStr i)] (t ''incidents''))"

definition update_from_row :: "outside \<Rightarrow> string \<Rightarrow> sql_row \<Rightarrow> incident_update" where
  "update_from_row x incident r =
     (let s = row_str (x_ftext x) r in
      \<lparr>iu_id = s ''id'', iu_incident = incident, iu_status = s ''status'', iu_body = s ''body'',
       iu_created = row_int r ''created_at'',
       iu_author = \<lparr>au_sub = s ''author_sub'', au_display = s ''author_display'', au_role = s ''author_role''\<rparr>,
       iu_txid = s ''txid''\<rparr>)"

definition incident_updates :: "outside \<Rightarrow> tables \<Rightarrow> string \<Rightarrow> incident_update list" where
  "incident_updates x t incident =
     map (update_from_row x incident)
       (sort_key (\<lambda>r. - row_int r ''created_at'') (filter (\<lambda>r. r ''incident_id'' = SStr incident) (t ''incident_updates'')))"

text \<open>\<open>Incident\<close>, \<open>Incidents\<close> and \<open>OpenIncidents\<close>, each incident with its timeline.\<close>

definition incident_with_updates :: "outside \<Rightarrow> tables \<Rightarrow> string \<Rightarrow> (service_incident \<times> incident_update list) option" where
  "incident_with_updates x t i = map_option (\<lambda>inc. (inc, incident_updates x t i)) (read_incident x t i)"

definition with_timeline :: "outside \<Rightarrow> tables \<Rightarrow> sql_row \<Rightarrow> service_incident \<times> incident_update list" where
  "with_timeline x t r = (let inc = incident_from_row x r in (inc, incident_updates x t (si_id inc)))"

definition list_incidents :: "outside \<Rightarrow> tables \<Rightarrow> string \<Rightarrow> int \<Rightarrow> int \<Rightarrow> int \<Rightarrow> (service_incident \<times> incident_update list) list" where
  "list_incidents x t service frm to limit =
     (let limit = (if limit \<le> 0 \<or> limit > 200 then 50 else limit) in
      map (with_timeline x t) (take (nat limit) (sort_key (\<lambda>r. - row_int r ''opened_at'')
        (filter (\<lambda>r. (service \<noteq> [] \<longrightarrow> r ''service_id'' = SStr service) \<and>
             (frm > 0 \<longrightarrow> sql_gt (r ''opened_at'') (frm - 1)) \<and> (to > 0 \<longrightarrow> sql_lt (r ''opened_at'') to))
           (t ''incidents'')))))"

definition unresolved_incidents :: "outside \<Rightarrow> tables \<Rightarrow> string \<Rightarrow> (service_incident \<times> incident_update list) list" where
  "unresolved_incidents x t service =
     map (with_timeline x t) (take 50 (sort_key (\<lambda>r. - row_int r ''opened_at'')
       (filter (\<lambda>r. r ''service_id'' = SStr service \<and> r ''status'' \<noteq> SNull \<and> r ''status'' \<noteq> SStr IncidentResolved)
         (t ''incidents''))))"

section \<open>Operations\<close>

definition incident_op :: "service_incident \<Rightarrow> int \<Rightarrow> write_op" where
  "incident_op inc now =
     \<lparr>w_table = ''incidents'', w_key = [(''id'', VStr (si_id inc))],
      w_values =
        [(''service_id'', VStr (si_service inc)), (''title'', VStr (clip_str (si_title inc) 255)),
         (''impact'', VStr (si_impact inc)), (''status'', VStr (si_status inc)),
         (''components'', VStr (clip_str (csv (si_components inc)) 1024)), (''opened_at'', VInt64 now),
         (''resolved_at'', VInt64 0), (''auto'', VBool False), (''trigger_samples'', VStr []),
         (''txid'', VStr TxIDPlaceholder)],
      w_delete = False\<rparr>"

definition timeline_op :: "string \<Rightarrow> string \<Rightarrow> string \<Rightarrow> string \<Rightarrow> principal \<Rightarrow> int \<Rightarrow> write_op" where
  "timeline_op i incident status body p now =
     \<lparr>w_table = ''incident_updates'', w_key = [(''id'', VStr i)],
      w_values =
        [(''incident_id'', VStr incident), (''status'', VStr status), (''body'', VStr (clip_str body 4096)),
         (''author_sub'', VStr (pr_sub p)), (''author_display'', VStr (pr_display p)), (''author_role'', VStr (pr_acting p)),
         (''created_at'', VInt64 now), (''txid'', VStr TxIDPlaceholder)],
      w_delete = False\<rparr>"

text \<open>The status, and with it the moment of resolution.\<close>

definition status_op :: "string \<Rightarrow> string \<Rightarrow> string \<Rightarrow> int \<Rightarrow> write_op" where
  "status_op incident old status now =
     \<lparr>w_table = ''incidents'', w_key = [(''id'', VStr incident)],
      w_values = (''status'', VStr status) #
        (if status = IncidentResolved then [(''resolved_at'', VInt64 now)]
         else if old = IncidentResolved then [(''resolved_at'', VInt64 0)] else []),
      w_delete = False\<rparr>"

definition response_envelope :: "string \<Rightarrow> string \<Rightarrow> string \<Rightarrow> principal \<Rightarrow> int \<Rightarrow> string \<Rightarrow> ref list \<Rightarrow> envelope" where
  "response_envelope kind service i p now message refs =
     \<lparr>env_kind = kind, env_tenant = [], env_service = service, env_object_ids = [i],
      env_author = author_of p, env_timestamp = now, env_message = message, env_refs = refs\<rparr>"

text \<open>\<open>fresh\<close> and \<open>update_id\<close> are what the two calls of \<open>NewID\<close> came back with.\<close>

definition open_incident :: "outside \<Rightarrow> string \<Rightarrow> int \<Rightarrow> string option \<Rightarrow> string option \<Rightarrow> register \<Rightarrow> principal \<Rightarrow>
    service_incident \<Rightarrow> string \<Rightarrow> string \<Rightarrow> (response_error + service_incident \<times> tx_row) \<times> register" where
  "open_incident x tenant now fresh update_id reg p inc0 body message =
     (if \<not> can p PermRespond then (Inl (MayNotRespond (pr_acting p)), reg)
      else if si_service inc0 = [] \<or> trim_space (si_title inc0) = [] then (Inl IncidentNeedsServiceAndTitle, reg)
      else if trim_space body = [] then (Inl NothingSaid, reg)
      else
        let inc1 = inc0\<lparr>si_impact := (if si_impact inc0 = [] then ''minor'' else si_impact inc0),
                        si_status := (if si_status inc0 = [] then ''investigating'' else si_status inc0),
                        si_opened := now, si_auto := False\<rparr>
        in case (if si_id inc1 = [] then fresh else Some (si_id inc1), update_id) of
             (Some i, Some u) \<Rightarrow>
               let inc = inc1\<lparr>si_id := i\<rparr> in
               (case commit x tenant now reg
                  (response_envelope KindIncidentOpen (si_service inc) i p now message [])
                  [incident_op inc now, timeline_op u i (si_status inc) body p now] of
                  (Inl e, reg') \<Rightarrow> (Inl (ResponseNotCommitted e), reg')
                | (Inr tr, reg') \<Rightarrow> (Inr (inc, tr), reg'))
           | _ \<Rightarrow> (Inl IDNotDrawn, reg))"

definition update_incident :: "outside \<Rightarrow> string \<Rightarrow> int \<Rightarrow> string option \<Rightarrow> register \<Rightarrow> principal \<Rightarrow> string \<Rightarrow> string \<Rightarrow> string \<Rightarrow>
    string \<Rightarrow> (response_error + incident_update \<times> tx_row) \<times> register" where
  "update_incident x tenant now update_id reg p incident status body message =
     (if \<not> can p PermRespond then (Inl (MayNotRespond (pr_acting p)), reg)
      else if trim_space body = [] then (Inl NothingSaid, reg)
      else if \<not> valid_status status then (Inl (NotAStatus status), reg)
      else case read_incident x (reg_tables reg) incident of
        None \<Rightarrow> (Inl (NoSuchIncident incident), reg)
      | Some inc \<Rightarrow>
          (case update_id of
             None \<Rightarrow> (Inl IDNotDrawn, reg)
           | Some u \<Rightarrow>
               (case commit x tenant now reg
                  (response_envelope KindIncidentUpdate (si_service inc) incident p now message
                     [\<lparr>ref_type = ''relates'', ref_target = incident\<rparr>])
                  [timeline_op u incident status body p now, status_op incident (si_status inc) status now] of
                  (Inl e, reg') \<Rightarrow> (Inl (ResponseNotCommitted e), reg')
                | (Inr tr, reg') \<Rightarrow>
                    (Inr (\<lparr>iu_id = u, iu_incident = incident, iu_status = status, iu_body = body, iu_created = now,
                           iu_author = author_of p, iu_txid = t_txid tr\<rparr>, tr), reg'))))"

section \<open>What an update does\<close>

lemma incident_keys:
  "pk_columns ''incidents'' = Some [''id'']" "pk_columns ''incident_updates'' = Some [''id'']"
  "valid_key [''id''] [(''id'', SStr i)]"
  by (simp_all add: pk_columns_def valid_key_def)

lemma timeline_op_entry:
  assumes "TxIDPlaceholder \<notin> {u, incident, status, clip_str body 4096, pr_sub p, pr_display p, pr_acting p}"
  shows "entry_ok x txid (timeline_op u incident status body p now)"
    "entry_run x txid (timeline_op u incident status body p now) =
      ([(''id'', SStr u)], Some [(''incident_id'', SStr incident), (''status'', SStr status), (''body'', SStr (clip_str body 4096)),
        (''author_sub'', SStr (pr_sub p)), (''author_display'', SStr (pr_display p)), (''author_role'', SStr (pr_acting p)),
        (''created_at'', SInt now), (''txid'', SStr txid)])"
    "w_table (timeline_op u incident status body p now) = ''incident_updates''"
  using assms by (auto simp: timeline_op_def entry_defs)

lemma status_op_entry:
  assumes "TxIDPlaceholder \<notin> {incident, status}"
  shows "entry_ok x txid (status_op incident old status now)"
    "entry_run x txid (status_op incident old status now) =
      ([(''id'', SStr incident)], Some ((''status'', SStr status) #
        (if status = IncidentResolved then [(''resolved_at'', SInt now)]
         else if old = IncidentResolved then [(''resolved_at'', SInt 0)] else [])))"
    "w_table (status_op incident old status now) = ''incidents''"
  using assms by (auto simp: status_op_def entry_defs)

lemma update_cases:
  assumes "update_incident x tenant now update_id reg p incident status body message = (Inr (u, tr), reg')"
  obtains old i where "can p PermRespond" "valid_status status" "trim_space body \<noteq> []" "update_id = Some i"
    "read_incident x (reg_tables reg) incident = Some old"
    "u = \<lparr>iu_id = i, iu_incident = incident, iu_status = status, iu_body = body, iu_created = now,
       iu_author = author_of p, iu_txid = t_txid tr\<rparr>"
    "commit x tenant now reg (response_envelope KindIncidentUpdate (si_service old) incident p now message
         [\<lparr>ref_type = ''relates'', ref_target = incident\<rparr>])
       [timeline_op i incident status body p now, status_op incident (si_status old) status now] = (Inr tr, reg')"
proof -
  have g: "can p PermRespond" "trim_space body \<noteq> []" "valid_status status"
    using assms by (auto simp: update_incident_def split: if_splits)
  obtain old where old: "read_incident x (reg_tables reg) incident = Some old"
    using assms g by (auto simp: update_incident_def split: option.splits)
  obtain i where i: "update_id = Some i"
    using assms g old by (auto simp: update_incident_def split: option.splits)
  show thesis
    using assms g old i by (intro that [of i old]) (auto simp: update_incident_def split: prod.splits sum.splits)
qed

lemma overlay_status:
  assumes "in_i64 now"
  shows "incident_from_row x (overlay_row [(''id'', SStr i)] ((''status'', SStr status) #
        (if status = IncidentResolved then [(''resolved_at'', SInt now)]
         else if si_status (incident_from_row x r) = IncidentResolved then [(''resolved_at'', SInt 0)] else [])) (Some r)) =
    (incident_from_row x r)\<lparr>si_status := status,
      si_resolved := (if status = IncidentResolved then now
        else if si_status (incident_from_row x r) = IncidentResolved then 0 else si_resolved (incident_from_row x r))\<rparr>"
  using assms
  by (auto simp: incident_from_row_def overlay_row_def set_columns_def Let_def row_str_def row_int_def row_bool_def as_int_def i64_id)

text \<open>
  Claim C18. An incident's timeline only grows, and each update moves the status and nothing
  else. When a person with the permission to respond updates an incident, every entry of every
  timeline stays as it was; the new entry reads back with the status, the words, the moment
  and the author, and names the transaction that holds it; the incident is what it was before
  but for its status, and is resolved from that moment exactly when that status says so; no
  other incident changes.
\<close>

theorem timelines_only_grow:
  assumes "update_incident x tenant now update_id reg p incident status body message = (Inr (u, tr), reg')" "reg' \<noteq> reg"
    and "in_i64 now" "row_at [(''id'', SStr (iu_id u))] (reg_tables reg ''incident_updates'') = None"
    and "TxIDPlaceholder \<notin> {iu_id u, incident, status, clip_str body 4096, pr_sub p, pr_display p, pr_acting p}"
  shows "can p PermRespond \<and> valid_status status \<and>
    (\<forall>j r. row_at [(''id'', SStr j)] (reg_tables reg ''incident_updates'') = Some r \<longrightarrow>
       row_at [(''id'', SStr j)] (reg_tables reg' ''incident_updates'') = Some r) \<and>
    (\<exists>r. row_at [(''id'', SStr (iu_id u))] (reg_tables reg' ''incident_updates'') = Some r \<and>
       update_from_row x incident r = u\<lparr>iu_body := clip_str body 4096\<rparr> \<and>
       iu_status u = status \<and> iu_body u = body \<and> iu_created u = now \<and> iu_author u = author_of p \<and> iu_txid u = t_txid tr) \<and>
    (\<exists>old. read_incident x (reg_tables reg) incident = Some old \<and>
       read_incident x (reg_tables reg') incident = Some (old\<lparr>si_status := status,
         si_resolved := (if status = IncidentResolved then now
           else if si_status old = IncidentResolved then 0 else si_resolved old)\<rparr>)) \<and>
    (\<forall>j. j \<noteq> incident \<longrightarrow> read_incident x (reg_tables reg') j = read_incident x (reg_tables reg) j)"
proof -
  obtain old i where c: "can p PermRespond" "valid_status status" "read_incident x (reg_tables reg) incident = Some old"
    "u = \<lparr>iu_id = i, iu_incident = incident, iu_status = status, iu_body = body, iu_created = now,
       iu_author = author_of p, iu_txid = t_txid tr\<rparr>"
    "commit x tenant now reg (response_envelope KindIncidentUpdate (si_service old) incident p now message
         [\<lparr>ref_type = ''relates'', ref_target = incident\<rparr>])
       [timeline_op i incident status body p now, status_op incident (si_status old) status now] = (Inr tr, reg')"
    using update_cases [OF assms(1)] by metis
  have i: "iu_id u = i" using c(4) by simp
  have np: "TxIDPlaceholder \<notin> {i, incident, status, clip_str body 4096, pr_sub p, pr_display p, pr_acting p}" "TxIDPlaceholder \<notin> {incident, status}"
    using assms(5) i by auto
  note te = timeline_op_entry(1,2) [OF np(1), of x "t_txid tr" now] timeline_op_entry(3) [OF np(1)]
    and se = status_op_entry(1,2) [OF np(2), of x "t_txid tr" "si_status old" now] status_op_entry(3) [OF np(2)]
  have ok: "list_all (entry_ok x (t_txid tr)) [timeline_op i incident status body p now, status_op incident (si_status old) status now]"
    using te se by simp
  have tl: "row_at [(''id'', SStr j)] (reg_tables reg' ''incident_updates'') =
      rows.effect [(''id'', SStr j)] [entry_run x (t_txid tr) (timeline_op i incident status body p now)]
        (row_at [(''id'', SStr j)] (reg_tables reg ''incident_updates''))" for j
    using committed_row [OF c(5) assms(2) ok incident_keys(2,3)] te(3) se(3) by simp
  have inc: "row_at [(''id'', SStr j)] (reg_tables reg' ''incidents'') =
      rows.effect [(''id'', SStr j)] [entry_run x (t_txid tr) (status_op incident (si_status old) status now)]
        (row_at [(''id'', SStr j)] (reg_tables reg ''incidents''))" for j
    using committed_row [OF c(5) assms(2) ok incident_keys(1,3)] te(3) se(3) by simp
  obtain r where r: "row_at [(''id'', SStr incident)] (reg_tables reg ''incidents'') = Some r" "old = incident_from_row x r"
    using c(3) by (auto simp: read_incident_def)
  have kept: "row_at [(''id'', SStr j)] (reg_tables reg' ''incident_updates'') = Some q"
    if "row_at [(''id'', SStr j)] (reg_tables reg ''incident_updates'') = Some q" for j q
  proof -
    have "j \<noteq> i" using that assms(4) i by auto
    then show ?thesis using that by (simp add: tl te(2))
  qed
  have new: "\<exists>q. row_at [(''id'', SStr i)] (reg_tables reg' ''incident_updates'') = Some q \<and>
      update_from_row x incident q = u\<lparr>iu_body := clip_str body 4096\<rparr>"
    using assms(3,4) i
    by (simp add: tl te(2) c(4) overlay_row_def update_from_row_def Let_def set_columns_def row_str_def row_int_def as_int_def
        i64_id author_of_def)
  have row': "row_at [(''id'', SStr incident)] (reg_tables reg' ''incidents'') =
      Some (overlay_row [(''id'', SStr incident)] ((''status'', SStr status) #
        (if status = IncidentResolved then [(''resolved_at'', SInt now)]
         else if si_status old = IncidentResolved then [(''resolved_at'', SInt 0)] else [])) (Some r))"
    unfolding inc se(2) r(1) rows.effect.simps by (simp only: simp_thms if_True option.case)
  have mine: "read_incident x (reg_tables reg') incident = Some (old\<lparr>si_status := status,
         si_resolved := (if status = IncidentResolved then now
           else if si_status old = IncidentResolved then 0 else si_resolved old)\<rparr>)"
    unfolding read_incident_def row' r(2) overlay_status [OF assms(3)] option.map ..
  have other: "read_incident x (reg_tables reg') j = read_incident x (reg_tables reg) j" if "j \<noteq> incident" for j
    using that by (simp add: read_incident_def inc se(2))
  show ?thesis using c(1-4) i kept new mine other by simp
qed

section \<open>Instances\<close>

definition sample_responder :: principal where
  "sample_responder = grant [PermRespond] (anonymous ''t'')"

definition sample_outage_register :: register where
  "sample_outage_register =
     \<lparr>reg_tables = (\<lambda>tab. if tab = ''incidents'' then [sample_row [(''id'', SStr ''inc_1''), (''service_id'', SStr ''svc''),
        (''status'', SStr ''investigating''), (''opened_at'', SInt 1790000000), (''resolved_at'', SInt 0)]] else []),
      reg_log = [], reg_root = [], reg_version = 0\<rparr>"

lemma sample_resolved:
  "\<exists>u tr reg'. update_incident sample_outside ''t'' 1790000600 (Some ''iup_1'') sample_outage_register sample_responder ''inc_1''
      IncidentResolved ''Fixed'' ''Resolve the outage'' = (Inr (u, tr), reg') \<and> reg' \<noteq> sample_outage_register \<and> iu_id u = ''iup_1''"
proof -
  have "map_option (\<lambda>i. (si_service i, si_status i)) (read_incident sample_outside (reg_tables sample_outage_register) ''inc_1'') =
      Some (''svc'', ''investigating'')" by code_simp
  then obtain old where old: "read_incident sample_outside (reg_tables sample_outage_register) ''inc_1'' = Some old"
    "si_service old = ''svc''" "si_status old = ''investigating''" by auto
  let ?env = "response_envelope KindIncidentUpdate ''svc'' ''inc_1'' sample_responder 1790000600 ''Resolve the outage''
    [\<lparr>ref_type = ''relates'', ref_target = ''inc_1''\<rparr>]"
  let ?ops = "[timeline_op ''iup_1'' ''inc_1'' IncidentResolved ''Fixed'' sample_responder 1790000600,
    status_op ''inc_1'' ''investigating'' IncidentResolved 1790000600]"
  have "list_all (entry_ok sample_outside txid) ?ops" for txid
    by (simp add: timeline_op_def status_op_def entry_defs)
  moreover have "validate_envelope (fill_envelope ''t'' 1790000600 ?env) = None" by code_simp
  moreover have "check_ops ?ops = None" by (simp add: timeline_op_def status_op_def pk_columns_def)
  ultimately obtain tr reg' where r: "commit sample_outside ''t'' 1790000600 sample_outage_register ?env ?ops = (Inr tr, reg')"
    "reg' \<noteq> sample_outage_register"
    using commit_succeeds [of sample_outside "''t''" 1790000600 ?env ?ops sample_outage_register]
    by (auto simp: sample_outside_def sample_outage_register_def)
  have g: "can sample_responder PermRespond" "trim_space ''Fixed'' \<noteq> []" "valid_status IncidentResolved" by code_simp+
  show ?thesis using g old r by (simp add: update_incident_def)
qed

theorem timelines_only_grow_witness:
  "\<exists>u tr reg' inc. update_incident sample_outside ''t'' 1790000600 (Some ''iup_1'') sample_outage_register sample_responder ''inc_1''
      IncidentResolved ''Fixed'' ''Resolve the outage'' = (Inr (u, tr), reg') \<and>
    read_incident sample_outside (reg_tables reg') ''inc_1'' = Some inc \<and> si_status inc = IncidentResolved \<and>
    si_resolved inc = 1790000600 \<and> si_opened inc = 1790000000"
proof -
  obtain u tr reg' where u: "update_incident sample_outside ''t'' 1790000600 (Some ''iup_1'') sample_outage_register sample_responder
      ''inc_1'' IncidentResolved ''Fixed'' ''Resolve the outage'' = (Inr (u, tr), reg')" "reg' \<noteq> sample_outage_register" "iu_id u = ''iup_1''"
    using sample_resolved by blast
  have n: "in_i64 1790000600" by (simp add: in_i64_def)
  have f: "row_at [(''id'', SStr (iu_id u))] (reg_tables sample_outage_register ''incident_updates'') = None"
    by (simp add: sample_outage_register_def row_at_def)
  have p: "TxIDPlaceholder \<notin> {iu_id u, ''inc_1'', IncidentResolved, clip_str ''Fixed'' 4096, pr_sub sample_responder,
      pr_display sample_responder, pr_acting sample_responder}"
    unfolding u(3) by code_simp
  have "map_option si_opened (read_incident sample_outside (reg_tables sample_outage_register) ''inc_1'') = Some 1790000000" by code_simp
  then show ?thesis using timelines_only_grow [OF u(1,2) n f p] u(1) by auto
qed

text \<open>
  Opening under an identifier that is in use starts the incident again: its moment of opening
  is the present, its samples are forgotten and it is no longer one the monitor opened.
\<close>

lemma opened_again_starts_again:
  assumes "open_incident x tenant now fresh update_id reg p inc0 body message = (Inr (inc, tr), reg')" "reg' \<noteq> reg"
    and "read_incident x (reg_tables reg) (si_id inc0) = Some old" "si_id inc0 \<notin> {[], TxIDPlaceholder}" "in_i64 now"
    and "update_id = Some u" "u \<noteq> TxIDPlaceholder"
  shows "\<exists>new. read_incident x (reg_tables reg') (si_id inc0) = Some new \<and> si_opened new = now \<and> si_resolved new = 0 \<and>
    si_triggers new = [] \<and> \<not> si_auto new"
proof -
  have g: "can p PermRespond" "\<not> (si_service inc0 = [] \<or> trim_space (si_title inc0) = [])" "trim_space body \<noteq> []"
    using assms(1) by (auto simp: open_incident_def split: if_splits)
  define i1 where "i1 = inc0\<lparr>si_impact := (if si_impact inc0 = [] then ''minor'' else si_impact inc0),
                        si_status := (if si_status inc0 = [] then ''investigating'' else si_status inc0),
                        si_opened := now, si_auto := False\<rparr>"
  have i1: "si_id i1 = si_id inc0" "i1\<lparr>si_id := si_id inc0\<rparr> = i1" by (cases inc0, simp add: i1_def)+
  let ?ops = "[incident_op i1 now, timeline_op u (si_id inc0) (si_status i1) body p now]"
  have "commit x tenant now reg (response_envelope KindIncidentOpen (si_service i1) (si_id inc0) p now message []) ?ops = (Inr tr, reg')"
    using assms(1,4,6) g i1 unfolding open_incident_def Let_def i1_def [symmetric]
    by (auto simp: i1(2) split: prod.splits sum.splits)
  moreover have e: "entry_ok x (t_txid tr) (incident_op i1 now)" "entry_key x (t_txid tr) (incident_op i1 now) = [(''id'', SStr (si_id inc0))]"
    "map_of (entry_fields x (t_txid tr) (incident_op i1 now)) ''opened_at'' = Some (SInt now)"
    "map_of (entry_fields x (t_txid tr) (incident_op i1 now)) ''resolved_at'' = Some (SInt 0)"
    "map_of (entry_fields x (t_txid tr) (incident_op i1 now)) ''auto'' = Some (SInt 0)"
    "map_of (entry_fields x (t_txid tr) (incident_op i1 now)) ''trigger_samples'' = Some (SStr [])"
    "w_table (incident_op i1 now) = ''incidents''" "\<not> w_delete (incident_op i1 now)"
    using assms(4) i1 by (simp_all add: incident_op_def entry_defs TxIDPlaceholder_def)
  moreover have "entry_ok x (t_txid tr) (timeline_op u (si_id inc0) (si_status i1) body p now)"
    "w_table (timeline_op u (si_id inc0) (si_status i1) body p now) = ''incident_updates''"
    using assms(7) by (simp_all add: timeline_op_def entry_defs)
  ultimately have "row_at [(''id'', SStr (si_id inc0))] (reg_tables reg' ''incidents'') =
      rows.effect [(''id'', SStr (si_id inc0))] [entry_run x (t_txid tr) (incident_op i1 now)]
        (row_at [(''id'', SStr (si_id inc0))] (reg_tables reg ''incidents''))"
    using committed_row [OF _ assms(2) _ incident_keys(1,3)] by simp
  then obtain r where r: "row_at [(''id'', SStr (si_id inc0))] (reg_tables reg' ''incidents'') =
      Some (overlay_row [(''id'', SStr (si_id inc0))] (entry_fields x (t_txid tr) (incident_op i1 now)) (Some r))"
    using assms(3) e(2,8) by (auto simp: read_incident_def entry_run_def)
  then show ?thesis
    using e assms(5) by (simp add: read_incident_def incident_from_row_def Let_def row_int_def row_bool_def row_str_def as_int_def
        overlay_row_column i64_id split_csv_def trim_space_def trim_left_def trim_right_def)
qed

end
