(* ===== verification/Credentials.thy ===== *)
theory Credentials
  imports Secrets Auth Maintenance Assertion Writes
begin

text \<open>
  The record of the credentials (\<open>internal/core/credentials.go\<close>): storing, rotating and
  destroying one changes the vault first and then the ledger, which holds the name, the
  binding, a fingerprint and the moments, never the value.
\<close>

section \<open>Data\<close>

record secret_meta =
  sm_name :: string
  sm_hosts :: "string list"
  sm_description :: string
  sm_fingerprint :: string
  sm_created :: int
  sm_rotated :: int
  sm_destroyed :: int
  sm_used :: int

abbreviation KindSecretPut :: string where "KindSecretPut \<equiv> ''secret.put''"
abbreviation KindSecretDestroy :: string where "KindSecretDestroy \<equiv> ''secret.destroy''"

datatype credential_error =
    MayNotManageCredentials string
  | NameOrHosts secret_error
  | NotBoundToAHost
  | VaultRefused secret_error
  | NoCredentialNamed string
  | CredentialNotCommitted commit_error

section \<open>Reads\<close>

definition secret_from_row :: "outside \<Rightarrow> sql_row \<Rightarrow> secret_meta" where
  "secret_from_row x r =
     (let s = row_str (x_ftext x) r in
      \<lparr>sm_name = s ''name'', sm_hosts = split_csv (s ''hosts''), sm_description = s ''description'',
       sm_fingerprint = s ''fingerprint'', sm_created = row_int r ''created_at'', sm_rotated = row_int r ''rotated_at'',
       sm_destroyed = row_int r ''destroyed_at'', sm_used = row_int r ''used_at''\<rparr>)"

definition read_secret_meta :: "outside \<Rightarrow> tables \<Rightarrow> string \<Rightarrow> secret_meta option" where
  "read_secret_meta x t name = map_option (secret_from_row x) (row_at [(''name'', SStr name)] (t ''secrets_meta''))"

text \<open>\<open>Secrets\<close>: the vault decides whether a value can still be used.\<close>

definition list_secrets :: "outside \<Rightarrow> tables \<Rightarrow> vault \<Rightarrow> secret_meta list" where
  "list_secrets x t v =
     map (\<lambda>r. let m = secret_from_row x r in
         if vault_bindings v (sm_name m) = None \<and> sm_destroyed m = 0 then m\<lparr>sm_destroyed := -1\<rparr> else m)
       (sort_key (\<lambda>r. row_str (x_ftext x) r ''name'') (t ''secrets_meta''))"

section \<open>Operations\<close>

definition secret_envelope :: "string \<Rightarrow> string \<Rightarrow> principal \<Rightarrow> int \<Rightarrow> string \<Rightarrow> envelope" where
  "secret_envelope kind name p now message =
     \<lparr>env_kind = kind, env_tenant = [], env_service = [], env_object_ids = [name],
      env_author = author_of p, env_timestamp = now, env_message = message, env_refs = []\<rparr>"

definition secret_op :: "string \<Rightarrow> string list \<Rightarrow> string \<Rightarrow> string \<Rightarrow> bool \<Rightarrow> int \<Rightarrow> write_op" where
  "secret_op name clean description fingerprint known now =
     \<lparr>w_table = ''secrets_meta'', w_key = [(''name'', VStr name)],
      w_values =
        [(''hosts'', VStr (clip_str (str_join '','' clean) 1024)), (''description'', VStr (clip_str description 512)),
         (''fingerprint'', VStr fingerprint), (''destroyed_at'', VInt64 0)] @
        (if known then [(''rotated_at'', VInt64 now)]
         else [(''created_at'', VInt64 now), (''rotated_at'', VInt64 0), (''used_at'', VInt64 0)]),
      w_delete = False\<rparr>"

text \<open>
  The arguments \<open>sl\<close>, \<open>key\<close>, \<open>written\<close> and \<open>saved\<close> are those of \<open>vault_put\<close>.
\<close>

definition put_secret :: "outside \<Rightarrow> sealer \<Rightarrow> string \<Rightarrow> bool \<Rightarrow> bool \<Rightarrow> string \<Rightarrow> int \<Rightarrow> vault \<times> register \<Rightarrow> principal \<Rightarrow>
    string \<Rightarrow> string \<Rightarrow> string list \<Rightarrow> string \<Rightarrow> string \<Rightarrow>
    (credential_error + secret_meta \<times> tx_row) \<times> vault \<times> register" where
  "put_secret x sl key written saved tenant now st p name val hosts description message =
     (if \<not> can p PermSecrets then (Inl (MayNotManageCredentials (pr_acting p)), st)
      else if \<not> valid_name name then (Inl (NameOrHosts BadName), st)
      else case normalise_hosts hosts of
        Inl e \<Rightarrow> (Inl (NameOrHosts e), st)
      | Inr clean \<Rightarrow>
          if length clean = 0 then (Inl NotBoundToAHost, st)
          else (case vault_put sl key written saved name val clean (fst st) of
             (Inl e, v') \<Rightarrow> (Inl (VaultRefused e), v', snd st)
           | (Inr fingerprint, v') \<Rightarrow>
               let existing = read_secret_meta x (reg_tables (snd st)) name in
               (case commit x tenant now (snd st) (secret_envelope KindSecretPut name p now message)
                  [secret_op name clean description fingerprint (existing \<noteq> None) now] of
                  (Inl e, reg') \<Rightarrow> (Inl (CredentialNotCommitted e), v', reg')
                | (Inr tr, reg') \<Rightarrow>
                    (Inr (\<lparr>sm_name = name, sm_hosts = clean, sm_description = description, sm_fingerprint = fingerprint,
                           sm_created = (case existing of None \<Rightarrow> now | Some m \<Rightarrow> sm_created m),
                           sm_rotated = (case existing of None \<Rightarrow> 0 | Some _ \<Rightarrow> now), sm_destroyed = 0, sm_used = 0\<rparr>, tr),
                     v', reg'))))"

definition destroyed_op :: "string \<Rightarrow> int \<Rightarrow> write_op" where
  "destroyed_op name now =
     \<lparr>w_table = ''secrets_meta'', w_key = [(''name'', VStr name)], w_values = [(''destroyed_at'', VInt64 now)],
      w_delete = False\<rparr>"

definition destroy_secret :: "outside \<Rightarrow> sealer \<Rightarrow> bool \<Rightarrow> bool \<Rightarrow> string \<Rightarrow> int \<Rightarrow> vault \<times> register \<Rightarrow> principal \<Rightarrow>
    string \<Rightarrow> string \<Rightarrow> (credential_error + tx_row) \<times> vault \<times> register" where
  "destroy_secret x sl saved removed tenant now st p name message =
     (if \<not> can p PermSecrets then (Inl (MayNotManageCredentials (pr_acting p)), st)
      else if \<not> vault_has (fst st) name then (Inl (NoCredentialNamed name), st)
      else case vault_destroy sl saved removed name (fst st) of
        (Some e, v') \<Rightarrow> (Inl (VaultRefused e), v', snd st)
      | (None, v') \<Rightarrow>
          (case commit x tenant now (snd st) (secret_envelope KindSecretDestroy name p now message) [destroyed_op name now] of
             (Inl e, reg') \<Rightarrow> (Inl (CredentialNotCommitted e), v', reg')
           | (Inr tr, reg') \<Rightarrow> (Inr tr, v', reg')))"

section \<open>What normalising leaves alone\<close>

lemma lower_space [simp]: "is_space (ascii_lower c) = is_space c"
  by (auto simp: is_space_def ascii_lower_def)

lemma trim_lower: "trim_space (to_lower s) = to_lower (trim_space s)"
  by (simp add: trim_space_def trim_left_def trim_right_def to_lower_def dropWhile_map rev_map comp_def)

lemma dropWhile_again: "dropWhile p (dropWhile p s) = dropWhile p s"
  by (induction s) simp_all

lemma trim_again: "trim_space (trim_space s) = trim_space s"
proof -
  let ?t = "dropWhile is_space s"
  let ?u = "rev (dropWhile is_space (rev ?t))"
  have t: "?t = ?u @ rev (takeWhile is_space (rev ?t))"
    by (metis rev_append rev_rev_ident takeWhile_dropWhile_id)
  have "dropWhile is_space ?u = ?u"
  proof (cases ?u)
    case (Cons c cs)
    then have "?t = c # cs @ rev (takeWhile is_space (rev ?t))" using t by simp
    then have "\<not> is_space c" by (metis dropWhile_eq_Cons_conv)
    then show ?thesis by (simp add: Cons)
  qed (simp only: dropWhile.simps)
  then show ?thesis by (simp add: trim_space_def trim_left_def trim_right_def dropWhile_again)
qed

lemma clean_host_again: "clean_host (clean_host h) = clean_host h"
  by (simp add: clean_host_def trim_lower trim_again)

lemma clean_hosts_again:
  assumes "distinct (out @ hs)" "\<forall>h\<in>set hs. clean_host h = h \<and> h \<noteq> [] \<and> h \<noteq> ''*'' \<and> \<not> contains_any h host_breaks"
  shows "clean_hosts out hs = Inr (out @ hs)"
  using assms by (induction hs arbitrary: out) (auto simp: Let_def)

lemma normalise_hosts_again:
  assumes "normalise_hosts hosts = Inr clean"
  shows "normalise_hosts clean = Inr clean" "\<forall>h\<in>set clean. trim_space h = h"
proof -
  note s = normalise_hosts_set [OF assms]
  have same: "\<forall>h\<in>set clean. clean_host h = h" unfolding s(1) using clean_host_again by auto
  then show "normalise_hosts clean = Inr clean"
    using clean_hosts_again [of "[]" clean] s(2-4) by (simp add: normalise_hosts_def bind_res_def sorted_sort_id)
  show "\<forall>h\<in>set clean. trim_space h = h"
    unfolding s(1) by (auto simp: clean_host_def trim_lower trim_again)
qed

section \<open>The list of hosts as one column\<close>

lemma trim_empty: "trim_space s = [] \<longleftrightarrow> list_all is_space s"
proof -
  have "trim_space s = [] \<longleftrightarrow> (\<forall>c\<in>set (dropWhile is_space s). is_space c)"
    by (auto simp: trim_space_def trim_left_def trim_right_def)
  also have "\<dots> \<longleftrightarrow> list_all is_space s" by (induction s) auto
  finally show ?thesis .
qed

lemma split_joined:
  assumes "hs \<noteq> []" "\<forall>h\<in>set hs. c \<notin> set h"
  shows "str_split c (str_join [c] hs) = hs"
  using assms by (induction "[c]" hs rule: str_join.induct) (simp_all add: str_split_once)

lemma joined_hosts_read_back:
  assumes "hs \<noteq> []" "\<forall>h\<in>set hs. CHR '','' \<notin> set h \<and> h \<noteq> [] \<and> trim_space h = h"
  shows "split_csv (str_join '','' hs) = hs"
proof -
  obtain h hs' where hs: "hs = h # hs'" using assms(1) by (cases hs) auto
  then have "\<not> list_all is_space h" using assms(2) trim_empty [of h] by simp
  then have "\<not> list_all is_space (str_join '','' hs)" unfolding hs by (cases hs') simp_all
  moreover have "map trim_space hs = hs" using assms(2) by (simp add: map_idI)
  moreover have "filter (\<lambda>h. h \<noteq> []) hs = hs" using assms(2) by simp
  ultimately show ?thesis using assms by (simp add: split_csv_def trim_empty split_joined)
qed

section \<open>The record follows the vault\<close>

lemma put_secret_changed:
  assumes "put_secret x sl key written saved tenant now st p name val hosts description message = (Inr (meta, tr), v', reg')"
  defines "existing \<equiv> read_secret_meta x (reg_tables (snd st)) name"
  obtains clean where "can p PermSecrets" "valid_name name" "normalise_hosts hosts = Inr clean" "clean \<noteq> []" "saved"
    "v_entries v' = (v_entries (fst st))(name \<mapsto> \<lparr>e_key = key, e_hosts = clean\<rparr>)"
    "meta = \<lparr>sm_name = name, sm_hosts = clean, sm_description = description, sm_fingerprint = sl_print sl val,
       sm_created = (case existing of None \<Rightarrow> now | Some m \<Rightarrow> sm_created m),
       sm_rotated = (case existing of None \<Rightarrow> 0 | Some _ \<Rightarrow> now), sm_destroyed = 0, sm_used = 0\<rparr>"
    "commit x tenant now (snd st) (secret_envelope KindSecretPut name p now message)
       [secret_op name clean description (sl_print sl val) (existing \<noteq> None) now] = (Inr tr, reg')"
proof -
  obtain clean where g: "can p PermSecrets" "valid_name name" "normalise_hosts hosts = Inr clean" "clean \<noteq> []"
    using assms(1) by (auto simp: put_secret_def split: if_splits sum.splits)
  obtain fp where put: "vault_put sl key written saved name val clean (fst st) = (Inr fp, v')"
    and meta: "meta = \<lparr>sm_name = name, sm_hosts = clean, sm_description = description, sm_fingerprint = fp,
       sm_created = (case existing of None \<Rightarrow> now | Some m \<Rightarrow> sm_created m),
       sm_rotated = (case existing of None \<Rightarrow> 0 | Some _ \<Rightarrow> now), sm_destroyed = 0, sm_used = 0\<rparr>"
    and c: "commit x tenant now (snd st) (secret_envelope KindSecretPut name p now message)
       [secret_op name clean description fp (existing \<noteq> None) now] = (Inr tr, reg')"
    using assms g by (auto simp: put_secret_def Let_def split: if_splits sum.splits prod.splits)
  note again = normalise_hosts_again(1) [OF g(3)]
  have fp: "fp = sl_print sl val" "saved" "v_entries v' = (v_entries (fst st))(name \<mapsto> \<lparr>e_key = key, e_hosts = clean\<rparr>)"
    using put again by (auto elim!: put_cases split: if_splits)
  show thesis by (rule that [OF g fp(2,3)]) (use meta c fp(1) in simp_all)
qed

lemma secret_keys:
  "pk_columns ''secrets_meta'' = Some [''name'']" "valid_key [''name''] [(''name'', SStr n)]"
  by (simp_all add: pk_columns_def valid_key_def)

lemma secret_row_written:
  assumes "TxIDPlaceholder \<notin> {name, clip_str (str_join '','' clean) 1024, clip_str description 512, fp}"
  shows "entry_ok x txid (secret_op name clean description fp known now)"
    "entry_run x txid (secret_op name clean description fp known now) =
      ([(''name'', SStr name)],
       Some ([(''hosts'', SStr (clip_str (str_join '','' clean) 1024)), (''description'', SStr (clip_str description 512)),
         (''fingerprint'', SStr fp), (''destroyed_at'', SInt 0)] @
        (if known then [(''rotated_at'', SInt now)]
         else [(''created_at'', SInt now), (''rotated_at'', SInt 0), (''used_at'', SInt 0)])))"
    "w_table (secret_op name clean description fp known now) = ''secrets_meta''"
  using assms by (auto simp: secret_op_def entry_defs)

lemma secret_overlay:
  assumes "in_i64 now"
  shows "secret_from_row x (overlay_row [(''name'', SStr name)]
      ([(''hosts'', SStr hosts), (''description'', SStr description), (''fingerprint'', SStr fp), (''destroyed_at'', SInt 0)] @
        [(''rotated_at'', SInt now)]) (Some r)) =
      (secret_from_row x r)\<lparr>sm_hosts := split_csv hosts, sm_description := description, sm_fingerprint := fp,
        sm_rotated := now, sm_destroyed := 0\<rparr>"
    "secret_from_row x (overlay_row [(''name'', SStr name)]
      ([(''hosts'', SStr hosts), (''description'', SStr description), (''fingerprint'', SStr fp), (''destroyed_at'', SInt 0)] @
        [(''created_at'', SInt now), (''rotated_at'', SInt 0), (''used_at'', SInt 0)]) None) =
      \<lparr>sm_name = name, sm_hosts = split_csv hosts, sm_description = description, sm_fingerprint = fp,
        sm_created = now, sm_rotated = 0, sm_destroyed = 0, sm_used = 0\<rparr>"
  using assms
  by (simp_all add: secret_from_row_def overlay_row_def set_columns_def Let_def row_str_def row_int_def as_int_def i64_id)

text \<open>
  Claim C19. Once a credential has been stored or rotated, the register says of it what the
  vault does: the hosts it names are those the vault binds the value to, the fingerprint is
  that of the new value, it is not destroyed, the moment of its creation survives a rotation
  and the rotation is dated; no other credential changes, in the vault or in the register. Hosts
  with a comma, lists longer than the column and texts that are the placeholder of the
  transaction id are the cases left out.
\<close>

theorem recorded_credentials_are_the_vaults:
  assumes "put_secret x sl key written saved tenant now st p name val hosts description message = (Inr (meta, tr), v', reg')"
    and "reg' \<noteq> snd st" "in_i64 now"
    and "\<forall>h\<in>set (sm_hosts meta). CHR '','' \<notin> set h" "length (str_join '','' (sm_hosts meta)) \<le> 1024"
    and "TxIDPlaceholder \<notin> {name, str_join '','' (sm_hosts meta), clip_str description 512, sl_print sl val}"
  shows "can p PermSecrets \<and> vault_bindings v' name = Some (sm_hosts meta) \<and> sm_hosts meta \<noteq> [] \<and>
    read_secret_meta x (reg_tables reg') name =
      Some (case read_secret_meta x (reg_tables (snd st)) name of
          None \<Rightarrow> \<lparr>sm_name = name, sm_hosts = sm_hosts meta, sm_description = clip_str description 512,
            sm_fingerprint = sl_print sl val, sm_created = now, sm_rotated = 0, sm_destroyed = 0, sm_used = 0\<rparr>
        | Some old \<Rightarrow> old\<lparr>sm_hosts := sm_hosts meta, sm_description := clip_str description 512,
            sm_fingerprint := sl_print sl val, sm_rotated := now, sm_destroyed := 0\<rparr>) \<and>
    (\<forall>other. other \<noteq> name \<longrightarrow>
      v_entries v' other = v_entries (fst st) other \<and>
      read_secret_meta x (reg_tables reg') other = read_secret_meta x (reg_tables (snd st)) other)"
proof -
  obtain clean where c: "can p PermSecrets" "normalise_hosts hosts = Inr clean" "clean \<noteq> []"
    "v_entries v' = (v_entries (fst st))(name \<mapsto> \<lparr>e_key = key, e_hosts = clean\<rparr>)" "sm_hosts meta = clean"
    "commit x tenant now (snd st) (secret_envelope KindSecretPut name p now message)
       [secret_op name clean description (sl_print sl val) (read_secret_meta x (reg_tables (snd st)) name \<noteq> None) now] = (Inr tr, reg')"
    by (rule put_secret_changed [OF assms(1)]) auto
  let ?op = "secret_op name clean description (sl_print sl val) (read_secret_meta x (reg_tables (snd st)) name \<noteq> None) now"
  have clip: "clip_str (str_join '','' clean) 1024 = str_join '','' clean" using assms(5) c(5) by (simp add: clip_str_def)
  have "TxIDPlaceholder \<notin> {name, clip_str (str_join '','' clean) 1024, clip_str description 512, sl_print sl val}"
    using assms(6) c(5) unfolding clip by simp
  note w = secret_row_written [OF this, unfolded clip]
  have hosts: "split_csv (str_join '','' clean) = clean"
    using joined_hosts_read_back [OF c(3)] assms(4) c(5) normalise_hosts_again(2) [OF c(2)] normalise_hosts_set(4) [OF c(2)] by simp
  have row: "row_at [(''name'', SStr j)] (reg_tables reg' ''secrets_meta'') =
      rows.effect [(''name'', SStr j)] [entry_run x (t_txid tr) ?op] (row_at [(''name'', SStr j)] (reg_tables (snd st) ''secrets_meta''))" for j
    using committed_row [OF c(6) assms(2) _ secret_keys] w by simp
  have other: "read_secret_meta x (reg_tables reg') j = read_secret_meta x (reg_tables (snd st)) j" if "j \<noteq> name" for j
    using that by (simp add: read_secret_meta_def row w(2))
  have mine: "read_secret_meta x (reg_tables reg') name =
      Some (case read_secret_meta x (reg_tables (snd st)) name of
          None \<Rightarrow> \<lparr>sm_name = name, sm_hosts = clean, sm_description = clip_str description 512,
            sm_fingerprint = sl_print sl val, sm_created = now, sm_rotated = 0, sm_destroyed = 0, sm_used = 0\<rparr>
        | Some old \<Rightarrow> old\<lparr>sm_hosts := clean, sm_description := clip_str description 512,
            sm_fingerprint := sl_print sl val, sm_rotated := now, sm_destroyed := 0\<rparr>)"
  proof (cases "row_at [(''name'', SStr name)] (reg_tables (snd st) ''secrets_meta'')")
    case None
    then have "read_secret_meta x (reg_tables (snd st)) name = None" by (simp add: read_secret_meta_def)
    then show ?thesis using secret_overlay(2) [OF assms(3)] None
      by (simp add: read_secret_meta_def [of _ "reg_tables reg'"] row w(2) hosts)
  next
    case (Some r)
    then have "read_secret_meta x (reg_tables (snd st)) name = Some (secret_from_row x r)" by (simp add: read_secret_meta_def)
    then show ?thesis using secret_overlay(1) [OF assms(3)] Some
      by (simp add: read_secret_meta_def [of _ "reg_tables reg'"] row w(2) hosts)
  qed
  show ?thesis using c(1,3,4) mine other unfolding c(5) by (simp add: vault_bindings_def)
qed

section \<open>What the record cannot tell\<close>

text \<open>
  The record of a credential never tells its value: two values with the same
  fingerprint leave the same register, the same bindings and the same answer, whatever fails on
  the way, so nothing but the keyed fingerprint of the value reaches the log.
\<close>

lemma the_record_never_tells_the_value:
  assumes "sl_print sl val = sl_print sl val'" "val \<noteq> []" "val' \<noteq> []"
    and "put_secret x sl key written saved tenant now st p name val hosts description message = (res, v1, reg1)"
    and "put_secret x sl key written saved tenant now st p name val' hosts description message = (res', v2, reg2)"
  shows "res' = res \<and> reg2 = reg1 \<and> v_entries v2 = v_entries v1"
proof -
  have same: "fst (vault_put sl key written saved name val clean v) = fst (vault_put sl key written saved name val' clean v) \<and>
    v_entries (snd (vault_put sl key written saved name val clean v)) = v_entries (snd (vault_put sl key written saved name val' clean v))"
    for clean v
    using assms(1-3) by (simp add: vault_put_def Let_def split: sum.split)
  show ?thesis
  proof (cases "\<exists>clean. can p PermSecrets \<and> valid_name name \<and> normalise_hosts hosts = Inr clean \<and> clean \<noteq> []")
    case True
    then obtain clean where g: "can p PermSecrets" "valid_name name" "normalise_hosts hosts = Inr clean" "clean \<noteq> []" by blast
    obtain r w1 where w1: "vault_put sl key written saved name val clean (fst st) = (r, w1)" by fastforce
    obtain r' w2 where w2: "vault_put sl key written saved name val' clean (fst st) = (r', w2)" by fastforce
    have "r' = r" "v_entries w2 = v_entries w1" using same [of clean "fst st"] by (simp_all add: w1 w2)
    then show ?thesis
      using assms(4,5) g by (auto simp: put_secret_def Let_def w1 w2 split: sum.splits prod.splits)
  next
    case False
    then show ?thesis using assms(4,5) by (auto simp: put_secret_def split: sum.splits if_splits)
  qed
qed

text \<open>
  The vault is changed before the register. When the record cannot be written, for a message
  with no summary as for any other refusal, a credential is destroyed and an error returned, and
  the register does not change.
\<close>

lemma destroyed_without_a_record:
  assumes "can p PermSecrets" "vault_has v name" "trim_space (msg_summary message) = []"
  shows "\<exists>e v'. destroy_secret x sl True True tenant now (v, reg) p name message = (Inl (CredentialNotCommitted e), v', reg) \<and>
    \<not> vault_has v' name"
proof -
  let ?env = "secret_envelope KindSecretDestroy name p now message"
  have "env_message (fill_envelope tenant now ?env) = message"
    by (simp add: fill_envelope_def secret_envelope_def Let_def)
  then have "validate_envelope (fill_envelope tenant now ?env) \<noteq> None"
    using assms(3) by (simp add: validate_envelope_def)
  then obtain e where "commit x tenant now reg ?env [destroyed_op name now] = (Inl e, reg)"
    by (auto simp: commit_def)
  then show ?thesis
    using assms(1,2) by (simp add: destroy_secret_def vault_destroy_def vault_has_def)
qed

text \<open>A host with a comma is bound as one host and recorded as two.\<close>

lemma comma_in_a_host:
  "normalise_hosts [''a.example,b.example''] = Inr [''a.example,b.example''] \<and>
   split_csv (str_join '','' [''a.example,b.example'']) = [''a.example'', ''b.example'']"
  by code_simp

section \<open>Instances\<close>

definition sample_keeper :: principal where
  "sample_keeper = grant [PermSecrets] (anonymous ''t'')"

definition empty_register :: register where
  "empty_register = \<lparr>reg_tables = (\<lambda>_. []), reg_log = [], reg_root = [], reg_version = 0\<rparr>"

lemma sample_put_secret:
  "\<exists>meta tr v' reg'. put_secret sample_outside plain_sealer ''k'' True True ''t'' 1790000000 (no_vault, empty_register) sample_keeper
      ''token'' ''s3cret'' ['' API.example.com'', ''.internal''] ''Orders'' ''Store the token'' = (Inr (meta, tr), v', reg') \<and>
    reg' \<noteq> empty_register \<and> sm_hosts meta = [''.internal'', ''api.example.com'']"
proof -
  let ?clean = "[''.internal'', ''api.example.com'']"
  let ?env = "secret_envelope KindSecretPut ''token'' sample_keeper 1790000000 ''Store the token''"
  let ?op = "secret_op ''token'' ?clean ''Orders'' ''f'' False 1790000000"
  have "list_all (entry_ok sample_outside txid) [?op]" for txid
    by (simp add: secret_op_def entry_defs clip_str_def TxIDPlaceholder_def)
  moreover have "validate_envelope (fill_envelope ''t'' 1790000000 ?env) = None" by code_simp
  moreover have "check_ops [?op] = None" by (simp add: secret_op_def pk_columns_def)
  ultimately obtain tr reg' where r: "commit sample_outside ''t'' 1790000000 empty_register ?env [?op] = (Inr tr, reg')" "reg' \<noteq> empty_register"
    using commit_succeeds [of sample_outside "''t''" 1790000000 ?env "[?op]" empty_register]
    by (auto simp: sample_outside_def empty_register_def)
  have g: "can sample_keeper PermSecrets" "valid_name ''token''"
    "normalise_hosts ['' API.example.com'', ''.internal''] = Inr ?clean" by code_simp+
  have v: "fst (vault_put plain_sealer ''k'' True True ''token'' ''s3cret'' ?clean no_vault) = Inr ''f''" by code_simp
  then obtain v' where v: "vault_put plain_sealer ''k'' True True ''token'' ''s3cret'' ?clean no_vault = (Inr ''f'', v')"
    by (metis prod.collapse)
  have n: "read_secret_meta sample_outside (reg_tables empty_register) ''token'' = None"
    by (simp add: read_secret_meta_def empty_register_def row_at_def)
  show ?thesis using g r by (simp add: put_secret_def v n)
qed

theorem recorded_credentials_are_the_vaults_witness:
  "\<exists>meta tr v' reg' rec. put_secret sample_outside plain_sealer ''k'' True True ''t'' 1790000000 (no_vault, empty_register) sample_keeper
      ''token'' ''s3cret'' ['' API.example.com'', ''.internal''] ''Orders'' ''Store the token'' = (Inr (meta, tr), v', reg') \<and>
    read_secret_meta sample_outside (reg_tables reg') ''token'' = Some rec \<and>
    vault_bindings v' ''token'' = Some (sm_hosts rec) \<and> sm_hosts rec = [''.internal'', ''api.example.com''] \<and> sm_created rec = 1790000000"
proof -
  obtain meta tr v' reg' where u: "put_secret sample_outside plain_sealer ''k'' True True ''t'' 1790000000 (no_vault, empty_register) sample_keeper
      ''token'' ''s3cret'' ['' API.example.com'', ''.internal''] ''Orders'' ''Store the token'' = (Inr (meta, tr), v', reg')"
    "reg' \<noteq> empty_register" "sm_hosts meta = [''.internal'', ''api.example.com'']"
    using sample_put_secret by blast
  have "TxIDPlaceholder \<notin> {''token'', str_join '','' (sm_hosts meta), clip_str ''Orders'' 512, sl_print plain_sealer ''s3cret''}"
    unfolding u(3) by code_simp
  moreover have "\<forall>h\<in>set (sm_hosts meta). CHR '','' \<notin> set h" "length (str_join '','' (sm_hosts meta)) \<le> 1024" unfolding u(3) by simp_all
  moreover have "read_secret_meta sample_outside (reg_tables empty_register) ''token'' = None"
    by (simp add: read_secret_meta_def empty_register_def row_at_def)
  ultimately show ?thesis
    using recorded_credentials_are_the_vaults [OF u(1)] u by (simp add: in_i64_def)
qed

end
