(* ===== verification/Visual.thy ===== *)
theory Visual
  imports Monitors Verify "HOL-Library.Word"
begin

unbundle bit_operations_syntax

text \<open>
  What a screenshot is taken to show (\<open>internal/visual/visual.go\<close>): how much of it is not
  background, its perceptual hash and the distance of two hashes, with the masked regions left
  out. Decoding an image, SHA-256 and the floating point transform behind the hash (luminance,
  mean and cosine transform of the sampled pixels) are the fields of \<open>viewer\<close>; what is sampled,
  and how the coefficients become bits, is modelled.
\<close>

section \<open>Data\<close>

record rectangle =
  rc_x0 :: int
  rc_y0 :: int
  rc_x1 :: int
  rc_y1 :: int

text \<open>A pixel is what \<open>RGBA\<close> gives of it, 16 bits a channel.\<close>

type_synonym pixel = "nat \<times> nat \<times> nat"

record picture =
  pc_bounds :: rectangle
  pc_at :: "int \<Rightarrow> int \<Rightarrow> pixel"

record viewer =
  vw_decode :: "string \<Rightarrow> string + picture"
  vw_sha :: "string \<Rightarrow> string"
  vw_transform :: "pixel option list list \<Rightarrow> rat list"

record analysis =
  an_digest :: string
  an_width :: int
  an_height :: int
  an_bytes :: int
  an_hash :: string
  an_ink :: int
  an_colours :: int

datatype visual_error = NotAHash string | NotAnImage string | NoPixels

definition DefaultInkFloorPPM :: int where "DefaultInkFloorPPM = 1000"
definition DefaultDistance :: int where "DefaultDistance = 8"
definition hashSize :: nat where "hashSize = 32"
definition hashBits :: nat where "hashBits = 8"

section \<open>Masks\<close>

text \<open>\<open>image.Rect\<close> puts the corners in order.\<close>

definition go_rect :: "int \<Rightarrow> int \<Rightarrow> int \<Rightarrow> int \<Rightarrow> rectangle" where
  "go_rect x0 y0 x1 y1 = \<lparr>rc_x0 = min x0 x1, rc_y0 = min y0 y1, rc_x1 = max x0 x1, rc_y1 = max y0 y1\<rparr>"

definition new_mask :: "rectangle \<Rightarrow> region list \<Rightarrow> rectangle list" where
  "new_mask b rs =
     map (\<lambda>r. go_rect (i64 (rc_x0 b + rg_x r)) (i64 (rc_y0 b + rg_y r))
              (i64 (rc_x0 b + rg_x r + rg_w r)) (i64 (rc_y0 b + rg_y r + rg_h r)))
       (filter (\<lambda>r. \<not> (rg_w r \<le> 0 \<or> rg_h r \<le> 0)) rs)"

definition excluded_pixel :: "rectangle list \<Rightarrow> int \<Rightarrow> int \<Rightarrow> bool" where
  "excluded_pixel m x y \<longleftrightarrow> list_ex (\<lambda>r. x \<ge> rc_x0 r \<and> x < rc_x1 r \<and> y \<ge> rc_y0 r \<and> y < rc_y1 r) m"

section \<open>The hash\<close>

definition rect_dx :: "rectangle \<Rightarrow> int" where "rect_dx b = i64 (rc_x1 b - rc_x0 b)"
definition rect_dy :: "rectangle \<Rightarrow> int" where "rect_dy b = i64 (rc_y1 b - rc_y0 b)"

text \<open>The pixels \<open>toGrey\<close> reads; a masked one takes the mean of the others.\<close>

definition sample_at :: "int \<Rightarrow> int \<Rightarrow> nat \<Rightarrow> int" where
  "sample_at lo width k = i64 (lo + go_quot (i64 (int k * width)) (int hashSize))"

definition sampled_grid :: "picture \<Rightarrow> rectangle list \<Rightarrow> pixel option list list" where
  "sampled_grid img m =
     map (\<lambda>y. map (\<lambda>x.
         let sx = sample_at (rc_x0 (pc_bounds img)) (rect_dx (pc_bounds img)) x;
             sy = sample_at (rc_y0 (pc_bounds img)) (rect_dy (pc_bounds img)) y
         in if excluded_pixel m sx sy then None
            else Some (case pc_at img sx sy of (r, g, b) \<Rightarrow> (r div 256, g div 256, b div 256)))
       [0..<hashSize]) [0..<hashSize]"

text \<open>From the low-frequency corner to the eight bytes: a bit for each coefficient above the median.\<close>

definition median_of :: "rat list \<Rightarrow> rat" where
  "median_of values = (let ordered = sort (tl values) in ordered ! (length ordered div 2))"

definition byte_of_bits :: "bool list \<Rightarrow> nat" where
  "byte_of_bits bs = foldl (\<lambda>n b. 2 * n + of_bool b) 0 bs"

definition hash_bits :: "rat list \<Rightarrow> bool list" where
  "hash_bits values = map (\<lambda>v. v > median_of values) values"

definition perceptual_hash :: "viewer \<Rightarrow> pixel option list list \<Rightarrow> string" where
  "perceptual_hash vw grid =
     (let bits = hash_bits (vw_transform vw grid)
      in map (\<lambda>i. char_of (byte_of_bits (take hashBits (drop (i * hashBits) bits)))) [0..<8])"

section \<open>Ink\<close>

definition quantise :: "nat \<Rightarrow> nat" where
  "quantise r = r div 256 div 16 mod 16 * 16"

definition colour_key :: "pixel \<Rightarrow> nat \<times> nat \<times> nat" where
  "colour_key p = (case p of (r, g, b) \<Rightarrow> (quantise r, quantise g, quantise b))"

text \<open>The map of counts, as an association list.\<close>

fun count_colour :: "nat \<times> nat \<times> nat \<Rightarrow> ((nat \<times> nat \<times> nat) \<times> nat) list \<Rightarrow> ((nat \<times> nat \<times> nat) \<times> nat) list" where
  "count_colour c [] = [(c, 1)]"
| "count_colour c ((d, n) # cs) = (if c = d then (d, n + 1) # cs else (d, n) # count_colour c cs)"

text \<open>Every other coordinate from \<open>lo\<close> up to \<open>hi\<close>.\<close>

definition strided :: "int \<Rightarrow> int \<Rightarrow> int list" where
  "strided lo hi = map (\<lambda>k. lo + 2 * int k) [0..<nat ((hi - lo + 1) div 2)]"

fun ink_row :: "picture \<Rightarrow> rectangle list \<Rightarrow> int \<Rightarrow> int list \<Rightarrow> ((nat \<times> nat \<times> nat) \<times> nat) list \<times> nat \<Rightarrow>
    ((nat \<times> nat \<times> nat) \<times> nat) list \<times> nat" where
  "ink_row img m y [] st = st"
| "ink_row img m y (x # xs) st =
     (if excluded_pixel m x y then ink_row img m y xs st
      else let counts = count_colour (colour_key (pc_at img x y)) (fst st); seen = snd st + 1
        in if length counts > 4096 then (counts, seen) else ink_row img m y xs (counts, seen))"

definition ink_counts :: "picture \<Rightarrow> rectangle list \<Rightarrow> ((nat \<times> nat \<times> nat) \<times> nat) list \<times> nat" where
  "ink_counts img m =
     foldl (\<lambda>st y. ink_row img m y (strided (rc_x0 (pc_bounds img)) (rc_x1 (pc_bounds img))) st) ([], 0)
       (strided (rc_y0 (pc_bounds img)) (rc_y1 (pc_bounds img)))"

definition ink :: "picture \<Rightarrow> rectangle list \<Rightarrow> int \<times> int" where
  "ink img m =
     (case ink_counts img m of (counts, seen) \<Rightarrow>
        if seen = 0 then (0, 0)
        else let most = foldl (\<lambda>most (c, n). if n > most then n else most) 0 counts
          in (go_quot (i64 (int (seen - most) * 1000000)) (int seen), int (length counts)))"

section \<open>Analysis and distance\<close>

definition analyse :: "viewer \<Rightarrow> string \<Rightarrow> region list \<Rightarrow> visual_error + analysis" where
  "analyse vw raw masks =
     (case vw_decode vw raw of
        Inl e \<Rightarrow> Inl (NotAnImage e)
      | Inr img \<Rightarrow>
          let w = rect_dx (pc_bounds img); h = rect_dy (pc_bounds img) in
          if w = 0 \<or> h = 0 then Inl NoPixels
          else let m = new_mask (pc_bounds img) masks; (ppm, colours) = ink img m
            in Inr \<lparr>an_digest = hex_encode (vw_sha vw raw), an_width = w, an_height = h, an_bytes = int (length raw),
                    an_hash = hex_encode (perceptual_hash vw (sampled_grid img m)), an_ink = ppm, an_colours = colours\<rparr>)"

definition blank_picture :: "analysis \<Rightarrow> int \<Rightarrow> bool" where
  "blank_picture a floor_ppm \<longleftrightarrow> an_ink a < (if floor_ppm \<le> 0 then DefaultInkFloorPPM else floor_ppm)"

definition hash_bytes :: "string \<Rightarrow> string option" where
  "hash_bytes s = (case hex_decode s of Some h \<Rightarrow> if length h \<noteq> 8 then None else Some h | None \<Rightarrow> None)"

definition byte :: "char \<Rightarrow> 8 word" where
  "byte c = word_of_nat (of_char c)"

definition ones_count8 :: "8 word \<Rightarrow> nat" where
  "ones_count8 w = length (filter (bit w) [0..<8])"

definition bits_apart :: "string \<Rightarrow> string \<Rightarrow> nat" where
  "bits_apart a b = sum_list (map2 (\<lambda>c d. ones_count8 (byte c XOR byte d)) a b)"

definition hash_distance :: "string \<Rightarrow> string \<Rightarrow> visual_error + nat" where
  "hash_distance a b =
     (case hash_bytes a of None \<Rightarrow> Inl (NotAHash a)
      | Some p \<Rightarrow> (case hash_bytes b of None \<Rightarrow> Inl (NotAHash b) | Some q \<Rightarrow> Inr (bits_apart p q)))"

section \<open>The distance of two hashes\<close>

lemma filter_union: "(\<And>x. P x \<Longrightarrow> Q x \<or> R x) \<Longrightarrow> length (filter P xs) \<le> length (filter Q xs) + length (filter R xs)"
  by (induction xs) auto

lemma ones_zero: "ones_count8 w = 0 \<longleftrightarrow> w = 0"
proof -
  have "ones_count8 w = 0 \<longleftrightarrow> (\<forall>n<8. \<not> bit w n)" by (auto simp: ones_count8_def filter_empty_conv)
  also have "\<dots> \<longleftrightarrow> w = 0" by (auto intro: bit_word_eqI)
  finally show ?thesis .
qed

lemma ones_bound: "ones_count8 w \<le> 8"
  using length_filter_le [of "bit w" "[0..<8]"] by (simp add: ones_count8_def)

lemma ones_triangle: "ones_count8 (a XOR c) \<le> ones_count8 (a XOR b) + ones_count8 (b XOR c)"
  unfolding ones_count8_def by (rule filter_union) (auto simp: bit_xor_iff)

lemma byte_inject: "byte c = byte d \<longleftrightarrow> c = d"
  by (auto simp: byte_def word_of_nat_eq_iff take_bit_eq_mod)

lemma xor_zero: "(a :: 8 word) XOR b = 0 \<longleftrightarrow> a = b"
  by (metis xor.assoc xor.left_neutral xor.right_neutral xor_self_eq)

lemma bits_apart_metric:
  assumes "length a = length b"
  shows "bits_apart a b = bits_apart b a" "bits_apart a b = 0 \<longleftrightarrow> a = b" "bits_apart a b \<le> 8 * length a"
proof -
  show "bits_apart a b = bits_apart b a"
    using assms by (induction a b rule: list_induct2) (simp_all add: bits_apart_def xor.commute)
  show "bits_apart a b = 0 \<longleftrightarrow> a = b"
    using assms by (induction a b rule: list_induct2) (simp_all add: bits_apart_def ones_zero xor_zero byte_inject)
  show "bits_apart a b \<le> 8 * length a"
    using assms
  proof (induction a b rule: list_induct2)
    case (Cons c a d b)
    then show ?case using ones_bound [of "byte c XOR byte d"] by (simp add: bits_apart_def)
  qed (simp add: bits_apart_def)
qed

lemma bits_apart_triangle:
  "length a = length b \<Longrightarrow> length b = length c \<Longrightarrow> bits_apart a c \<le> bits_apart a b + bits_apart b c"
proof (induction a b c rule: list_induct3)
  case (Cons p a q b r c)
  then show ?case using ones_triangle [of "byte p" "byte r" "byte q"] by (simp add: bits_apart_def)
qed (simp add: bits_apart_def)

text \<open>
  The number of differing bits is a distance on 64-bit hashes: it is at most 64,
  the same both ways, 0 exactly for the same hash, and going over a third hash is never shorter,
  so a page within the limit of the baseline is within twice the limit of any other such page.
\<close>

lemma hash_distance_is_a_metric:
  assumes "hash_distance a b = Inr m" "hash_distance b c = Inr n"
  shows "m \<le> 64 \<and> hash_distance b a = Inr m \<and> (m = 0 \<longleftrightarrow> hash_bytes a = hash_bytes b) \<and>
    (\<exists>k. hash_distance a c = Inr k \<and> k \<le> m + n)"
proof -
  obtain p q r where h: "hash_bytes a = Some p" "hash_bytes b = Some q" "hash_bytes c = Some r" "m = bits_apart p q" "n = bits_apart q r"
    using assms by (auto simp: hash_distance_def split: option.splits)
  have l: "length p = 8" "length q = 8" "length r = 8" using h(1-3) by (auto simp: hash_bytes_def split: option.splits if_splits)
  show ?thesis
    using bits_apart_metric [of p q] bits_apart_triangle [of p q r] l h by (simp add: hash_distance_def)
qed

section \<open>What the ink measures\<close>

text \<open>The quantised colours of the pixels looked at, in order.\<close>

definition visible_colours :: "picture \<Rightarrow> rectangle list \<Rightarrow> (nat \<times> nat \<times> nat) list" where
  "visible_colours img m =
     concat (map (\<lambda>y. map (\<lambda>x. colour_key (pc_at img x y))
         (filter (\<lambda>x. \<not> excluded_pixel m x y) (strided (rc_x0 (pc_bounds img)) (rc_x1 (pc_bounds img)))))
       (strided (rc_y0 (pc_bounds img)) (rc_y1 (pc_bounds img))))"

definition count_all :: "((nat \<times> nat \<times> nat) \<times> nat) list \<Rightarrow> (nat \<times> nat \<times> nat) list \<Rightarrow> ((nat \<times> nat \<times> nat) \<times> nat) list" where
  "count_all cs ks = foldl (\<lambda>cs c. count_colour c cs) cs ks"

lemma count_all_simps [simp]: "count_all cs [] = cs" "count_all cs (k # ks) = count_all (count_colour k cs) ks"
  "count_all cs (ks @ ks') = count_all (count_all cs ks) ks'"
  by (simp_all add: count_all_def)

definition key_levels :: "nat set" where "key_levels = (\<lambda>k. k * 16) ` {..<16}"

definition key_space :: "(nat \<times> nat \<times> nat) set" where "key_space = key_levels \<times> key_levels \<times> key_levels"

lemma colour_key_space: "colour_key p \<in> key_space"
  by (auto simp: colour_key_def quantise_def key_space_def key_levels_def split: prod.split)

lemma key_space_card: "finite key_space" "card key_space = 4096"
proof -
  have "card key_levels = 16" unfolding key_levels_def by (subst card_image) (auto intro: inj_onI)
  then show "card key_space = 4096" by (simp add: key_space_def card_cartesian_product)
  show "finite key_space" by (simp add: key_space_def key_levels_def)
qed

lemma count_colour_keys: "fst ` set (count_colour c cs) = insert c (fst ` set cs)"
  by (induction c cs rule: count_colour.induct) auto

lemma count_colour_distinct: "distinct (map fst cs) \<Longrightarrow> distinct (map fst (count_colour c cs))"
  by (induction c cs rule: count_colour.induct) (simp_all add: count_colour_keys)

lemma count_colour_value:
  "distinct (map fst cs) \<Longrightarrow>
   map_of (count_colour c cs) d = (if d = c then Some (case map_of cs c of None \<Rightarrow> 1 | Some n \<Rightarrow> n + 1) else map_of cs d)"
  by (induction c cs rule: count_colour.induct) auto

lemma count_all_keys:
  "fst ` set (count_all cs ks) = fst ` set cs \<union> set ks" "distinct (map fst cs) \<Longrightarrow> distinct (map fst (count_all cs ks))"
  by (induction ks arbitrary: cs) (auto simp: count_colour_keys count_colour_distinct)

lemma count_all_value:
  assumes "distinct (map fst cs)"
  shows "map_of (count_all cs ks) d =
    (if d \<in> set ks then Some ((case map_of cs d of None \<Rightarrow> 0 | Some n \<Rightarrow> n) + count_list ks d) else map_of cs d)"
  using assms
proof (induction ks arbitrary: cs)
  case (Cons k ks)
  have "distinct (map fst (count_colour k cs))" using Cons.prems by (rule count_colour_distinct)
  from Cons.IH [OF this] show ?case
    using Cons.prems by (auto simp: count_colour_value count_list_0_iff split: option.split)
qed simp

lemma few_colours:
  assumes "distinct (map fst cs)" "fst ` set cs \<subseteq> key_space"
  shows "length cs \<le> 4096"
proof -
  have "length cs = card (fst ` set cs)" using distinct_card [OF assms(1)] by simp
  also have "\<dots> \<le> 4096" using card_mono [OF key_space_card(1) assms(2)] key_space_card(2) by simp
  finally show ?thesis .
qed

text \<open>There are no more than 4096 quantised colours, so no row is cut short.\<close>

lemma ink_row_counts:
  assumes "distinct (map fst cs)" "fst ` set cs \<subseteq> key_space"
  shows "ink_row img m y xs (cs, n) =
    (count_all cs (map (\<lambda>x. colour_key (pc_at img x y)) (filter (\<lambda>x. \<not> excluded_pixel m x y) xs)),
     n + length (filter (\<lambda>x. \<not> excluded_pixel m x y) xs))"
  using assms
proof (induction xs arbitrary: cs n)
  case (Cons x xs)
  let ?cs = "count_colour (colour_key (pc_at img x y)) cs"
  have ok: "distinct (map fst ?cs)" "fst ` set ?cs \<subseteq> key_space"
    using Cons.prems colour_key_space by (auto simp: count_colour_keys count_colour_distinct)
  show ?case using Cons.IH [OF ok] Cons.IH [OF Cons.prems] few_colours [OF ok] by (simp add: Let_def)
qed simp

lemma ink_counts_all: "ink_counts img m = (count_all [] (visible_colours img m), length (visible_colours img m))"
proof -
  let ?xs = "strided (rc_x0 (pc_bounds img)) (rc_x1 (pc_bounds img))"
  let ?row = "\<lambda>y. map (\<lambda>x. colour_key (pc_at img x y)) (filter (\<lambda>x. \<not> excluded_pixel m x y) ?xs)"
  have "foldl (\<lambda>st y. ink_row img m y ?xs st) (cs, n) ys = (count_all cs (concat (map ?row ys)), n + length (concat (map ?row ys)))"
    if "distinct (map fst cs)" "fst ` set cs \<subseteq> key_space" for cs n ys
    using that
  proof (induction ys arbitrary: cs n)
    case (Cons y ys)
    let ?cs = "count_all cs (?row y)"
    have row: "set (?row y) \<subseteq> key_space" unfolding set_map by (rule image_subsetI) (rule colour_key_space)
    have ok: "distinct (map fst ?cs)" "fst ` set ?cs \<subseteq> key_space"
      using Cons.prems row count_all_keys(2) [of cs "?row y"] by (simp_all only: count_all_keys(1) Un_subset_iff simp_thms)
    show ?case using Cons.IH [OF ok] by (simp add: ink_row_counts [OF Cons.prems])
  qed simp
  from this [of "[]" 0] show ?thesis by (simp add: ink_counts_def visible_colours_def)
qed

lemma Max_step:
  assumes "finite S"
  shows "Max (insert k (insert n S)) = Max (insert (max k (n :: nat)) S)"
  using assms by (cases "S = {}") (simp_all add: max.assoc)

lemma most_counted: "foldl (\<lambda>most (c, n). if n > most then n else most) (k :: nat) cs = Max (insert k (snd ` set cs))"
proof (induction cs arbitrary: k)
  case (Cons p cs)
  obtain c n where p: "p = (c, n)" by fastforce
  have step: "(if n > k then n else k) = max k n" by (simp add: max_def)
  have "foldl (\<lambda>most (c, n). if n > most then n else most) k (p # cs) =
      foldl (\<lambda>most (c, n). if n > most then n else most) (max k n) cs"
    by (simp only: p foldl_Cons case_prod_conv step)
  also have "\<dots> = Max (insert (max k n) (snd ` set cs))" by (rule Cons.IH)
  also have "\<dots> = Max (insert k (insert n (snd ` set cs)))" by (rule Max_step [symmetric]) simp
  finally show ?case by (simp only: p list.set image_insert snd_conv)
qed simp

lemma snd_values: "distinct (map fst cs) \<Longrightarrow> snd ` set cs = (\<lambda>c. the (map_of cs c)) ` fst ` set cs"
  by (force simp: image_image)

lemma colours_counted:
  assumes "ks \<noteq> []"
  shows "snd ` set (count_all [] ks) = count_list ks ` set ks" "length (count_all [] ks) = card (set ks)"
proof -
  have d: "distinct (map fst (count_all [] ks))" by (rule count_all_keys(2)) simp
  have "(\<lambda>c. the (map_of (count_all [] ks) c)) ` set ks = count_list ks ` set ks"
    by (rule image_cong) (simp_all add: count_all_value)
  then show "snd ` set (count_all [] ks) = count_list ks ` set ks"
    by (simp add: snd_values [OF d] count_all_keys(1))
  show "length (count_all [] ks) = card (set ks)" using distinct_card [OF d] count_all_keys(1) [of "[]" ks] by simp
qed

lemma ink_unfold:
  assumes "visible_colours img m = ks" "ks \<noteq> []" "length ks < 2 ^ 40"
  shows "ink img m = (int (length ks - Max (count_list ks ` set ks)) * 1000000 div int (length ks), int (card (set ks)))"
proof -
  let ?most = "Max (count_list ks ` set ks)"
  have "Max (insert 0 (count_list ks ` set ks)) = ?most"
    using assms(2) by (simp add: Max_insert)
  then have most: "foldl (\<lambda>most (c, n). if n > most then n else most) 0 (count_all [] ks) = ?most"
    by (simp only: most_counted colours_counted(1) [OF assms(2)])
  have "int (length ks - ?most) * 1000000 < 2 ^ 40 * 1000000" using assms(3) by simp
  then have "i64 (int (length ks - ?most) * 1000000) = int (length ks - ?most) * 1000000"
    by (intro i64_id) (simp add: in_i64_def)
  then show ?thesis
    using assms(2) most colours_counted(2) [OF assms(2)] by (simp add: ink_def ink_counts_all assms(1))
qed

text \<open>
  Claim C39. The ink of a picture is the share of the pixels looked at, outside the masks, whose
  colour is not the most frequent one, in parts per million rounded down. It lies between 0 and
  a million, a page of one colour has none and counts as blank under any floor, and no more
  than 4096 colours are told apart.
\<close>

theorem ink_is_the_share_off_background:
  assumes "visible_colours img m = ks" "ks \<noteq> []" "length ks < 2 ^ 40"
  shows "ink img m = (int (length ks - Max (count_list ks ` set ks)) * 1000000 div int (length ks), int (card (set ks))) \<and>
    0 \<le> fst (ink img m) \<and> fst (ink img m) < 1000000 \<and> card (set ks) \<le> 4096 \<and> (card (set ks) = 1 \<longrightarrow> fst (ink img m) = 0)"
proof -
  let ?most = "Max (count_list ks ` set ks)"
  note i = ink_unfold [OF assms]
  have keys: "set ks \<subseteq> key_space"
  proof
    fix k
    assume "k \<in> set ks"
    then obtain x y where "k = colour_key (pc_at img x y)" unfolding assms(1) [symmetric] visible_colours_def by auto
    then show "k \<in> key_space" by (simp only: colour_key_space)
  qed
  have "0 < ?most"
  proof -
    obtain k where k: "k \<in> set ks" using assms(2) by (cases ks) auto
    then have "0 < count_list ks k" by (metis count_list_0_iff gr0I)
    also have "count_list ks k \<le> ?most" using k by simp
    finally show ?thesis .
  qed
  then have "(length ks - ?most) * 1000000 div length ks < 1000000"
    using assms(2) by (simp add: div_less_iff_less_mult)
  then have "int ((length ks - ?most) * 1000000 div length ks) < 1000000" by simp
  then have "int (length ks - ?most) * 1000000 div int (length ks) < 1000000" by (simp add: zdiv_int)
  moreover have "0 \<le> int (length ks - ?most) * 1000000 div int (length ks)"
    using assms(2) by (subst pos_imp_zdiv_nonneg_iff) simp_all
  moreover have "?most = length ks" if one: "card (set ks) = 1"
  proof -
    obtain k where k: "set ks = {k}" by (rule card_1_singletonE [OF one])
    have "\<forall>x\<in>set ks. x = k" by (simp add: k)
    then have "count_list ks k = length ks" by (induction ks) simp_all
    then show ?thesis by (simp add: k)
  qed
  ultimately show ?thesis
    using i card_mono [OF key_space_card(1) keys] key_space_card(2) by auto
qed

section \<open>Masked pixels\<close>

lemma ink_row_same:
  assumes "\<And>x y. \<not> excluded_pixel m x y \<Longrightarrow> pc_at img' x y = pc_at img x y"
  shows "ink_row img' m y xs st = ink_row img m y xs st"
  by (induction xs arbitrary: st) (simp_all add: assms Let_def)

text \<open>
  What is under a mask has no say: two captures of the same size whose pixels agree
  outside the masked regions have the same hash and the same ink, so they pass or fail the same
  checks, at the same distance from any baseline.
\<close>

lemma masked_pixels_do_not_matter:
  assumes "analyse vw raw masks = Inr a" "vw_decode vw raw = Inr img" "vw_decode vw raw' = Inr img'"
    and "pc_bounds img' = pc_bounds img"
    and "\<And>x y. \<not> excluded_pixel (new_mask (pc_bounds img) masks) x y \<Longrightarrow> pc_at img' x y = pc_at img x y"
  shows "\<exists>a'. analyse vw raw' masks = Inr a' \<and> an_hash a' = an_hash a \<and> an_ink a' = an_ink a \<and> an_colours a' = an_colours a \<and>
    an_width a' = an_width a \<and> an_height a' = an_height a \<and>
    (blank_picture a' floor_ppm \<longleftrightarrow> blank_picture a floor_ppm) \<and>
    hash_distance baseline (an_hash a') = hash_distance baseline (an_hash a)"
proof -
  let ?m = "new_mask (pc_bounds img) masks"
  have "sampled_grid img' ?m = sampled_grid img ?m"
    unfolding sampled_grid_def assms(4) by (intro map_cong refl) (simp add: assms(5) Let_def)
  moreover have "ink img' ?m = ink img ?m"
    unfolding ink_def ink_counts_def assms(4) using ink_row_same [OF assms(5)] by simp
  ultimately show ?thesis
    using assms(1) unfolding analyse_def assms(2,3) sum.case assms(4)
    by (auto simp: Let_def blank_picture_def split: if_splits prod.splits)
qed

section \<open>Instances\<close>

definition dotted_page :: "int \<Rightarrow> picture" where
  "dotted_page dot =
     \<lparr>pc_bounds = \<lparr>rc_x0 = 0, rc_y0 = 0, rc_x1 = 4, rc_y1 = 4\<rparr>,
      pc_at = (\<lambda>x y. if x = dot \<and> y = 0 then (0, 0, 0) else (65535, 65535, 65535))\<rparr>"

theorem ink_is_the_share_off_background_witness:
  "ink (dotted_page 2) [] = (250000, 2)"
proof -
  let ?ks = "[(240, 240, 240), (0, 0, 0), (240, 240, 240), (240, 240, 240)] :: (nat \<times> nat \<times> nat) list"
  have v: "visible_colours (dotted_page 2) [] = ?ks"
    by (simp add: visible_colours_def strided_def dotted_page_def colour_key_def quantise_def excluded_pixel_def upt_rec)
  have c: "count_list ?ks ` set ?ks = {3, 1}" "card (set ?ks) = 2" "length ?ks = 4"
    by (simp_all add: eval_nat_numeral insert_commute)
  note ink = ink_is_the_share_off_background [OF v, THEN conjunct1, unfolded c]
  show ?thesis by (rule trans [OF ink]) simp_all
qed

end
