(* ===== verification/Browser.thy ===== *)
theory Browser
  imports Visual Catalogue
begin

text \<open>
  Browser journeys (\<open>internal/journey/browser.go\<close>, \<open>browser_engine.go\<close>): the request a journey
  becomes, with its credentials resolved against the page of the last navigation, the judgement
  of what the renderer reports, and the judgement of a screenshot. The renderer is reached over
  attested TLS; what it answers to a request, or why it could not be asked, is the argument
  \<open>rendered\<close>. Every step that was resolved is kept in a log, with the host it was resolved for
  and the credentials it used.
\<close>

section \<open>Data\<close>

record browser_step =
  bo_name :: string
  bo_kind :: string
  bo_url :: string
  bo_selector :: string
  bo_value :: string
  bo_key :: string
  bo_expression :: string
  bo_visible :: bool
  bo_sleep :: int
  bo_timeout :: int
  bo_screenshot :: bool
  bo_full :: bool
  bo_text :: bool

record browser_request =
  bq_steps :: "browser_step list"
  bq_width :: int
  bq_height :: int
  bq_timeout :: int
  bq_ocr :: bool

record browser_step_result =
  bt_name :: string
  bt_kind :: string
  bt_ok :: bool
  bt_ms :: int
  bt_detail :: string
  bt_text :: string
  bt_screenshot :: string
  bt_ocr :: string
  bt_value :: string

record browser_answer =
  bz_ok :: bool
  bz_failed :: string
  bz_error :: string
  bz_class :: string
  bz_ms :: int
  bz_steps :: "browser_step_result list"
  bz_console :: "string list"

text \<open>A capture; \<open>PNG\<close> is what travels with it.\<close>

record screen_capture =
  cap_step :: string
  cap_digest :: string
  cap_hash :: string
  cap_ink :: int
  cap_width :: int
  cap_height :: int
  cap_bytes :: int
  cap_distance :: int
  cap_stored :: bool
  cap_png :: "string option"

record build_state =
  bw_host :: string
  bw_drawn :: nat
  bw_red :: redactor
  bw_used :: "string list"
  bw_steps :: "browser_step list"
  bw_log :: "(string \<times> (string \<times> string) list) list"

section \<open>The request\<close>

definition browser_kind :: "string \<Rightarrow> string" where
  "browser_kind k =
     (if k \<in> {''goto'', ''click'', ''fill'', ''press'', ''eval''} then k
      else if k = ''wait'' then ''wait''
      else if k = ''sleep'' then ''sleep''
      else if k = ''screenshot'' then ''screenshot''
      else if k = ''read'' then ''text''
      else k)"

definition host_of_url :: "string \<Rightarrow> string" where
  "host_of_url raw = to_lower (cut_path (cut_scheme raw))"

text \<open>A URL is rendered without credentials and decides the host of what follows.\<close>

definition navigate :: "texts \<Rightarrow> string \<Rightarrow> build_state \<Rightarrow> string + string \<times> string \<times> nat" where
  "navigate tx url st =
     (if url = [] then Inr ([], bw_host st, bw_drawn st)
      else if references_secret url then Inl ErrSecretInURL
      else case render tx (vars_scope []) (bw_drawn st) url of
        Inl e \<Rightarrow> Inl e
      | Inr (rendered, _, n) \<Rightarrow> Inr (rendered, host_of_url rendered, n))"

definition build_step :: "texts \<Rightarrow> resolver option \<Rightarrow> monitor_step \<Rightarrow> build_state \<Rightarrow> failure option \<times> build_state" where
  "build_step tx rs s st =
     (case navigate tx (st_url s) st of
        Inl e \<Rightarrow> (Some (policy e), st)
      | Inr (url, host, n) \<Rightarrow>
          (case render tx \<lparr>sc_vars = [], sc_secrets = rs, sc_host = host, sc_used = []\<rparr> n (bs_value s) of
             Inl e \<Rightarrow> (Some (policy e), st)
           | Inr (val, sc1, n1) \<Rightarrow>
               (case render tx sc1 n1 (bs_expression s) of
                  Inl e \<Rightarrow> (Some (policy e), st)
                | Inr (expr, sc2, n2) \<Rightarrow>
                    (None,
                     \<lparr>bw_host = host, bw_drawn = n2,
                      bw_red = foldl (\<lambda>r (name, v). red_add r name v) (bw_red st) (sc_used sc2),
                      bw_used = foldl (\<lambda>us (name, v). List.insert name us) (bw_used st) (sc_used sc2),
                      bw_steps = bw_steps st @
                        [\<lparr>bo_name = st_name s, bo_kind = browser_kind (step.st_kind s), bo_url = url, bo_selector = bs_selector s,
                          bo_value = val, bo_key = bs_key s, bo_expression = expr, bo_visible = bs_visible s,
                          bo_sleep = st_sleep s, bo_timeout = i64 (bs_timeout s * 1000),
                          bo_screenshot = (bs_screenshot s \<noteq> None), bo_full = bs_full s, bo_text = bs_capture s\<rparr>],
                      bw_log = bw_log st @ [(host, sc_used sc2)]\<rparr>))))"

fun build_steps :: "texts \<Rightarrow> resolver option \<Rightarrow> monitor_step list \<Rightarrow> build_state \<Rightarrow> failure option \<times> build_state" where
  "build_steps tx rs [] st = (None, st)"
| "build_steps tx rs (s # ss) st =
     (case build_step tx rs s st of
        (Some f, st') \<Rightarrow> (Some f, st')
      | (None, st') \<Rightarrow> build_steps tx rs ss st')"

definition no_build :: build_state where
  "no_build = \<lparr>bw_host = [], bw_drawn = 0, bw_red = [], bw_used = [], bw_steps = [], bw_log = []\<rparr>"

definition build_request :: "texts \<Rightarrow> resolver option \<Rightarrow> monitor_def \<Rightarrow> (failure + browser_request) \<times> build_state" where
  "build_request tx rs m =
     (case build_steps tx rs (md_steps m) no_build of
        (Some f, st) \<Rightarrow> (Inl f, st)
      | (None, st) \<Rightarrow>
          (Inr \<lparr>bq_steps = bw_steps st, bq_width = vp_width (md_viewport m), bq_height = vp_height (md_viewport m),
                bq_timeout = i64 (mon_timeout m * 1000), bq_ocr = vp_ocr (md_viewport m)\<rparr>, st))"

section \<open>A screenshot\<close>

definition visual_text :: "(string \<Rightarrow> string) \<Rightarrow> visual_error \<Rightarrow> string" where
  "visual_text q e =
     (case e of
        NotAHash s \<Rightarrow> ''visual: '' @ q s @ '' is not a 64-bit hash''
      | NotAnImage why \<Rightarrow> ''visual: the capture is not a decodable image: '' @ why
      | NoPixels \<Rightarrow> ''visual: the capture has no pixels'')"

definition format_ink :: "int \<Rightarrow> string" where
  "format_ink ppm = show_int (go_quot ppm 10000) @ ''.'' @ show_int_pad 2 (go_quot (go_rem ppm 10000) 100) @ ''%''"

definition capture_summary :: "screen_capture \<Rightarrow> string" where
  "capture_summary c =
     show_int (cap_width c) @ ''x'' @ show_int (cap_height c) @ '', '' @ format_ink (cap_ink c) @ '' ink'' @
     (if cap_distance c \<ge> 0 then '', '' @ show_int (cap_distance c) @ '' bits from the baseline'' else []) @
     (if cap_stored c then '', kept'' else [])"

definition store_capture :: "screenshot_check \<Rightarrow> string \<Rightarrow> screen_capture \<Rightarrow> screen_capture" where
  "store_capture spec reason c =
     (let c1 = (if sk_store spec = ''always'' then c\<lparr>cap_stored := True\<rparr>
                else if sk_store spec = ''never'' then c\<lparr>cap_png := None\<rparr>
                else c\<lparr>cap_stored := (reason \<noteq> [] \<or> (sk_baseline spec \<noteq> [] \<and> cap_distance c > 0))\<rparr>)
      in if \<not> cap_stored c1 then c1\<lparr>cap_png := None\<rparr> else c1)"

definition measure_shot :: "outside \<Rightarrow> lib \<Rightarrow> viewer \<Rightarrow> string \<Rightarrow> string \<Rightarrow> screenshot_check \<Rightarrow> screen_capture option \<times> string" where
  "measure_shot x lb vw name encoded spec =
     (case x_unb64 x encoded of
        None \<Rightarrow> (None, ''the renderer'' @ [CHR 39] @ ''s screenshot did not decode'')
      | Some png \<Rightarrow>
          (case analyse vw png (sk_masks spec) of
             Inl e \<Rightarrow> (None, visual_text (l_quote lb) e)
           | Inr a \<Rightarrow>
               let out = \<lparr>cap_step = name, cap_digest = an_digest a, cap_hash = an_hash a, cap_ink = an_ink a,
                          cap_width = an_width a, cap_height = an_height a, cap_bytes = an_bytes a, cap_distance = -1,
                          cap_stored = False, cap_png = Some png\<rparr>;
                   reason = (if blank_picture a (sk_ink spec)
                             then ''the page rendered almost nothing: '' @ format_ink (an_ink a) @ '' of it is not background''
                             else [])
               in if sk_baseline spec = [] then (Some (store_capture spec reason out), reason)
                  else (case hash_distance (sk_baseline spec) (an_hash a) of
                      Inl e \<Rightarrow> (Some out, visual_text (l_quote lb) e)
                    | Inr d \<Rightarrow>
                        let out1 = out\<lparr>cap_distance := int d\<rparr>;
                            limit = (if sk_distance spec = 0 then DefaultDistance else sk_distance spec);
                            reason1 = (if int d > limit \<and> reason = []
                                       then ''the page no longer looks like the approved baseline: '' @ show_int (int d) @
                                            '' bits differ, the limit is '' @ show_int limit
                                       else reason)
                        in (Some (store_capture spec reason1 out1), reason1))))"

section \<open>The verdict\<close>

definition browser_class :: "string \<Rightarrow> string" where
  "browser_class class =
     (if class = ''navigation'' then ClassConnect
      else if class = ''selector'' then ClassAssertion
      else if class = ''timeout'' then ClassTimeout
      else if class = ''script'' then ClassAssertion
      else ClassPolicy)"

text \<open>What the loop over the renderer's steps carries: the result, the variables, and the text of the page.\<close>

record browser_view =
  bv_res :: journey_result
  bv_captures :: "screen_capture list"
  bv_vars :: "(string \<times> string) list"
  bv_text :: string
  bv_ocr :: string

definition screenshot_spec :: "monitor_step list \<Rightarrow> string \<Rightarrow> screenshot_check option" where
  "screenshot_spec steps name =
     (case map_of (rev (map (\<lambda>s. (st_name s, s)) steps)) name of None \<Rightarrow> None | Some s \<Rightarrow> bs_screenshot s)"

definition view_step :: "outside \<Rightarrow> lib \<Rightarrow> viewer \<Rightarrow> monitor_step list \<Rightarrow> redactor \<Rightarrow> browser_view \<Rightarrow> browser_step_result \<Rightarrow> browser_view" where
  "view_step x lb vw steps red bv rs =
     (let sr = \<lparr>sr_name = bt_name rs, sr_kind = bt_kind rs, sr_status = 0, sr_ms = bt_ms rs, sr_ok = bt_ok rs,
                sr_detail = redact red (bt_detail rs),
                sr_capture = (if bt_text rs \<noteq> [] then redact red (Journey.capture (bt_text rs)) else [])\<rparr>;
          bv1 = bv\<lparr>bv_text := (if bt_text rs \<noteq> [] then bt_text rs else bv_text bv),
                   bv_ocr := (if bt_ocr rs \<noteq> [] then bt_ocr rs else bv_ocr bv),
                   bv_vars := (if bt_value rs \<noteq> [] then AList.update (bt_name rs) (bt_value rs) (bv_vars bv) else bv_vars bv)\<rparr>;
          add = (\<lambda>bv sr. bv\<lparr>bv_res := (bv_res bv)\<lparr>rr_steps := rr_steps (bv_res bv) @ [sr]\<rparr>\<rparr>)
      in case (if bt_screenshot rs \<noteq> [] then screenshot_spec steps (bt_name rs) else None) of
           None \<Rightarrow> add bv1 sr
         | Some spec \<Rightarrow>
             (case measure_shot x lb vw (bt_name rs) (bt_screenshot rs) spec of
                (shot, reason) \<Rightarrow>
                  let sr1 = (case shot of None \<Rightarrow> sr
                        | Some c \<Rightarrow> sr\<lparr>sr_detail := trim_space (sr_detail sr @ '' '' @ capture_summary c)\<rparr>);
                      bv2 = (case shot of None \<Rightarrow> bv1 | Some c \<Rightarrow> bv1\<lparr>bv_captures := bv_captures bv1 @ [c]\<rparr>)
                  in if reason = [] then add bv2 sr1
                     else add (bv2\<lparr>bv_res := (bv_res bv2)\<lparr>rr_verdict := ''down'', rr_failed_step := bt_name rs,
                                   rr_class := ClassAssertion, rr_detail := reason\<rparr>\<rparr>) (sr1\<lparr>sr_ok := False\<rparr>)))"

fun run_checks :: "lib \<Rightarrow> (nat \<Rightarrow> texts) \<Rightarrow> nat \<Rightarrow> monitor_step list \<Rightarrow> observation \<Rightarrow> (string \<times> failure) option" where
  "run_checks lb txs k [] ob = None"
| "run_checks lb txs k (s # ss) ob =
     (case checks lb (txs k) 0 (step.truncate s) ob of
        (Some f, _) \<Rightarrow> Some (st_name s, f)
      | (None, vars) \<Rightarrow> run_checks lb txs (k + 1) ss (ob\<lparr>ob_vars := vars\<rparr>))"

definition no_result :: journey_result where
  "no_result = \<lparr>rr_verdict = ''up'', rr_ms = 0, rr_failed_step = [], rr_class = [], rr_detail = [], rr_steps = [], rr_used = []\<rparr>"

definition fail_browser :: "string \<Rightarrow> string \<Rightarrow> string \<Rightarrow> int \<Rightarrow> journey_result \<Rightarrow> journey_result" where
  "fail_browser verdict class detail ms res = res\<lparr>rr_verdict := verdict, rr_class := class, rr_detail := detail, rr_ms := ms\<rparr>"

definition judge_browser :: "outside \<Rightarrow> lib \<Rightarrow> viewer \<Rightarrow> (nat \<Rightarrow> texts) \<Rightarrow> int \<Rightarrow> monitor_def \<Rightarrow> redactor \<Rightarrow> journey_result \<Rightarrow>
    browser_answer \<Rightarrow> journey_result \<times> screen_capture list" where
  "judge_browser x lb vw txs ms m red res0 ans =
     (let bv = foldl (view_step x lb vw (md_steps m) red)
                 \<lparr>bv_res = res0, bv_captures = [], bv_vars = [], bv_text = [], bv_ocr = []\<rparr> (bz_steps ans);
          res1 = bv_res bv;
          res2 = (if bz_ok ans then res1
                  else res1\<lparr>rr_verdict := verdict_for (browser_class (bz_class ans)), rr_class := browser_class (bz_class ans),
                            rr_failed_step := bz_failed ans, rr_detail := redact red (bz_error ans)\<rparr>);
          ob = \<lparr>ob_status = 200, ob_latency = bz_ms ans, ob_headers = [], ob_body = bv_text bv, ob_decoded = None,
                ob_decoded_ok = False,
                ob_vars = AList.update VarConsole (str_join [CHR 10] (bz_console ans)) (AList.update VarOCRText (bv_ocr bv) (bv_vars bv))\<rparr>;
          res3 = (if rr_verdict res2 \<noteq> ''up'' then res2
                  else case run_checks lb txs 0 (md_steps m) ob of
                    None \<Rightarrow> res2
                  | Some (name, f) \<Rightarrow> res2\<lparr>rr_verdict := verdict_for (f_class f), rr_class := f_class f, rr_failed_step := name,
                                          rr_detail := redact red (f_detail f)\<rparr>);
          res4 = res3\<lparr>rr_ms := ms\<rparr>;
          res5 = (if rr_verdict res4 = ''up'' \<and> mon_budget m > 0 \<and> ms > mon_budget m
                  then res4\<lparr>rr_verdict := ''degraded'',
                            rr_detail := ''the journey completed in '' @ show_int ms @ ''ms, over the '' @ show_int (mon_budget m) @ ''ms budget''\<rparr>
                  else res4)
      in (last_defence red res5, if leaked red res5 then [] else bv_captures bv))"

definition run_browser :: "outside \<Rightarrow> lib \<Rightarrow> viewer \<Rightarrow> texts \<Rightarrow> (nat \<Rightarrow> texts) \<Rightarrow> bool \<Rightarrow> (browser_request \<Rightarrow> string + browser_answer) \<Rightarrow>
    resolver option \<Rightarrow> int \<Rightarrow> monitor_def \<Rightarrow> journey_result \<times> screen_capture list" where
  "run_browser x lb vw tx txs configured rendered rs ms m =
     (if \<not> configured then
        (fail_browser ''error'' ClassPolicy ''this monitor runs in a browser, and no renderer has been configured'' 0 no_result, [])
      else case build_request tx rs m of
        (Inl f, st) \<Rightarrow> (fail_browser (verdict_for (f_class f)) (f_class f) (redact (bw_red st) (f_detail f)) ms no_result, [])
      | (Inr req, st) \<Rightarrow>
          let res = no_result\<lparr>rr_used := bw_used st\<rparr> in
          (case rendered req of
             Inl e \<Rightarrow> (fail_browser ''error'' ClassPolicy (redact (bw_red st) e) ms res, [])
           | Inr ans \<Rightarrow> judge_browser x lb vw txs ms m (bw_red st) res ans))"

section \<open>Whose page a credential is for\<close>

text \<open>The host each step acts on: that of the last URL up to it.\<close>

fun page_hosts :: "string \<Rightarrow> (monitor_step \<times> browser_step) list \<Rightarrow> string list" where
  "page_hosts host [] = []"
| "page_hosts host ((s, b) # ps) =
     (let h = (if st_url s = [] then host else host_of_url (bo_url b)) in h # page_hosts h ps)"

lemma build_step_done:
  assumes "build_step tx rs s st = (None, st')"
  obtains b used where "bw_steps st' = bw_steps st @ [b]" "bw_log st' = bw_log st @ [(bw_host st', used)]"
    "bw_host st' = (if st_url s = [] then bw_host st else host_of_url (bo_url b))" "released rs (bw_host st') used"
    "bw_red st' = foldl (\<lambda>r (name, v). red_add r name v) (bw_red st) used"
proof -
  obtain url host n where nav: "navigate tx (st_url s) st = Inr (url, host, n)"
    using assms by (auto simp: build_step_def split: sum.splits)
  let ?sc = "\<lparr>sc_vars = [], sc_secrets = rs, sc_host = host, sc_used = []\<rparr>"
  obtain val sc1 n1 where v: "render tx ?sc n (bs_value s) = Inr (val, sc1, n1)"
    using assms nav by (auto simp: build_step_def split: sum.splits)
  obtain expr sc2 n2 where e: "render tx sc1 n1 (bs_expression s) = Inr (expr, sc2, n2)"
    using assms nav v by (auto simp: build_step_def split: sum.splits)
  have "released rs host (sc_used sc2)"
    using render_keeps [OF v] render_keeps [OF e] by (simp add: released_def)
  moreover have "host = (if st_url s = [] then bw_host st else host_of_url url)"
    using nav by (auto simp: navigate_def split: if_splits sum.splits)
  ultimately show thesis
    using assms nav v e by (intro that) (auto simp: build_step_def)
qed

lemma red_fold_grows: "set r \<subseteq> set (foldl (\<lambda>r (name, v). red_add r name v) r used)"
  by (rule fold_grows) (auto simp: red_add_grows [THEN subsetD])

lemma build_steps_done:
  assumes "build_steps tx rs ss st = (None, st')"
  shows "\<exists>outs log. bw_steps st' = bw_steps st @ outs \<and> bw_log st' = bw_log st @ log \<and> length outs = length ss \<and>
    map fst log = page_hosts (bw_host st) (zip ss outs) \<and> list_all (\<lambda>(h, used). released rs h used) log \<and>
    set (bw_red st) \<subseteq> set (bw_red st') \<and>
    (\<forall>(h, used)\<in>set log. \<forall>(name, val)\<in>set used. 4 \<le> length val \<longrightarrow> val \<in> fst ` set (bw_red st'))"
  using assms
proof (induction ss arbitrary: st)
  case (Cons s ss)
  obtain st1 where one: "build_step tx rs s st = (None, st1)" and rest: "build_steps tx rs ss st1 = (None, st')"
    using Cons.prems by (auto split: prod.splits option.splits)
  obtain b used where b: "bw_steps st1 = bw_steps st @ [b]" "bw_log st1 = bw_log st @ [(bw_host st1, used)]"
    "bw_host st1 = (if st_url s = [] then bw_host st else host_of_url (bo_url b))" "released rs (bw_host st1) used"
    "bw_red st1 = foldl (\<lambda>r (name, v). red_add r name v) (bw_red st) used"
    by (rule build_step_done [OF one])
  obtain outs log where r: "bw_steps st' = bw_steps st1 @ outs" "bw_log st' = bw_log st1 @ log" "length outs = length ss"
    "map fst log = page_hosts (bw_host st1) (zip ss outs)" "list_all (\<lambda>(h, used). released rs h used) log"
    "set (bw_red st1) \<subseteq> set (bw_red st')"
    "\<forall>(h, used)\<in>set log. \<forall>(name, val)\<in>set used. 4 \<le> length val \<longrightarrow> val \<in> fst ` set (bw_red st')"
    using Cons.IH [OF rest] by blast
  have red: "set (bw_red st) \<subseteq> set (bw_red st')" using red_fold_grows [of "bw_red st" used] r(6) by (simp add: b(5))
  have mine: "val \<in> fst ` set (bw_red st')" if "(name, val) \<in> set used" "4 \<le> length val" for name val
    using registers_used [OF that, of "bw_red st"] keys_mono [OF r(6)] by (simp add: b(5))
  have all: "\<forall>(h, used)\<in>set ((bw_host st1, used) # log). \<forall>(name, val)\<in>set used. 4 \<le> length val \<longrightarrow> val \<in> fst ` set (bw_red st')"
    using r(7) mine by auto
  show ?case
    by (rule exI [of _ "b # outs"], rule exI [of _ "(bw_host st1, used) # log"], intro conjI)
      (use r b red all in \<open>simp_all add: Let_def\<close>)
qed simp

lemma build_request_done:
  assumes "build_request tx rs m = (Inr req, st)"
  shows "length (bq_steps req) = length (md_steps m)" "map fst (bw_log st) = page_hosts [] (zip (md_steps m) (bq_steps req))"
    "list_all (\<lambda>(h, used). released rs h used) (bw_log st)"
    "\<forall>(h, used)\<in>set (bw_log st). \<forall>(name, val)\<in>set used. 4 \<le> length val \<longrightarrow> val \<in> fst ` set (bw_red st)"
proof -
  have "build_steps tx rs (md_steps m) no_build = (None, st)" "bq_steps req = bw_steps st"
    using assms by (auto simp: build_request_def split: prod.splits option.splits)
  then show "length (bq_steps req) = length (md_steps m)" "map fst (bw_log st) = page_hosts [] (zip (md_steps m) (bq_steps req))"
    "list_all (\<lambda>(h, used). released rs h used) (bw_log st)"
    "\<forall>(h, used)\<in>set (bw_log st). \<forall>(name, val)\<in>set used. 4 \<le> length val \<longrightarrow> val \<in> fst ` set (bw_red st)"
    using build_steps_done [of tx rs "md_steps m" no_build st] by (auto simp: no_build_def)
qed


section \<open>Whose failure it was\<close>

lemma build_step_policy: "build_step tx rs s st = (Some f, st') \<Longrightarrow> f_class f = ClassPolicy"
  by (auto simp: build_step_def policy_def split: sum.splits)

lemma build_request_policy: "build_request tx rs m = (Inl f, st) \<Longrightarrow> f_class f = ClassPolicy"
proof -
  have "build_steps tx rs ss st0 = (Some f, st) \<Longrightarrow> f_class f = ClassPolicy" for ss st0
    by (induction ss arbitrary: st0) (auto split: prod.splits option.splits dest: build_step_policy)
  then show "build_request tx rs m = (Inl f, st) \<Longrightarrow> f_class f = ClassPolicy"
    by (auto simp: build_request_def split: prod.splits option.splits)
qed

text \<open>
  A renderer that is missing, cannot be asked, or reports a failure of its own is never
  downtime of the service, and neither is a journey whose credentials do not resolve.
\<close>

lemma renderer_trouble_is_not_downtime:
  assumes "\<not> configured \<or> (\<exists>f st. build_request tx rs m = (Inl f, st)) \<or>
    (\<exists>req st. build_request tx rs m = (Inr req, st) \<and>
      ((\<exists>e. rendered req = Inl e) \<or>
       (\<exists>ans. rendered req = Inr ans \<and> \<not> bz_ok ans \<and> bz_class ans \<notin> {''navigation'', ''selector'', ''timeout'', ''script''})))"
  shows "rr_verdict (fst (run_browser x lb vw tx txs configured rendered rs ms m)) = ''error''"
proof -
  have "rr_verdict (fst (judge_browser x lb vw txs ms m red res ans)) = ''error''"
    if "\<not> bz_ok ans" "bz_class ans \<notin> {''navigation'', ''selector'', ''timeout'', ''script''}" for red res ans
    using that by (simp add: judge_browser_def Let_def browser_class_def verdict_for_def last_defence_def)
  then show ?thesis
    using assms build_request_policy [of tx rs m]
    by (auto simp: run_browser_def fail_browser_def verdict_for_def Let_def split: prod.split sum.split)
qed

text \<open>What the judged result of an answered run shows holds no credential the request carried.\<close>

lemma rendered_pages_are_redacted:
  assumes "build_request tx rs m = (Inr req, st)" "rendered req = Inr ans"
    and "run_browser x lb vw tx txs True rendered rs ms m = (res, caps)"
    and "(host, used) \<in> set (bw_log st)" "(name, val) \<in> set used" "4 \<le> length val"
  shows "list_all (\<lambda>s. \<not> str_contains (sr_capture s) val \<and> \<not> str_contains (sr_detail s) val) (rr_steps res)"
    "rr_detail res = leak_detail \<or> \<not> str_contains (rr_detail res) val"
proof -
  have key: "val \<in> fst ` set (bw_red st)" using build_request_done(4) [OF assms(1)] assms(4-6) by fastforce
  then have some: "bw_red st \<noteq> []" by auto
  obtain res0 where d: "res = last_defence (bw_red st) res0"
    using assms(1-3) by (auto simp: run_browser_def judge_browser_def Let_def)
  have clean: "\<not> str_contains msg val" if "\<not> leaks (bw_red st) msg" for msg
    using that key empty_contains [of val] assms(6) by (force simp: leaks_def list_ex_iff)
  have void: "\<not> str_contains [] val" using empty_contains [of val] assms(6) by auto
  show "list_all (\<lambda>s. \<not> str_contains (sr_capture s) val \<and> \<not> str_contains (sr_detail s) val) (rr_steps res)"
    "rr_detail res = leak_detail \<or> \<not> str_contains (rr_detail res) val"
    using clean void some by (auto simp: d last_defence_def leaked_def list_all_iff list_ex_iff)
qed

section \<open>Instances\<close>

definition page_step :: "string \<Rightarrow> string \<Rightarrow> string \<Rightarrow> string \<Rightarrow> monitor_step" where
  "page_step name kind url val =
     \<lparr>st_name = name, st_kind = kind, st_cleanup = False, st_method = [], st_url = url, st_headers = [], st_body = [],
      st_expect = [], st_follow = False, st_assertions = [], st_extractions = [], st_sleep = 0, bs_selector = ''input'',
      bs_value = val, bs_key = [], bs_expression = [], bs_visible = False, bs_full = False, bs_capture = False,
      bs_screenshot = None, bs_timeout = 0\<rparr>"

definition page_journey :: "monitor_step list \<Rightarrow> monitor_def" where
  "page_journey steps = sample_home\<lparr>mon_engine := EngineBrowser, md_steps := steps\<rparr>"

definition plain_texts :: texts where
  "plain_texts = \<lparr>tx_quote = (\<lambda>s. s), tx_gen = (\<lambda>_ _. Inl [])\<rparr>"

abbreviation sample_store :: resolver where "sample_store \<equiv> vault_resolver (\<lambda>_. []) plain_sealer sample_vault"

definition typed :: "monitor_step list \<Rightarrow> (string \<times> string) list" where
  "typed steps = map (\<lambda>b. (bo_kind b, bo_value b)) (bw_steps (snd (build_request plain_texts (Some sample_store) (page_journey steps))))"

definition sample_login :: monitor_def where
  "sample_login = page_journey [page_step ''open'' ''goto'' ''https://api.example.com/'' [], page_step ''type'' ''fill'' [] ''{{secrets.token}}'']"


section \<open>Where the binding does not hold the page\<close>

text \<open>
  The host of a URL keeps its user information. A URL whose user is the bound host passes for
  it, while a browser opens the host after the at sign.
\<close>

lemma user_information_passes_for_the_host:
  "typed [page_step ''open'' ''goto'' ''https://api.example.com:x@evil.example/'' [], page_step ''type'' ''fill'' [] ''{{secrets.token}}''] =
    [(''goto'', []), (''fill'', ''s3cret'')]"
  by code_simp

text \<open>Any step may carry a URL, and it moves the host; only a goto step moves the page.\<close>

lemma url_of_a_fill_moves_the_host:
  "typed [page_step ''open'' ''goto'' ''https://evil.example/'' [],
          page_step ''type'' ''fill'' ''https://api.example.com/'' ''{{secrets.token}}''] =
    [(''goto'', []), (''fill'', ''s3cret'')]"
  by code_simp

text \<open>Sixteen characters that are no hash are accepted as a baseline; every capture then fails the check.\<close>

lemma unreadable_baseline_is_downtime:
  assumes "sk_baseline spec = ''zzzzzzzzzzzzzzzz''"
  shows "snd (measure_shot x lb vw name encoded spec) \<noteq> []"
proof -
  have "hash_distance ''zzzzzzzzzzzzzzzz'' h = Inl (NotAHash ''zzzzzzzzzzzzzzzz'')" for h
  proof -
    have "hash_bytes ''zzzzzzzzzzzzzzzz'' = None" by code_simp
    then show ?thesis by (simp add: hash_distance_def)
  qed
  then show ?thesis
    by (simp add: measure_shot_def assms Let_def visual_text_def split: option.split sum.split visual_error.split)
qed

text \<open>A capture the renderer sent broken is a failed check of the page, and downtime.\<close>

lemma broken_capture_is_downtime:
  assumes "x_unb64 x (bt_screenshot rs) = None" "bt_screenshot rs \<noteq> []" "screenshot_spec steps (bt_name rs) = Some spec"
  shows "rr_verdict (bv_res (view_step x lb vw steps red bv rs)) = ''down''"
  using assms by (simp add: view_step_def Let_def measure_shot_def)

end
