(* ===== verification/Spec2Isabelle.thy ===== *)
theory Spec2Isabelle
  imports Intervals Compute Canon Store Ledger Detect Fold Clock RateLimit Wire TimeSource Incident Auth Maintenance
    Scheduler Schedule Report Verify Secrets Template Assertion Journey Monitors Writes Catalogue Response Credentials
    Visual Browser
begin

text \<open>
  A verification library for the service availability monitor of this repository: a Go
  program that runs scripted journeys against a service on a schedule, decides from the
  readings when a component is down, records every change as a signed transaction of a
  ledger, and issues availability reports that anyone can recompute. The library is a shallow
  embedding: each definition is one function, method or type of the code under
  \<open>internal/\<close> or \<open>cmd/monitor-verify\<close>, with the name it has there where HOL allows it.

  How the parts interact. The scheduler (\<open>Scheduler\<close>) picks the monitors that are due and
  hands their readings to detection (\<open>Detect\<close>) and to the ledger (\<open>Ledger\<close>, on the statements
  of \<open>Store\<close> and the encoding of \<open>Canon\<close>); a reading comes from the journey engine (\<open>Journey\<close>,
  with \<open>Template\<close>, \<open>Assertion\<close> and the vault, redactor and allowlist of \<open>Secrets\<close>). Folding
  (\<open>Fold\<close>) turns readings into minute and hour intervals; a report (\<open>Report\<close>) reads them,
  the agreed time (\<open>Schedule\<close>) and the maintenance windows (\<open>Maintenance\<close>) and computes its
  figures (\<open>Compute\<close> on \<open>Intervals\<close>); the offline verifier (\<open>Verify\<close>) checks what was issued.
  People act through the operations of \<open>Catalogue\<close>, \<open>Response\<close> and \<open>Credentials\<close>, with the
  permissions of \<open>Auth\<close>. The platform clock (\<open>Clock\<close>, \<open>Incident\<close>, \<open>RateLimit\<close>, \<open>Wire\<close>,
  \<open>TimeSource\<close>) is a second service in the same program that watches the clocks of enclaves.

  Theory by theory, with the file it models and what its lemmas show.

    \<^item> \<open>Prelude\<close>: 64-bit integers with their wrap-around, Go's string functions on bytes, and the
      list and sum facts the components share. Collections \<open>i64_simps\<close> and \<open>str_simps\<close>.
    \<^item> \<open>Intervals\<close> (\<open>availability/interval.go\<close>): each operation is the set operation on the
      seconds covered; the locale \<open>second_algebra\<close> states that contract and the reports use it.
    \<^item> \<open>Compute\<close> (\<open>availability/compute.go\<close>): the rollup means, second by second, the rule over
      the finest interval of each monitor; the budget of a report adds up; its ratios are right
      to the nearest part per million.
    \<^item> \<open>Schedule\<close> (\<open>availability/schedule.go\<close>): the expansion of a weekly schedule holds exactly
      the instants it agrees, and calendar periods partition time.
    \<^item> \<open>Canon\<close> (\<open>canon/canon.go\<close>, \<open>model/envelope.go\<close>), \<open>Store\<close> (\<open>store/store.go\<close>): the encodings
      are injective, a quoted value is one token of the statement.
    \<^item> \<open>Ledger\<close> (\<open>core/core.go\<close>): a commit is all or nothing, retries change nothing, history has
      no gaps, replay converges; the locale \<open>keyed_store\<close> is the contract of a table with a key.
      \<open>Writes\<close> reads back what a commit wrote and serves the operations below.
    \<^item> \<open>Detect\<close> (\<open>core/detect.go\<close>), \<open>Fold\<close> (\<open>core/samples.go\<close>, \<open>retention.go\<close>), \<open>Scheduler\<close>
      (\<open>probe/scheduler.go\<close>): declarations follow runs of threshold length, every reading is
      folded once, a monitor runs at its slots.
    \<^item> \<open>Maintenance\<close>, \<open>Report\<close> (\<open>core/maintenance.go\<close>, \<open>reports.go\<close>): what may be excluded; that
      a report is arithmetic over the register, and when its evidence is exact to the minute.
    \<^item> \<open>Verify\<close> (\<open>checkpoint/\<close>, \<open>cmd/monitor-verify\<close>): issued reports verify, accepted reports
      carry the figures of their own records, a lineage binds the roots inside it.
    \<^item> \<open>Secrets\<close> (\<open>secrets/\<close>, \<open>journey/egress.go\<close>), \<open>Template\<close>, \<open>Assertion\<close>, \<open>Journey\<close> (\<open>journey/\<close>):
      credentials reach only the hosts they are bound to and no record; cleanup runs; a run that
      sent nothing is no downtime. The locale \<open>credential_store\<close> is what the engine asks of a
      store, interpreted on the vault.
    \<^item> \<open>Auth\<close> (\<open>auth/\<close>): permissions come from held roles.
    \<^item> \<open>Monitors\<close> (\<open>model/domain.go\<close>, \<open>browser.go\<close>): the definition of a monitor, what is accepted
      and how it is encoded. \<open>Catalogue\<close> (\<open>core/catalogue.go\<close>, the egress refresh of \<open>samples.go\<close>):
      published versions are never edited, a service without a schedule is measured always.
      \<open>Response\<close> (\<open>core/incidents.go\<close>): timelines only grow. \<open>Credentials\<close>
      (\<open>core/credentials.go\<close>): the register says of a credential what the vault does and nothing
      of its value.
    \<^item> \<open>Visual\<close> (\<open>visual/visual.go\<close>): what the ink of a screenshot measures, that masked pixels have
      no say, and that the distance of two hashes is a metric.
    \<^item> \<open>Browser\<close> (\<open>journey/browser.go\<close>, \<open>browser_engine.go\<close>): credentials typed into a page are those
      bound to the host of the last URL, trouble of the renderer is no downtime, and what a page
      shows is redacted. Attested TLS to the renderer and its answer are arguments.
    \<^item> \<open>Clock\<close>, \<open>Incident\<close>, \<open>RateLimit\<close>, \<open>Wire\<close>, \<open>TimeSource\<close> (\<open>clock/\<close>): a quarantine needs a
      cause and is in force, reports cost a bounded amount of work (locale \<open>metered\<close>), signed bytes
      determine every field, and one lying time server cannot move the time.
    \<^item> This theory: what publishing a monitor declares and what journeys then send.

  Conventions. An \<open>int64\<close> or \<open>int\<close> of the code is an \<open>int\<close> whose results are brought back to the
  range by \<open>i64\<close>; a string is its bytes; a struct is a record, an error a value of a sum type, a
  map an association list or a partial function. A Go map that is iterated over is taken in any
  order where the order could matter (\<open>Compute\<close>) and in insertion order where it cannot. Locks
  leave one operation after another. A query is a filter on the list of rows of its table, and
  reading never fails; writing may: the engine \<open>x_engine\<close> may refuse any statement.

  Parameters. The record \<open>outside\<close> holds SHA-256, base64, number formatting, the SQL engine's
  answers and the root of the ledger package; \<open>trust\<close> the signatures and the ledger's proofs;
  \<open>sealer\<close> AES-GCM and the keyed fingerprint; \<open>lib\<close> the parsers of JSON, floats and regular
  expressions; \<open>codec\<close> and \<open>model_codec\<close> the readers of JSON columns; \<open>scheme_of\<close> and \<open>en_url\<close> the
  URL parser; a zone is a function of days and minutes; what the network, the clock and the
  random source do during a step is its \<open>turn\<close>; \<open>viewer\<close> decodes an image and holds the
  floating point transform of its hash; fresh identifiers are arguments. A theorem that needs more of a parameter says so in a hypothesis, and its witness instantiates it.

  Bounds. No definition uses fuel. Loops end by structure or by a measure (the template loop by
  the length of what is left, the calendar by the days left, the redirect loop by the hops still
  allowed). Constants of the code are definitions of their own (\<open>MaxRedirects\<close>, \<open>MaxBody\<close>,
  \<open>MaxSummary\<close>, \<open>MaxSteps\<close> and others).

  Not modelled. The HTTP interface and the pages (request decoding and routing), the commands
  and the environment, verification of identity tokens, key generation and packs, the instance
  configuration, the status page and other read-only views, anchors (the ledger package), the
  poller of the platform clock, its rows and its listing client over HTTP, the table schema,
  webhooks, the platform client and the attested client of the renderer: input and output,
  third-party code or views of what is modelled here. Of the modelled parts, files, goroutines and the loading of the keyring are
  left out; deadlines inside a journey are part of its turns.
\<close>

section \<open>What a definition declares and what a journey sends\<close>

text \<open>
  Claim C16. Publishing a monitor settles where the runner may go. Afterwards the egress list
  admits a host exactly when an enabled monitor's step, a service's callback or a configured
  callback host names it, so nothing an earlier version declared is left; and every request of
  every HTTP journey run under that list, its redirects included, goes to a host so named,
  whatever the journey's own definition and its targets answer.
\<close>

theorem requests_go_only_to_declared_hosts:
  assumes "upsert_monitor x cd scheme_of callback_hosts tenant now fresh (reg, Some a) p m0 message = (Inr r, reg', al')"
    and "\<not> al_open a"
  shows "(\<forall>host. egress_ok al' host \<longleftrightarrow> list_ex (\<lambda>e. names_host e host) (declared_hosts x cd callback_hosts (reg_tables reg'))) \<and>
    list_all (\<lambda>sn. list_all (\<lambda>host. list_ex (\<lambda>e. names_host e host) (declared_hosts x cd callback_hosts (reg_tables reg'))) (sn_hops sn))
      (js_log (snd (run_journey (en\<lparr>en_egress := al'\<rparr>) turns ms m)))"
proof -
  obtain a' where a': "al' = Some a'"
    "\<And>host. al_check a' host \<longleftrightarrow> list_ex (\<lambda>e. names_host e host) (declared_hosts x cd callback_hosts (reg_tables reg'))"
    using upsert_monitor_egress [OF assms] by blast
  have admits: "egress_ok al' host \<longleftrightarrow> list_ex (\<lambda>e. names_host e host) (declared_hosts x cd callback_hosts (reg_tables reg'))" for host
    by (simp add: egress_ok_def a')
  obtain res js where run: "run_journey (en\<lparr>en_egress := al'\<rparr>) turns ms m = (res, js)" by fastforce
  have "list_all (\<lambda>sn. list_all (egress_ok al') (sn_hops sn)) (js_log js)"
    by (rule list.pred_mono_strong [OF every_sent_ok [OF run]]) (simp add: sent_ok_def)
  moreover have "egress_ok al' = (\<lambda>host. list_ex (\<lambda>e. names_host e host) (declared_hosts x cd callback_hosts (reg_tables reg')))"
    by (rule ext) (rule admits)
  ultimately show ?thesis using run by simp
qed

theorem requests_go_only_to_declared_hosts_witness:
  "\<exists>r reg' al'. upsert_monitor sample_outside sample_model_codec (\<lambda>_. Some ''https'') [''api''] ''t'' 1790000000 None
      (sample_model_register, Some new_allowlist) sample_modeller sample_home ''Watch the home page'' = (Inr r, reg', al') \<and>
    egress_ok al' ''api'' \<and>
    list_all (\<lambda>sn. list_all (\<lambda>host. list_ex (\<lambda>e. names_host e host) (declared_hosts sample_outside sample_model_codec [''api''] (reg_tables reg')))
        (sn_hops sn))
      (js_log (snd (run_journey (plain_engine\<lparr>en_egress := al'\<rparr>) (\<lambda>_. plain_turn (\<lambda>_. answer 200 [] None)) 5
        (single (get_step ''https://api/'')))))"
proof -
  obtain m tr reg' where "publish_monitor sample_outside sample_model_codec (\<lambda>_. Some ''https'') ''t'' 1790000000 None sample_model_register
      sample_modeller sample_home ''Watch the home page'' = (Inr (m, tr), reg')"
    using sample_home_published by blast
  then obtain al' where u: "upsert_monitor sample_outside sample_model_codec (\<lambda>_. Some ''https'') [''api''] ''t'' 1790000000 None
      (sample_model_register, Some new_allowlist) sample_modeller sample_home ''Watch the home page'' = (Inr (m, tr), reg', al')"
    by (simp add: upsert_monitor_def)
  have closed: "\<not> al_open new_allowlist" by (simp add: new_allowlist_def)
  note ok = requests_go_only_to_declared_hosts [OF u closed]
  have "names_host (to_lower ''api'') ''api''" by code_simp
  then have "egress_ok al' ''api''"
    unfolding ok [THEN conjunct1, rule_format] by (simp add: declared_hosts_def)
  with u ok show ?thesis by blast
qed

end
